(* ===== verification/Stack_Prelude.thy ===== *)
theory Stack_Prelude
  imports Main "HOL-Library.Word" "HOL-Library.Monad_Syntax"
begin

text \<open>
  Shared ground of the development: the C integer types, the byte layout of 16- and 32-bit
  integers in memory, bounded reads of a buffer, the allocator, and the search loops over fixed
  tables that several source files share (\<^verbatim>\<open>for (e = tab; e < tailof(tab); e++)\<close>).

  Conventions used everywhere: a result of type \<open>'a option\<close> whose \<open>None\<close> is documented as
  undefined behaviour stands for a C execution that reads or writes outside an object or follows
  a null or dangling pointer; every status code of the source is a value inside \<open>Some\<close>.
\<close>

unbundle bit_operations_syntax

named_theorems layout_simps \<open>byte layout of integers: loads after stores, lengths\<close>
named_theorems slot_simps \<open>searches over fixed tables\<close>
named_theorems frame_simps \<open>state components an operation leaves alone\<close>

type_synonym u8 = "8 word"
type_synonym u16 = "16 word"
type_synonym u32 = "32 word"
type_synonym bytes = "8 word list"

section \<open>Definitions\<close>

subsection \<open>Integers in memory\<close>

datatype endianness = LittleEndian | BigEndian

fun store16_on :: "endianness \<Rightarrow> u16 \<Rightarrow> bytes" where
  "store16_on LittleEndian w = [ucast w, ucast (drop_bit 8 w)]"
| "store16_on BigEndian w = [ucast (drop_bit 8 w), ucast w]"

fun load16_on :: "endianness \<Rightarrow> u8 \<Rightarrow> u8 \<Rightarrow> u16" where
  "load16_on LittleEndian b0 b1 = ucast b0 OR push_bit 8 (ucast b1)"
| "load16_on BigEndian b0 b1 = push_bit 8 (ucast b0) OR ucast b1"

fun store32_on :: "endianness \<Rightarrow> u32 \<Rightarrow> bytes" where
  "store32_on LittleEndian w =
     [ucast w, ucast (drop_bit 8 w), ucast (drop_bit 16 w), ucast (drop_bit 24 w)]"
| "store32_on BigEndian w =
     [ucast (drop_bit 24 w), ucast (drop_bit 16 w), ucast (drop_bit 8 w), ucast w]"

fun load32_on :: "endianness \<Rightarrow> u8 \<Rightarrow> u8 \<Rightarrow> u8 \<Rightarrow> u8 \<Rightarrow> u32" where
  "load32_on LittleEndian b0 b1 b2 b3 =
     ucast b0 OR push_bit 8 (ucast b1) OR push_bit 16 (ucast b2) OR push_bit 24 (ucast b3)"
| "load32_on BigEndian b0 b1 b2 b3 =
     push_bit 24 (ucast b0) OR push_bit 16 (ucast b1) OR push_bit 8 (ucast b2) OR ucast b3"

text \<open>
  The stack itself is modelled on the target it is built for, a little-endian host; the byte-order
  functions of \<^verbatim>\<open>util.c\<close> are modelled for both.
\<close>

abbreviation store16 :: "u16 \<Rightarrow> bytes" where "store16 \<equiv> store16_on LittleEndian"
abbreviation load16 :: "u8 \<Rightarrow> u8 \<Rightarrow> u16" where "load16 \<equiv> load16_on LittleEndian"
abbreviation store32 :: "u32 \<Rightarrow> bytes" where "store32 \<equiv> store32_on LittleEndian"
abbreviation load32 :: "u8 \<Rightarrow> u8 \<Rightarrow> u8 \<Rightarrow> u8 \<Rightarrow> u32" where "load32 \<equiv> load32_on LittleEndian"

subsection \<open>Bounded copies and reads\<close>

text \<open>
  \<open>mem_read m off n\<close> reads \<open>n\<close> bytes at offset \<open>off\<close> of an object with contents \<open>m\<close>
  (the source operand of a \<^verbatim>\<open>memcpy\<close>); \<open>mem_write\<close> is the destination side.
\<close>

definition mem_read :: "'b list \<Rightarrow> nat \<Rightarrow> nat \<Rightarrow> 'b list option" where
  "mem_read m off n = (if off + n \<le> length m then Some (take n (drop off m)) else None)"

definition mem_write :: "'b list \<Rightarrow> nat \<Rightarrow> 'b list \<Rightarrow> 'b list option" where
  "mem_write m off d =
     (if off + length d \<le> length m then Some (take off m @ d @ drop (off + length d) m) else None)"

text \<open>Conversion of an \<^verbatim>\<open>int\<close> to a 64-bit \<^verbatim>\<open>size_t\<close>: reduction modulo \<open>2 ^ 64\<close>.\<close>

definition size_t_of_int :: "int \<Rightarrow> nat" where
  "size_t_of_int i = nat (i mod 2 ^ 64)"

subsection \<open>Allocation\<close>

text \<open>
  \<^verbatim>\<open>memory_alloc\<close> is \<^verbatim>\<open>calloc(1, size)\<close>. Whether the \<open>n\<close>-th allocation of a run succeeds is
  not in the program's hands: \<open>mem_ok\<close> says so, for every \<open>n\<close>; \<open>mem_n\<close> counts the calls. A
  successful call returns an address no earlier call returned.
\<close>

record alloc_state =
  mem_ok :: "nat \<Rightarrow> bool"
  mem_n :: nat

definition memory_alloc :: "'a alloc_state_scheme \<Rightarrow> nat option \<times> 'a alloc_state_scheme" where
  "memory_alloc s = (if mem_ok s (mem_n s) then Some (mem_n s) else None, s\<lparr>mem_n := Suc (mem_n s)\<rparr>)"

subsection \<open>First free slot, first match\<close>

fun find_slot :: "('a \<Rightarrow> bool) \<Rightarrow> 'a list \<Rightarrow> nat option" where
  "find_slot P [] = None"
| "find_slot P (x # xs) = (if P x then Some 0 else map_option Suc (find_slot P xs))"

section \<open>Lemmas\<close>

declare load16_on.simps [simp del] load32_on.simps [simp del]

lemmas load_defs = load16_on.simps load32_on.simps

subsection \<open>Byte layout\<close>

lemma length_store16 [simp, layout_simps]: "length (store16_on e w) = 2"
  by (cases e) simp_all

lemma length_store32 [simp, layout_simps]: "length (store32_on e w) = 4"
  by (cases e) simp_all

lemma load16_store16 [simp, layout_simps]:
  "load16 (ucast w) (ucast (drop_bit 8 w)) = w" for w :: u16
  by (rule bit_word_eqI) (auto simp: bit_simps load_defs)

lemma load16_big_store16 [simp, layout_simps]:
  "load16_on BigEndian (ucast (drop_bit 8 w)) (ucast w) = w" for w :: u16
  by (rule bit_word_eqI) (auto simp: bit_simps load_defs)

lemma load32_store32 [simp, layout_simps]:
  "load32 (ucast w) (ucast (drop_bit 8 w)) (ucast (drop_bit 16 w)) (ucast (drop_bit 24 w)) = w"
  for w :: u32
proof (rule bit_word_eqI)
  fix n assume "n < LENGTH(32)"
  then consider "n < 8" | "8 \<le> n" "n < 16" | "16 \<le> n" "n < 24" | "24 \<le> n" "n < 32"
    by fastforce
  then show "bit (load32 (ucast w) (ucast (drop_bit 8 w)) (ucast (drop_bit 16 w))
      (ucast (drop_bit 24 w))) n = bit w n"
    by cases (auto simp: bit_simps load_defs)
qed

lemma u8_no_high_bit: "8 \<le> n \<Longrightarrow> \<not> bit b n" for b :: u8
  using bit_imp_le_length [of b n] by auto

lemma store16_load16 [layout_simps]: "store16_on e (load16_on e b0 b1) = [b0, b1]"
  by (cases e) (auto intro!: bit_word_eqI simp: bit_simps load_defs u8_no_high_bit)

lemma store32_load32 [layout_simps]: "store32_on e (load32_on e b0 b1 b2 b3) = [b0, b1, b2, b3]"
  by (cases e) (auto intro!: bit_word_eqI simp: bit_simps load_defs u8_no_high_bit)

lemma unat_load16: "unat (load16 b0 b1) = unat b0 + 256 * unat b1"
proof -
  have "uint (load16 b0 b1) = uint b0 + 256 * uint b1"
  proof -
    have "ucast b0 AND push_bit 8 (ucast b1) = (0 :: u16)"
      by (rule bit_word_eqI) (auto simp: bit_simps u8_no_high_bit)
    then have "load16 b0 b1 = ucast b0 + push_bit 8 (ucast b1)"
      by (simp add: load_defs disjunctive_add_eq_or)
    moreover have "uint b0 < 256" "uint b1 < 256" "0 \<le> uint b0" "0 \<le> uint b1"
      using uint_bounded [of b0] uint_bounded [of b1] by simp_all
    ultimately show ?thesis
      by (simp add: push_bit_eq_mult uint_word_ariths unsigned_ucast_eq take_bit_eq_mod)
  qed
  then have "int (unat (load16 b0 b1)) = int (unat b0 + 256 * unat b1)"
    by simp
  then show ?thesis
    by (simp only: of_nat_eq_iff)
qed

subsection \<open>Bounded memory\<close>

lemma mem_read_Some [simp]: "off + n \<le> length m \<Longrightarrow> mem_read m off n = Some (take n (drop off m))"
  by (simp add: mem_read_def)

lemma mem_read_None_iff: "mem_read m off n = None \<longleftrightarrow> length m < off + n"
  by (auto simp: mem_read_def)

lemma mem_write_length: "mem_write m off d = Some m' \<Longrightarrow> length m' = length m"
  by (auto simp: mem_write_def split: if_splits)

lemma mem_read_write_same:
  "mem_write m off d = Some m' \<Longrightarrow> mem_read m' off (length d) = Some d"
  by (auto simp: mem_write_def mem_read_def split: if_splits)

lemma size_t_of_int_id [simp]: "0 \<le> i \<Longrightarrow> i < 2 ^ 64 \<Longrightarrow> size_t_of_int i = nat i"
  by (simp add: size_t_of_int_def)

subsection \<open>Table searches\<close>

lemma find_slot_None [slot_simps]: "find_slot P xs = None \<longleftrightarrow> (\<forall>x \<in> set xs. \<not> P x)"
  by (induction xs) auto

lemma find_slot_SomeD:
  "find_slot P xs = Some i \<Longrightarrow> i < length xs \<and> P (xs ! i) \<and> (\<forall>j < i. \<not> P (xs ! j))"
proof (induction xs arbitrary: i)
  case (Cons x xs)
  then show ?case
    by (auto simp: less_Suc_eq_0_disj split: if_splits)
qed simp

lemma find_slot_bound [simp]: "find_slot P xs = Some i \<Longrightarrow> i < length xs"
  by (auto dest: find_slot_SomeD)

lemma find_slot_holds: "find_slot P xs = Some i \<Longrightarrow> P (xs ! i)"
  by (auto dest: find_slot_SomeD)

lemma find_slotI:
  "i < length xs \<Longrightarrow> P (xs ! i) \<Longrightarrow> (\<And>j. j < i \<Longrightarrow> \<not> P (xs ! j)) \<Longrightarrow> find_slot P xs = Some i"
proof (induction xs arbitrary: i)
  case (Cons x xs)
  show ?case
  proof (cases i)
    case 0
    with Cons.prems show ?thesis by simp
  next
    case (Suc k)
    with Cons.prems have "\<not> P x" and "find_slot P xs = Some k"
      by (force intro: Cons.IH)+
    with Suc show ?thesis by simp
  qed
qed simp

lemma find_slot_exists: "i < length xs \<Longrightarrow> P (xs ! i) \<Longrightarrow> \<exists>k \<le> i. find_slot P xs = Some k"
  by (metis find_slot_None find_slot_SomeD linorder_not_le not_None_eq nth_mem)

end
