(* ===== verification/Util_Queue.thy ===== *)
theory Util_Queue
  imports Stack_Prelude
begin

text \<open>
  The FIFO queue of \<^verbatim>\<open>src/lib/util.c\<close>, twice. First as the code has it: heap cells linked by
  \<^verbatim>\<open>next\<close>, a header with head and tail pointers and an \<^verbatim>\<open>unsigned int\<close> counter, every pointer
  access checked (\<open>None\<close> is a dangling access or a double free). Then as a list, the form the
  other components embed in their records.

  The interface of a queue is the locale \<open>fifo\<close>; both versions are interpretations of it, and a
  simulation lemma says that a client cannot tell them apart.
\<close>

section \<open>Definitions\<close>

subsection \<open>Linked cells\<close>

record 'd queue_entry =
  qe_next :: "nat option"
  qe_data :: 'd

record queue_head =
  qh_head :: "nat option"
  qh_tail :: "nat option"
  qh_num :: u32

record 'd queue_heap = alloc_state +
  cells :: "nat \<rightharpoonup> 'd queue_entry"

definition queue_init :: queue_head where
  "queue_init = \<lparr>qh_head = None, qh_tail = None, qh_num = 0\<rparr>"

definition memory_free :: "nat \<Rightarrow> 'd queue_heap \<Rightarrow> 'd queue_heap option" where
  "memory_free p h = (if cells h p = None then None else Some (h\<lparr>cells := (cells h)(p := None)\<rparr>))"

text \<open>\<open>None\<close> as the queue argument is the null pointer; the result is the pushed datum or null.\<close>

definition queue_push ::
  "'d queue_heap \<Rightarrow> queue_head option \<Rightarrow> 'd \<Rightarrow> ('d option \<times> 'd queue_heap \<times> queue_head option) option" where
  "queue_push h queue data =
     (case queue of
        None \<Rightarrow> Some (None, h, queue)
      | Some q \<Rightarrow>
          (case memory_alloc h of
             (None, h) \<Rightarrow> Some (None, h, queue)
           | (Some entry, h) \<Rightarrow>
               (let h = h\<lparr>cells := (cells h)(entry \<mapsto> \<lparr>qe_next = None, qe_data = data\<rparr>)\<rparr>
                in do {
                  h \<leftarrow> (case qh_tail q of
                         None \<Rightarrow> Some h
                       | Some t \<Rightarrow>
                           (case cells h t of
                              None \<Rightarrow> None
                            | Some te \<Rightarrow> Some (h\<lparr>cells := (cells h)(t \<mapsto> te\<lparr>qe_next := Some entry\<rparr>)\<rparr>)));
                  let q = q\<lparr>qh_tail := Some entry\<rparr>;
                  let q = (if qh_head q = None then q\<lparr>qh_head := Some entry\<rparr> else q);
                  let q = q\<lparr>qh_num := qh_num q + 1\<rparr>;
                  Some (Some data, h, Some q)
                })))"

definition queue_pop ::
  "'d queue_heap \<Rightarrow> queue_head option \<Rightarrow> ('d option \<times> 'd queue_heap \<times> queue_head option) option" where
  "queue_pop h queue =
     (case queue of
        None \<Rightarrow> Some (None, h, queue)
      | Some q \<Rightarrow>
          (case qh_head q of
             None \<Rightarrow> Some (None, h, queue)
           | Some entry \<Rightarrow>
               do {
                 e \<leftarrow> cells h entry;
                 let q = q\<lparr>qh_head := qe_next e\<rparr>;
                 let q = (if qh_head q = None then q\<lparr>qh_tail := None\<rparr> else q);
                 let q = q\<lparr>qh_num := qh_num q - 1\<rparr>;
                 h \<leftarrow> memory_free entry h;
                 Some (Some (qe_data e), h, Some q)
               }))"

definition queue_peek :: "'d queue_heap \<Rightarrow> queue_head option \<Rightarrow> 'd option option" where
  "queue_peek h queue =
     (case queue of
        None \<Rightarrow> Some None
      | Some q \<Rightarrow>
          (case qh_head q of
             None \<Rightarrow> Some None
           | Some entry \<Rightarrow> do { e \<leftarrow> cells h entry; Some (Some (qe_data e)) }))"

text \<open>
  The traversal follows \<^verbatim>\<open>next\<close> until null, on a cyclic chain for ever: \<open>None\<close> then. The call
  \<^verbatim>\<open>func(arg, data)\<close> is a state transformer.
\<close>

partial_function (option) queue_walk ::
  "('s \<Rightarrow> 'd \<Rightarrow> 's) \<Rightarrow> (nat \<rightharpoonup> 'd queue_entry) \<Rightarrow> nat option \<Rightarrow> 's \<Rightarrow> 's option" where
  "queue_walk func m entry s =
     (case entry of
        None \<Rightarrow> Some s
      | Some a \<Rightarrow>
          (case m a of
             None \<Rightarrow> None
           | Some e \<Rightarrow> queue_walk func m (qe_next e) (func s (qe_data e))))"

definition queue_foreach ::
  "'d queue_heap \<Rightarrow> queue_head option \<Rightarrow> ('s \<Rightarrow> 'd \<Rightarrow> 's) option \<Rightarrow> 's \<Rightarrow> 's option" where
  "queue_foreach h queue func s =
     (case (queue, func) of
        (Some q, Some f) \<Rightarrow> queue_walk f (cells h) (qh_head q) s
      | _ \<Rightarrow> Some s)"

subsection \<open>The same queue as a list\<close>

record 'd lqueue =
  q_items :: "'d list"
  q_num :: u32

definition lqueue_init :: "'d lqueue" where
  "lqueue_init = \<lparr>q_items = [], q_num = 0\<rparr>"

definition lqueue_push ::
  "'a alloc_state_scheme \<Rightarrow> 'd lqueue \<Rightarrow> 'd \<Rightarrow> 'd option \<times> 'a alloc_state_scheme \<times> 'd lqueue" where
  "lqueue_push s q data =
     (case memory_alloc s of
        (None, s) \<Rightarrow> (None, s, q)
      | (Some _, s) \<Rightarrow> (Some data, s, q\<lparr>q_items := q_items q @ [data], q_num := q_num q + 1\<rparr>))"

definition lqueue_pop :: "'d lqueue \<Rightarrow> 'd option \<times> 'd lqueue" where
  "lqueue_pop q =
     (case q_items q of
        [] \<Rightarrow> (None, q)
      | x # xs \<Rightarrow> (Some x, q\<lparr>q_items := xs, q_num := q_num q - 1\<rparr>))"

subsection \<open>Client programs\<close>

datatype 'd queue_op = Push 'd | Pop

fun run_heap ::
  "'d queue_heap \<Rightarrow> queue_head \<Rightarrow> 'd queue_op list \<Rightarrow> ('d option list \<times> 'd queue_heap \<times> queue_head) option" where
  "run_heap h q [] = Some ([], h, q)"
| "run_heap h q (c # cs) =
     (case (case c of Push d \<Rightarrow> queue_push h (Some q) d | Pop \<Rightarrow> queue_pop h (Some q)) of
        Some (r, h', Some q') \<Rightarrow>
          (case run_heap h' q' cs of
             None \<Rightarrow> None
           | Some (rs, h'', q'') \<Rightarrow> Some (r # rs, h'', q''))
      | _ \<Rightarrow> None)"

fun run_list ::
  "'a alloc_state_scheme \<Rightarrow> 'd lqueue \<Rightarrow> 'd queue_op list \<Rightarrow> 'd option list \<times> 'a alloc_state_scheme \<times> 'd lqueue" where
  "run_list s q [] = ([], s, q)"
| "run_list s q (c # cs) =
     (let (r, s', q') = (case c of Push d \<Rightarrow> lqueue_push s q d | Pop \<Rightarrow> (fst (lqueue_pop q), s, snd (lqueue_pop q)));
          (rs, s'', q'') = run_list s' q' cs
      in (r # rs, s'', q''))"

section \<open>The interface of a queue\<close>

text \<open>
  \<open>rep q xs\<close>: the concrete queue \<open>q\<close> is well formed and holds \<open>xs\<close>, oldest first. A push may
  fail for lack of memory and then leaves the contents alone; a pop takes the oldest element.
\<close>

locale fifo =
  fixes rep :: "'q \<Rightarrow> 'd list \<Rightarrow> bool"
    and push :: "'q \<Rightarrow> 'd \<Rightarrow> ('d option \<times> 'q) option"
    and pop :: "'q \<Rightarrow> ('d option \<times> 'q) option"
  assumes push_law: "rep q xs \<Longrightarrow>
      (\<exists>q'. push q d = Some (Some d, q') \<and> rep q' (xs @ [d])) \<or>
      (\<exists>q'. push q d = Some (None, q') \<and> rep q' xs)"
    and pop_empty: "rep q [] \<Longrightarrow> \<exists>q'. pop q = Some (None, q') \<and> rep q' []"
    and pop_cons: "rep q (x # xs) \<Longrightarrow> \<exists>q'. pop q = Some (Some x, q') \<and> rep q' xs"
begin

primrec pushes :: "'q \<Rightarrow> 'd list \<Rightarrow> 'q option" where
  "pushes q [] = Some q"
| "pushes q (d # ds) =
     (case push q d of Some (Some _, q') \<Rightarrow> pushes q' ds | _ \<Rightarrow> None)"

text \<open>The drain loop of the clients, \<^verbatim>\<open>while ((entry = queue_pop(q)) != NULL)\<close>, with a bound on its rounds.\<close>

primrec drain :: "nat \<Rightarrow> 'q \<Rightarrow> ('d list \<times> 'q) option" where
  "drain 0 q = None"
| "drain (Suc n) q =
     (case pop q of
        Some (None, q') \<Rightarrow> Some ([], q')
      | Some (Some x, q') \<Rightarrow> (case drain n q' of Some (xs, q'') \<Rightarrow> Some (x # xs, q'') | None \<Rightarrow> None)
      | None \<Rightarrow> None)"

lemma pop_law:
  "rep q xs \<Longrightarrow> \<exists>q'. pop q = Some (case xs of [] \<Rightarrow> None | x # _ \<Rightarrow> Some x, q') \<and> rep q' (tl xs)"
  by (cases xs) (auto dest: pop_empty pop_cons)

lemma drain_all: "rep q xs \<Longrightarrow> length xs < n \<Longrightarrow> \<exists>q'. drain n q = Some (xs, q') \<and> rep q' []"
proof (induction n arbitrary: q xs)
  case (Suc n)
  show ?case
  proof (cases xs)
    case Nil
    with Suc.prems pop_empty [of q] show ?thesis by auto
  next
    case (Cons x ys)
    with Suc.prems pop_cons [of q x ys] obtain q' where "pop q = Some (Some x, q')" "rep q' ys"
      by auto
    with Suc.IH [of q' ys] Suc.prems Cons show ?thesis by auto
  qed
qed simp

lemma pushes_rep: "rep q xs \<Longrightarrow> pushes q ds = Some q' \<Longrightarrow> rep q' (xs @ ds)"
proof (induction ds arbitrary: q xs)
  case (Cons d ds)
  from Cons.prems(2) obtain r q1 where q1: "push q d = Some (Some r, q1)" "pushes q1 ds = Some q'"
    by (auto split: option.splits)
  with push_law [OF Cons.prems(1), of d] have "rep q1 (xs @ [d])" by auto
  from Cons.IH [OF this q1(2)] show ?case by simp
qed simp

text \<open>First in, first out: what goes in comes out in the same order, behind what was there.\<close>

lemma fifo_order:
  assumes "rep q xs" and "pushes q ds = Some q'" and "length xs + length ds < n"
  shows "\<exists>q''. drain n q' = Some (xs @ ds, q'') \<and> rep q'' []"
  using drain_all [OF pushes_rep [OF assms(1,2)]] assms(3) by simp

end

section \<open>The linked queue implements the interface\<close>

text \<open>\<open>chain m p as\<close>: following \<^verbatim>\<open>next\<close> from \<open>p\<close> visits the cells \<open>as\<close> and ends in null.\<close>

fun chain :: "(nat \<rightharpoonup> 'd queue_entry) \<Rightarrow> nat option \<Rightarrow> nat list \<Rightarrow> bool" where
  "chain m p [] \<longleftrightarrow> p = None"
| "chain m p (a # as) \<longleftrightarrow> p = Some a \<and> (\<exists>e. m a = Some e \<and> chain m (qe_next e) as)"

definition cell_data :: "(nat \<rightharpoonup> 'd queue_entry) \<Rightarrow> nat \<Rightarrow> 'd" where
  "cell_data m a = qe_data (the (m a))"

definition heap_cells :: "'d queue_heap \<Rightarrow> queue_head \<Rightarrow> nat list \<Rightarrow> bool" where
  "heap_cells h q as \<longleftrightarrow>
     chain (cells h) (qh_head q) as \<and> distinct as \<and> (\<forall>a \<in> set as. a < mem_n h) \<and>
     qh_tail q = (if as = [] then None else Some (last as)) \<and> qh_num q = of_nat (length as)"

definition heap_rep :: "'d queue_heap \<times> queue_head option \<Rightarrow> 'd list \<Rightarrow> bool" where
  "heap_rep hq xs \<longleftrightarrow>
     (\<exists>q as. snd hq = Some q \<and> heap_cells (fst hq) q as \<and> xs = map (cell_data (cells (fst hq))) as)"

lemma chain_mapped: "chain m p as \<Longrightarrow> a \<in> set as \<Longrightarrow> \<exists>e. m a = Some e"
  by (induction as arbitrary: p) auto

lemma chain_frame: "chain m p as \<Longrightarrow> (\<And>a. a \<in> set as \<Longrightarrow> m' a = m a) \<Longrightarrow> chain m' p as"
  by (induction as arbitrary: p) auto

lemma chain_snoc:
  assumes "chain m p as" and "distinct as" and "as \<noteq> []" and "n \<notin> set as"
    and "m (last as) = Some te" and "m n = Some ne" and "qe_next ne = None"
  shows "chain (m(last as \<mapsto> te\<lparr>qe_next := Some n\<rparr>)) p (as @ [n])"
  using assms
proof (induction as arbitrary: p)
  case (Cons a as)
  show ?case
  proof (cases "as = []")
    case True
    with Cons.prems show ?thesis by auto
  next
    case False
    with Cons.prems obtain e where e: "m a = Some e" "chain m (qe_next e) as" by auto
    have "chain (m(last as \<mapsto> te\<lparr>qe_next := Some n\<rparr>)) (qe_next e) (as @ [n])"
      using Cons.prems False by (intro Cons.IH [OF e(2)]) auto
    moreover have "last as \<noteq> a" using Cons.prems(2) False last_in_set by force
    ultimately show ?thesis using Cons.prems e False by (auto simp: fun_upd_def)
  qed
qed simp

lemma heap_push_rep:
  assumes "heap_cells h q as"
  shows "(\<exists>h' q'. queue_push h (Some q) d = Some (Some d, h', Some q') \<and> heap_cells h' q' (as @ [mem_n h]) \<and>
      map (cell_data (cells h')) (as @ [mem_n h]) = map (cell_data (cells h)) as @ [d] \<and>
      mem_ok h (mem_n h) \<and> mem_n h' = Suc (mem_n h) \<and> mem_ok h' = mem_ok h) \<or>
    (\<exists>h'. queue_push h (Some q) d = Some (None, h', Some q) \<and> h' = h\<lparr>mem_n := Suc (mem_n h)\<rparr> \<and>
      \<not> mem_ok h (mem_n h))"
proof (cases "mem_ok h (mem_n h)")
  case False
  then show ?thesis by (simp add: queue_push_def memory_alloc_def)
next
  case True
  let ?n = "mem_n h" and ?m = "(cells h)(mem_n h \<mapsto> \<lparr>qe_next = None, qe_data = d\<rparr>)"
  from assms have fresh: "?n \<notin> set as" and dist: "distinct as"
    and ch: "chain (cells h) (qh_head q) as"
    by (auto simp: heap_cells_def)
  show ?thesis
  proof (cases "as = []")
    case as: True
    with assms True show ?thesis
      by (simp add: queue_push_def memory_alloc_def heap_cells_def cell_data_def)
  next
    case as: False
    then have l: "last as \<in> set as" by simp
    with chain_mapped [OF ch] obtain te where te: "cells h (last as) = Some te" by blast
    from l fresh have ne: "last as \<noteq> ?n" by metis
    have ch': "chain ?m (qh_head q) as"
      by (rule chain_frame [OF ch]) (use fresh in auto)
    from as ch obtain a where hd: "qh_head q = Some a" by (cases as) auto
    have "chain (?m(last as \<mapsto> te\<lparr>qe_next := Some ?n\<rparr>)) (qh_head q) (as @ [?n])"
      by (rule chain_snoc [OF ch' dist as fresh]) (use te ne in auto)
    then show ?thesis
      using assms True as te ne hd fresh
      by (auto simp: queue_push_def memory_alloc_def heap_cells_def cell_data_def less_Suc_eq)
  qed
qed

lemma heap_pop_rep:
  assumes "heap_cells h q as"
  shows "case as of
      [] \<Rightarrow> queue_pop h (Some q) = Some (None, h, Some q)
    | a # as' \<Rightarrow> \<exists>h' q'. queue_pop h (Some q) = Some (Some (cell_data (cells h) a), h', Some q') \<and>
        heap_cells h' q' as' \<and> map (cell_data (cells h')) as' = map (cell_data (cells h)) as' \<and>
        mem_n h' = mem_n h \<and> mem_ok h' = mem_ok h"
proof (cases as)
  case Nil
  with assms show ?thesis by (simp add: queue_pop_def heap_cells_def)
next
  case (Cons a as')
  with assms obtain e where e: "cells h a = Some e" "chain (cells h) (qe_next e) as'"
    and a: "a \<notin> set as'" and hd: "qh_head q = Some a"
    by (auto simp: heap_cells_def)
  have ch: "chain ((cells h)(a := None)) (qe_next e) as'"
    by (rule chain_frame [OF e(2)]) (use a in auto)
  have "qe_next e = None \<longleftrightarrow> as' = []" using e(2) by (cases as') auto
  then show ?thesis
    using assms Cons e a hd ch
    by (auto simp: queue_pop_def heap_cells_def memory_free_def cell_data_def)
qed

lemma heap_repI [intro]:
  "heap_cells h q as \<Longrightarrow> xs = map (cell_data (cells h)) as \<Longrightarrow> heap_rep (h, Some q) xs"
  by (auto simp: heap_rep_def)

lemma heap_repE [elim]:
  assumes "heap_rep hq xs"
  obtains h q as where "hq = (h, Some q)" "heap_cells h q as" "xs = map (cell_data (cells h)) as"
  using assms by (cases hq) (auto simp: heap_rep_def)

lemma heap_cells_count: "heap_cells h q as \<Longrightarrow> heap_cells (h\<lparr>mem_n := Suc (mem_n h)\<rparr>) q as"
  by (auto simp: heap_cells_def less_Suc_eq)

interpretation hq: fifo heap_rep "\<lambda>(h, q). queue_push h q" "\<lambda>(h, q). queue_pop h q"
proof
  fix hq :: "'d queue_heap \<times> queue_head option" and xs and d :: 'd
  assume "heap_rep hq xs"
  then obtain h q as where hq: "hq = (h, Some q)" "heap_cells h q as" "xs = map (cell_data (cells h)) as"
    by blast
  from heap_push_rep [OF hq(2), of d]
  show "(\<exists>q'. (case hq of (h, q) \<Rightarrow> queue_push h q) d = Some (Some d, q') \<and> heap_rep q' (xs @ [d])) \<or>
      (\<exists>q'. (case hq of (h, q) \<Rightarrow> queue_push h q) d = Some (None, q') \<and> heap_rep q' xs)"
  proof
    assume "\<exists>h' q'. queue_push h (Some q) d = Some (Some d, h', Some q') \<and> heap_cells h' q' (as @ [mem_n h]) \<and>
      map (cell_data (cells h')) (as @ [mem_n h]) = map (cell_data (cells h)) as @ [d] \<and>
      mem_ok h (mem_n h) \<and> mem_n h' = Suc (mem_n h) \<and> mem_ok h' = mem_ok h"
    then obtain h' q' where "queue_push h (Some q) d = Some (Some d, h', Some q')"
      "heap_cells h' q' (as @ [mem_n h])"
      "map (cell_data (cells h')) (as @ [mem_n h]) = map (cell_data (cells h)) as @ [d]"
      by blast
    with hq show ?thesis by (metis heap_repI prod.case)
  next
    assume "\<exists>h'. queue_push h (Some q) d = Some (None, h', Some q) \<and> h' = h\<lparr>mem_n := Suc (mem_n h)\<rparr> \<and>
      \<not> mem_ok h (mem_n h)"
    with hq heap_cells_count [OF hq(2)] show ?thesis
      by (auto intro!: heap_repI)
  qed
next
  fix hq :: "'d queue_heap \<times> queue_head option"
  assume r: "heap_rep hq []"
  then obtain h q where hq: "hq = (h, Some q)" "heap_cells h q []" by auto
  from r heap_pop_rep [OF hq(2)] hq(1)
  show "\<exists>q'. (case hq of (h, q) \<Rightarrow> queue_pop h q) = Some (None, q') \<and> heap_rep q' []"
    by auto
next
  fix hq :: "'d queue_heap \<times> queue_head option" and x xs
  assume "heap_rep hq (x # xs)"
  then obtain h q a as where hq: "hq = (h, Some q)" "heap_cells h q (a # as)"
    and x: "x = cell_data (cells h) a" "xs = map (cell_data (cells h)) as"
    by (auto elim!: heap_repE simp: Cons_eq_map_conv)
  from heap_pop_rep [OF hq(2)] obtain h' q' where
    "queue_pop h (Some q) = Some (Some (cell_data (cells h) a), h', Some q')"
    "heap_cells h' q' as" "map (cell_data (cells h')) as = map (cell_data (cells h)) as"
    by auto
  moreover from this(2,3) x have "heap_rep (h', Some q') xs"
    by (simp add: heap_repI del: map_eq_conv)
  ultimately show "\<exists>q'. (case hq of (h, q) \<Rightarrow> queue_pop h q) = Some (Some x, q') \<and> heap_rep q' xs"
    using hq(1) x by auto
qed

section \<open>The list queue implements it too, and the two agree\<close>

definition list_rep :: "'a alloc_state_scheme \<times> 'd lqueue \<Rightarrow> 'd list \<Rightarrow> bool" where
  "list_rep sq xs \<longleftrightarrow> q_items (snd sq) = xs \<and> q_num (snd sq) = of_nat (length xs)"

lemma lqueue_push_cases:
  "lqueue_push s q d =
     (if mem_ok s (mem_n s)
      then (Some d, s\<lparr>mem_n := Suc (mem_n s)\<rparr>, q\<lparr>q_items := q_items q @ [d], q_num := q_num q + 1\<rparr>)
      else (None, s\<lparr>mem_n := Suc (mem_n s)\<rparr>, q))"
  by (simp add: lqueue_push_def memory_alloc_def)

interpretation lq: fifo list_rep "\<lambda>(s, q) d. Some (lqueue_push s q d)"
  "\<lambda>(s, q). Some (fst (lqueue_pop q), s, snd (lqueue_pop q))"
proof
  fix sq :: "'a alloc_state_scheme \<times> 'd lqueue" and xs and d :: 'd
  assume "list_rep sq xs"
  then show "(\<exists>q'. (case sq of (s, q) \<Rightarrow> \<lambda>d. Some (lqueue_push s q d)) d = Some (Some d, q') \<and> list_rep q' (xs @ [d])) \<or>
      (\<exists>q'. (case sq of (s, q) \<Rightarrow> \<lambda>d. Some (lqueue_push s q d)) d = Some (None, q') \<and> list_rep q' xs)"
    by (cases sq; cases "mem_ok (fst sq) (mem_n (fst sq))") (auto simp: list_rep_def lqueue_push_cases)
qed (auto simp: list_rep_def lqueue_pop_def)

text \<open>
  The simulation relation: the cells of the linked queue carry the items of the list queue, and
  the two allocators are at the same point of the same run.
\<close>

definition queue_sim :: "'d queue_heap \<Rightarrow> queue_head \<Rightarrow> 'a alloc_state_scheme \<Rightarrow> 'd lqueue \<Rightarrow> bool" where
  "queue_sim h q s l \<longleftrightarrow>
     (\<exists>as. heap_cells h q as \<and> map (cell_data (cells h)) as = q_items l) \<and> q_num l = qh_num q \<and>
     mem_n h = mem_n s \<and> mem_ok h = mem_ok s"

lemma queue_simD:
  "queue_sim h q s l \<Longrightarrow> heap_rep (h, Some q) (q_items l) \<and> qh_num q = of_nat (length (q_items l))"
proof -
  assume "queue_sim h q s l"
  then obtain as where as: "heap_cells h q as" "q_items l = map (cell_data (cells h)) as"
    unfolding queue_sim_def by metis
  then show ?thesis
    using heap_repI [OF as] by (simp add: heap_cells_def)
qed

lemma queue_sim_push:
  assumes "queue_sim h q s l"
  shows "\<exists>h' q'. queue_push h (Some q) d = Some (fst (lqueue_push s l d), h', Some q') \<and>
    queue_sim h' q' (fst (snd (lqueue_push s l d))) (snd (snd (lqueue_push s l d)))"
proof -
  from assms obtain as where as: "heap_cells h q as" "map (cell_data (cells h)) as = q_items l"
    and n: "q_num l = qh_num q" "mem_n h = mem_n s" "mem_ok h = mem_ok s"
    by (auto simp: queue_sim_def)
  show ?thesis
  proof (cases "mem_ok s (mem_n s)")
    case True
    with heap_push_rep [OF as(1), of d] n obtain h' q' where
      "queue_push h (Some q) d = Some (Some d, h', Some q')" "heap_cells h' q' (as @ [mem_n h])"
      "map (cell_data (cells h')) (as @ [mem_n h]) = map (cell_data (cells h)) as @ [d]"
      "mem_n h' = Suc (mem_n h)" "mem_ok h' = mem_ok h"
      by auto
    moreover from this(2) as(1) have "qh_num q' = qh_num q + 1"
      by (simp add: heap_cells_def)
    ultimately show ?thesis
      using True as n by (auto simp: queue_sim_def lqueue_push_cases)
  next
    case False
    with heap_push_rep [OF as(1), of d] n have
      "queue_push h (Some q) d = Some (None, h\<lparr>mem_n := Suc (mem_n h)\<rparr>, Some q)"
      by auto
    with False as n heap_cells_count [OF as(1)] show ?thesis
      by (auto simp: queue_sim_def lqueue_push_cases)
  qed
qed

lemma queue_sim_pop:
  assumes "queue_sim h q s l"
  shows "\<exists>h' q'. queue_pop h (Some q) = Some (fst (lqueue_pop l), h', Some q') \<and>
    queue_sim h' q' s (snd (lqueue_pop l))"
proof -
  from assms obtain as where as: "heap_cells h q as" "map (cell_data (cells h)) as = q_items l"
    and n: "q_num l = qh_num q" "mem_n h = mem_n s" "mem_ok h = mem_ok s"
    by (auto simp: queue_sim_def)
  show ?thesis
  proof (cases as)
    case Nil
    with heap_pop_rep [OF as(1)] as n show ?thesis
      by (auto simp: lqueue_pop_def queue_sim_def)
  next
    case (Cons a as')
    with heap_pop_rep [OF as(1)] obtain h' q' where
      p: "queue_pop h (Some q) = Some (Some (cell_data (cells h) a), h', Some q')"
      "heap_cells h' q' as'" "map (cell_data (cells h')) as' = map (cell_data (cells h)) as'"
      "mem_n h' = mem_n h" "mem_ok h' = mem_ok h"
      by auto
    have "qh_num q' = qh_num q - 1"
      using p(2) as(1) Cons by (simp add: heap_cells_def)
    with p Cons as(2) [symmetric] n show ?thesis
      by (auto simp: lqueue_pop_def queue_sim_def)
  qed
qed

lemma queue_sim_run:
  assumes "queue_sim h q s l"
  shows "\<exists>h' q'. run_heap h q cs = Some (fst (run_list s l cs), h', q') \<and>
    queue_sim h' q' (fst (snd (run_list s l cs))) (snd (snd (run_list s l cs)))"
  using assms
proof (induction cs arbitrary: h q s l)
  case (Cons c cs)
  show ?case
  proof (cases c)
    case (Push d)
    from queue_sim_push [OF Cons.prems, of d] obtain h' q' where
      p: "queue_push h (Some q) d = Some (fst (lqueue_push s l d), h', Some q')"
      "queue_sim h' q' (fst (snd (lqueue_push s l d))) (snd (snd (lqueue_push s l d)))"
      by blast
    from Cons.IH [OF p(2)] p(1) Push show ?thesis
      by (auto simp: split_def Let_def)
  next
    case Pop
    from queue_sim_pop [OF Cons.prems] obtain h' q' where
      p: "queue_pop h (Some q) = Some (fst (lqueue_pop l), h', Some q')"
      "queue_sim h' q' s (snd (lqueue_pop l))"
      by blast
    from Cons.IH [OF p(2)] p(1) Pop show ?thesis
      by (auto simp: split_def Let_def)
  qed
qed simp

lemma queue_walk_chain:
  "chain m p as \<Longrightarrow> queue_walk func m p s = Some (fold (\<lambda>a s. func s (cell_data m a)) as s)"
proof (induction as arbitrary: p s)
  case Nil
  then show ?case by (simp add: queue_walk.simps)
next
  case (Cons a as)
  then show ?case by (subst queue_walk.simps) (auto simp: cell_data_def)
qed

section \<open>Properties\<close>

text \<open>
  C13. The linked queue implements the abstract one: starting from \<^verbatim>\<open>queue_init\<close>, every sequence of
  pushes and pops runs on the pointer structure without a dangling access or double free, returns
  the same results as on a list (whichever allocations fail), and leaves the counter equal to the
  number of queued elements modulo \<open>2 ^ 32\<close>.
\<close>

theorem queue_refines_list:
  assumes "mem_n h = mem_n s" and "mem_ok h = mem_ok s"
  shows "\<exists>h' q'. run_heap h queue_init cs = Some (fst (run_list s lqueue_init cs), h', q') \<and>
    heap_rep (h', Some q') (q_items (snd (snd (run_list s lqueue_init cs)))) \<and>
    qh_num q' = of_nat (length (q_items (snd (snd (run_list s lqueue_init cs)))))"
proof -
  have "queue_sim h queue_init s lqueue_init"
    using assms by (auto simp: queue_sim_def queue_init_def lqueue_init_def heap_cells_def)
  from queue_sim_run [OF this, of cs] show ?thesis
    using queue_simD by blast
qed

definition heap0 :: "nat queue_heap" where
  "heap0 = \<lparr>mem_ok = (\<lambda>n. n \<noteq> 1), mem_n = 0, cells = (\<lambda>_. None)\<rparr>"

theorem queue_refines_list_witness:
  "map_option fst (run_heap heap0 queue_init [Push 10, Push 20, Push 30, Pop, Pop, Pop]) =
     Some [Some 10, None, Some 30, Some 10, Some 30, None]"
proof -
  have "fst (run_list heap0 lqueue_init [Push 10, Push 20, Push 30, Pop, Pop, Pop]) =
      [Some 10, None, Some 30, Some 10, Some 30, None]"
    by (simp add: lqueue_push_cases lqueue_pop_def lqueue_init_def heap0_def)
  then show ?thesis
    using queue_refines_list [of heap0 heap0 "[Push 10, Push 20, Push 30, Pop, Pop, Pop]"] by auto
qed

text \<open>
  First in, first out on the pointer structure: after pushing \<open>ds\<close> onto a well-formed queue
  that holds \<open>xs\<close>, the drain loop \<^verbatim>\<open>while ((e = queue_pop(q)) != NULL)\<close> ends, yields exactly
  \<open>xs @ ds\<close> in that order, and leaves the queue empty.
\<close>

theorem queue_fifo_order:
  assumes "heap_rep (h, Some q) xs" and "hq.pushes (h, Some q) ds = Some hq'"
    and "length xs + length ds < n"
  shows "\<exists>hq''. hq.drain n hq' = Some (xs @ ds, hq'') \<and> heap_rep hq'' []"
  using assms by (rule hq.fifo_order)

theorem queue_fifo_order_witness:
  "\<exists>hq' hq''. hq.pushes (heap0\<lparr>mem_ok := (\<lambda>_. True)\<rparr>, Some queue_init) [1, 2, 3] = Some hq' \<and>
     hq.drain 4 hq' = Some ([1, 2, 3], hq'')"
proof -
  have "heap_rep (heap0\<lparr>mem_ok := (\<lambda>_. True)\<rparr>, Some queue_init) []"
    by (rule heap_repI [where as = "[]"]) (auto simp: heap_cells_def queue_init_def)
  moreover obtain hq' where "hq.pushes (heap0\<lparr>mem_ok := (\<lambda>_. True)\<rparr>, Some queue_init) [1, 2, 3] = Some hq'"
    by (simp add: queue_push_def memory_alloc_def heap0_def queue_init_def)
  ultimately show ?thesis
    using queue_fifo_order [of "heap0\<lparr>mem_ok := (\<lambda>_. True)\<rparr>" queue_init "[]" "[1, 2, 3]" hq' 4]
    by auto
qed

text \<open>
  \<^verbatim>\<open>queue_foreach\<close> on a well-formed queue ends and applies the callback to every element once,
  oldest first; \<^verbatim>\<open>queue_peek\<close> returns the oldest without removing it.
\<close>

theorem queue_foreach_visits_all:
  assumes "heap_rep (h, Some q) xs"
  shows "queue_foreach h (Some q) (Some func) s = Some (foldl func s xs) \<and>
    queue_peek h (Some q) = Some (case xs of [] \<Rightarrow> None | x # _ \<Rightarrow> Some x)"
proof -
  from assms obtain as where as: "heap_cells h q as" "xs = map (cell_data (cells h)) as"
    by (auto simp: heap_rep_def)
  then have "chain (cells h) (qh_head q) as" by (simp add: heap_cells_def)
  with queue_walk_chain [OF this, of func s] as(2) show ?thesis
    by (cases as) (auto simp: queue_foreach_def queue_peek_def foldl_conv_fold fold_map comp_def cell_data_def)
qed

theorem queue_foreach_visits_all_witness:
  "\<exists>h q. heap_rep (h, Some q) [5 :: nat, 6] \<and>
     queue_foreach h (Some q) (Some (\<lambda>s d. s @ [d])) [] = Some [5, 6] \<and> queue_peek h (Some q) = Some (Some 5)"
proof -
  let ?h = "\<lparr>mem_ok = (\<lambda>_. True), mem_n = 2,
    cells = [0 \<mapsto> \<lparr>qe_next = Some 1, qe_data = 5 :: nat\<rparr>, 1 \<mapsto> \<lparr>qe_next = None, qe_data = 6\<rparr>]\<rparr>"
  let ?q = "\<lparr>qh_head = Some 0, qh_tail = Some 1, qh_num = 2\<rparr>"
  have "heap_rep (?h, Some ?q) [5, 6]"
    by (rule heap_repI [where as = "[0, 1]"]) (auto simp: heap_cells_def cell_data_def)
  with queue_foreach_visits_all [OF this, of "\<lambda>s d. s @ [d]" "[]"] show ?thesis
    by auto
qed

end
