(* ===== verification/Timeval.thy ===== *)
theory Timeval
  imports Stack_Prelude
begin

text \<open>
  \<^verbatim>\<open>struct timeval\<close> and the macros the stack uses on it: \<^verbatim>\<open>timercmp\<close>, \<^verbatim>\<open>timersub\<close>,
  \<^verbatim>\<open>timerclear\<close> of \<^verbatim>\<open>sys/time.h\<close> and \<^verbatim>\<open>timeval_add_usec\<close> and \<^verbatim>\<open>timespec_add_nsec\<close> of
  \<^verbatim>\<open>src/include/util.h\<close>. The order
  that \<^verbatim>\<open>timercmp\<close> decides is made an instance of \<open>linorder\<close>, so that the lemmas on least
  elements apply to time stamps.
\<close>

section \<open>Definitions\<close>

datatype timeval = Timeval (tv_sec: int) (tv_usec: int)

definition timercmp :: "(int \<Rightarrow> int \<Rightarrow> bool) \<Rightarrow> timeval \<Rightarrow> timeval \<Rightarrow> bool" where
  "timercmp cmp a b =
     (if tv_sec a = tv_sec b then cmp (tv_usec a) (tv_usec b) else cmp (tv_sec a) (tv_sec b))"

definition timersub :: "timeval \<Rightarrow> timeval \<Rightarrow> timeval" where
  "timersub a b =
     (let sec = tv_sec a - tv_sec b; usec = tv_usec a - tv_usec b
      in if usec < 0 then Timeval (sec - 1) (usec + 1000000) else Timeval sec usec)"

definition timerclear :: timeval where
  "timerclear = Timeval 0 0"

text \<open>C division and remainder truncate; for the non-negative \<open>y\<close> of the macro they are \<open>div\<close> and \<open>mod\<close>.\<close>

definition timeval_add_usec :: "timeval \<Rightarrow> nat \<Rightarrow> timeval" where
  "timeval_add_usec x y =
     (let sec = tv_sec x + int (y div 1000000); usec = tv_usec x + int (y mod 1000000)
      in if usec \<ge> 1000000 then Timeval (sec + 1) (usec - 1000000) else Timeval sec usec)"

definition timeval_norm :: "timeval \<Rightarrow> bool" where
  "timeval_norm t \<longleftrightarrow> 0 \<le> tv_usec t \<and> tv_usec t < 1000000"

datatype timespec = Timespec (ts_sec: int) (ts_nsec: int)

definition timespec_add_nsec :: "timespec \<Rightarrow> nat \<Rightarrow> timespec" where
  "timespec_add_nsec x y =
     (let sec = ts_sec x + int (y div 1000000000); nsec = ts_nsec x + int (y mod 1000000000)
      in if nsec \<ge> 1000000000 then Timespec (sec + 1) (nsec - 1000000000) else Timespec sec nsec)"

text \<open>The instant as a number of microseconds.\<close>

definition micros :: "timeval \<Rightarrow> int" where
  "micros t = 1000000 * tv_sec t + tv_usec t"

instantiation timeval :: linorder
begin

definition less_timeval :: "timeval \<Rightarrow> timeval \<Rightarrow> bool" where
  "less_timeval a b \<longleftrightarrow> timercmp (<) a b"

definition less_eq_timeval :: "timeval \<Rightarrow> timeval \<Rightarrow> bool" where
  "less_eq_timeval a b \<longleftrightarrow> timercmp (\<le>) a b"

instance
  by standard
    (auto simp: less_timeval_def less_eq_timeval_def timercmp_def timeval.expand split: if_splits)

end

section \<open>Lemmas\<close>

lemma timercmp_less [simp]: "timercmp (<) a b \<longleftrightarrow> a < b" and timercmp_greater [simp]: "timercmp (>) a b \<longleftrightarrow> b < a"
  by (auto simp: less_timeval_def timercmp_def)

lemma micros_timersub: "micros (timersub a b) = micros a - micros b"
  by (simp add: micros_def timersub_def Let_def)

lemma timersub_norm: "timeval_norm a \<Longrightarrow> timeval_norm b \<Longrightarrow> timeval_norm (timersub a b)"
  by (auto simp: timeval_norm_def timersub_def Let_def)

lemma less_timeval_micros:
  assumes "timeval_norm a" and "timeval_norm b"
  shows "a < b \<longleftrightarrow> micros a < micros b"
proof (cases "tv_sec a" "tv_sec b" rule: linorder_cases)
  case less
  then have "1000000 * tv_sec a + 1000000 \<le> 1000000 * tv_sec b" by simp
  with less assms show ?thesis
    unfolding less_timeval_def timercmp_def micros_def timeval_norm_def by simp
next
  case equal
  then show ?thesis by (simp add: less_timeval_def timercmp_def micros_def)
next
  case greater
  then have "1000000 * tv_sec b + 1000000 \<le> 1000000 * tv_sec a" by simp
  with greater assms show ?thesis
    unfolding less_timeval_def timercmp_def micros_def timeval_norm_def by simp
qed

lemma split_units: "int y = m * int (y div nat m) + int (y mod nat m)" if "0 \<le> m"
proof -
  have "int y = int (nat m * (y div nat m) + y mod nat m)" by simp
  also have "\<dots> = m * int (y div nat m) + int (y mod nat m)" using that by (simp only: of_nat_add of_nat_mult nat_0_le)
  finally show ?thesis .
qed

lemma timespec_add_nsec_nanos:
  assumes "0 \<le> ts_nsec x" "ts_nsec x < 1000000000"
  shows "1000000000 * ts_sec (timespec_add_nsec x y) + ts_nsec (timespec_add_nsec x y) = 1000000000 * ts_sec x + ts_nsec x + int y \<and>
    0 \<le> ts_nsec (timespec_add_nsec x y) \<and> ts_nsec (timespec_add_nsec x y) < 1000000000"
proof -
  have "int (y mod 1000000000) < 1000000000" by simp
  with split_units [of 1000000000 y] assms show ?thesis unfolding timespec_add_nsec_def Let_def by auto
qed

lemma timeval_add_usec_micros:
  "timeval_norm x \<Longrightarrow> micros (timeval_add_usec x y) = micros x + int y \<and> timeval_norm (timeval_add_usec x y)"
proof -
  assume n: "timeval_norm x"
  have "int y = 1000000 * int (y div 1000000) + int (y mod 1000000)"
    using split_units [of 1000000 y] by simp
  moreover have "int (y mod 1000000) < 1000000" by simp
  ultimately show ?thesis
    using n unfolding timeval_norm_def timeval_add_usec_def micros_def Let_def by auto
qed

end
