(* ===== verification/Util_Checksum.thy ===== *)
theory Util_Checksum
  imports Stack_Prelude
begin

text \<open>
  The numeric half of \<^verbatim>\<open>src/lib/util.c\<close>: the byte-order functions with their lazily
  initialised static \<^verbatim>\<open>endian\<close>, and the Internet checksum \<^verbatim>\<open>cksum16\<close> with its two loops,
  on 32-bit arithmetic that wraps. Both are written for either host byte order; the names without
  the suffix \<open>_on\<close> are the little-endian instances the rest of the stack uses.

  Lemmas: the fold loop computes the representative of the sum modulo \<open>65535\<close>, the word loop
  computes a plain sum as long as the 32-bit accumulator does not wrap, and from these the
  contract of a checksummed message, stated as a locale.
\<close>

section \<open>Definitions\<close>

subsection \<open>Byte order\<close>

definition LITTLE_ENDIAN :: int where "LITTLE_ENDIAN = 1234"
definition BIG_ENDIAN :: int where "BIG_ENDIAN = 4321"

definition byteorder :: "endianness \<Rightarrow> int" where
  "byteorder e = (if store32_on e 1 ! 0 \<noteq> 0 then LITTLE_ENDIAN else BIG_ENDIAN)"

definition byteswap16 :: "u16 \<Rightarrow> u16" where
  "byteswap16 v = push_bit 8 (v AND 0x00ff) OR drop_bit 8 (v AND 0xff00)"

definition byteswap32 :: "u32 \<Rightarrow> u32" where
  "byteswap32 v =
     push_bit 24 (v AND 0x000000ff) OR push_bit 8 (v AND 0x0000ff00) OR
     drop_bit 8 (v AND 0x00ff0000) OR drop_bit 24 (v AND 0xff000000)"

text \<open>Each conversion returns the new value of the static variable and the result.\<close>

definition hton16_on :: "endianness \<Rightarrow> int \<Rightarrow> u16 \<Rightarrow> int \<times> u16" where
  "hton16_on e endian h =
     (let endian' = (if endian = 0 then byteorder e else endian)
      in (endian', if endian' = LITTLE_ENDIAN then byteswap16 h else h))"

definition ntoh16_on :: "endianness \<Rightarrow> int \<Rightarrow> u16 \<Rightarrow> int \<times> u16" where
  "ntoh16_on e endian n =
     (let endian' = (if endian = 0 then byteorder e else endian)
      in (endian', if endian' = LITTLE_ENDIAN then byteswap16 n else n))"

definition hton32_on :: "endianness \<Rightarrow> int \<Rightarrow> u32 \<Rightarrow> int \<times> u32" where
  "hton32_on e endian h =
     (let endian' = (if endian = 0 then byteorder e else endian)
      in (endian', if endian' = LITTLE_ENDIAN then byteswap32 h else h))"

definition ntoh32_on :: "endianness \<Rightarrow> int \<Rightarrow> u32 \<Rightarrow> int \<times> u32" where
  "ntoh32_on e endian n =
     (let endian' = (if endian = 0 then byteorder e else endian)
      in (endian', if endian' = LITTLE_ENDIAN then byteswap32 n else n))"

text \<open>The values \<^verbatim>\<open>endian\<close> can have during a run: unset, or what \<^verbatim>\<open>byteorder\<close> found.\<close>

definition endian_ok :: "endianness \<Rightarrow> int \<Rightarrow> bool" where
  "endian_ok e endian \<longleftrightarrow> endian = 0 \<or> endian = byteorder e"

definition hton16 :: "u16 \<Rightarrow> u16" where "hton16 h = snd (hton16_on LittleEndian 0 h)"
definition ntoh16 :: "u16 \<Rightarrow> u16" where "ntoh16 n = snd (ntoh16_on LittleEndian 0 n)"
definition hton32 :: "u32 \<Rightarrow> u32" where "hton32 h = snd (hton32_on LittleEndian 0 h)"
definition ntoh32 :: "u32 \<Rightarrow> u32" where "ntoh32 n = snd (ntoh32_on LittleEndian 0 n)"

subsection \<open>The Internet checksum\<close>

text \<open>
  First loop of \<^verbatim>\<open>cksum16\<close>: \<open>addr\<close> is what remains of the buffer, \<open>count\<close> the 16-bit
  counter; reading past the end of the buffer is undefined behaviour.
\<close>

function cksum16_sum :: "endianness \<Rightarrow> bytes \<Rightarrow> nat \<Rightarrow> u32 \<Rightarrow> u32 option" where
  "cksum16_sum e addr count sm =
     (if count > 1 then
        (case addr of
           b0 # b1 # addr' \<Rightarrow> cksum16_sum e addr' (count - 2) (sm + ucast (load16_on e b0 b1))
         | _ \<Rightarrow> None)
      else if count > 0 then
        (case addr of b # _ \<Rightarrow> Some (sm + ucast b) | [] \<Rightarrow> None)
      else Some sm)"
  by pat_completeness auto
termination
  by (relation "measure (\<lambda>(e, addr, count, sm). count)") auto

text \<open>Second loop: fold the carries back in until the sm fits 16 bits.\<close>

lemma unat_and_ffff: "unat (s AND 0xffff) = unat s mod 65536" for s :: u32
proof -
  have "s AND 0xffff = take_bit 16 s"
    by (simp add: take_bit_eq_mask mask_numeral)
  then show ?thesis by (simp add: take_bit_eq_mod unat_mod)
qed

lemma unat_drop_16: "unat (drop_bit 16 s) = unat s div 65536" for s :: u32
  by (simp add: drop_bit_eq_div unat_div)

lemma unat_fold_step:
  "unat ((s AND 0xffff) + drop_bit 16 s) = unat s mod 65536 + unat s div 65536" for s :: u32
proof -
  have "unat s < 4294967296"
    using unsigned_less [of s] by simp
  then have "unat s div 65536 < 65536" by simp
  then show ?thesis
    by (simp add: unat_word_ariths unat_and_ffff unat_drop_16)
qed

function cksum16_fold :: "u32 \<Rightarrow> u32" where
  "cksum16_fold sm =
     (if drop_bit 16 sm \<noteq> 0 then cksum16_fold ((sm AND 0xffff) + drop_bit 16 sm) else sm)"
  by pat_completeness auto
termination
proof (relation "measure unat")
  fix sm :: u32
  assume "drop_bit 16 sm \<noteq> 0"
  then have "0 < unat sm div 65536"
    by (metis unat_drop_16 unat_gt_0)
  then have "unat sm mod 65536 + unat sm div 65536 < unat sm"
    using div_mult_mod_eq [of "unat sm" 65536] by linarith
  then show "((sm AND 0xffff) + drop_bit 16 sm, sm) \<in> measure unat"
    by (simp add: unat_fold_step)
qed simp

declare cksum16_sum.simps [simp del] cksum16_fold.simps [simp del]

definition cksum16_on :: "endianness \<Rightarrow> bytes \<Rightarrow> u16 \<Rightarrow> u32 \<Rightarrow> u16 option" where
  "cksum16_on e addr count init = do {
     sm \<leftarrow> cksum16_sum e addr (unat count) init;
     Some (NOT (ucast (cksum16_fold sm)))
   }"

abbreviation cksum16 :: "bytes \<Rightarrow> u16 \<Rightarrow> u32 \<Rightarrow> u16 option" where
  "cksum16 \<equiv> cksum16_on LittleEndian"

text \<open>The ICMP echo packet of \<^verbatim>\<open>params.h\<close>, used as a test vector.\<close>

definition test_data :: bytes where
  "test_data =
    [0x45, 0x00, 0x00, 0x30, 0x00, 0x80, 0x00, 0x00, 0xff, 0x01, 0xbd, 0x4a,
     0x7f, 0x00, 0x00, 0x01, 0x7f, 0x00, 0x00, 0x01, 0x08, 0x00, 0x35, 0x64,
     0x00, 0x80, 0x00, 0x01, 0x31, 0x32, 0x33, 0x34, 0x35, 0x36, 0x37, 0x38,
     0x39, 0x30, 0x21, 0x40, 0x23, 0x24, 0x25, 0x5e, 0x26, 0x2a, 0x28, 0x29]"

section \<open>Byte order: lemmas\<close>

lemma byteorder_simps [simp]:
  "byteorder LittleEndian = LITTLE_ENDIAN" "byteorder BigEndian = BIG_ENDIAN"
  by (simp_all add: byteorder_def)

lemma endian_constants [simp]:
  "LITTLE_ENDIAN \<noteq> 0" "BIG_ENDIAN \<noteq> 0" "BIG_ENDIAN \<noteq> LITTLE_ENDIAN" "LITTLE_ENDIAN \<noteq> BIG_ENDIAN"
  by (simp_all add: LITTLE_ENDIAN_def BIG_ENDIAN_def)

lemma byte_masks:
  "(255 :: 'a :: len word) = mask 8" "(65280 :: 'a word) = push_bit 8 (mask 8)"
  "(16711680 :: 'a word) = push_bit 16 (mask 8)" "(4278190080 :: 'a word) = push_bit 24 (mask 8)"
  by (simp_all add: mask_numeral push_bit_eq_mult)

lemma byteswap16_bytes: "byteswap16 (load16 b0 b1) = load16_on BigEndian b0 b1"
  unfolding byteswap16_def byte_masks
  by (rule bit_word_eqI) (auto simp: bit_simps load_defs u8_no_high_bit)

lemma byteswap16_byteswap16 [simp]: "byteswap16 (byteswap16 v) = v"
  unfolding byteswap16_def byte_masks
  by (rule bit_word_eqI) (auto simp: bit_simps)

lemma bit_byteswap32:
  "bit (byteswap32 v) n =
    (if n < 8 then bit v (24 + n) else if n < 16 then bit v (8 + n)
     else if n < 24 then bit v (n - 8) else n < 32 \<and> bit v (n - 24))"
  unfolding byteswap32_def byte_masks
  by (auto simp: bit_simps)

lemma byteswap32_byteswap32 [simp]: "byteswap32 (byteswap32 v) = v"
  by (rule bit_word_eqI) (auto simp: bit_byteswap32)

lemma store16_byteswap16: "store16 (byteswap16 v) = store16_on BigEndian v"
  unfolding byteswap16_def byte_masks
  by (auto intro!: bit_word_eqI simp: bit_simps)

lemma store32_byteswap32: "store32 (byteswap32 v) = store32_on BigEndian v"
  by (auto intro!: bit_word_eqI simp: bit_simps bit_byteswap32)

lemma hton16_eq: "hton16 = byteswap16" and ntoh16_eq: "ntoh16 = byteswap16"
  and hton32_eq: "hton32 = byteswap32" and ntoh32_eq: "ntoh32 = byteswap32"
  by (auto simp: fun_eq_iff hton16_def ntoh16_def hton32_def ntoh32_def hton16_on_def ntoh16_on_def
      hton32_on_def ntoh32_on_def)

lemma ntoh16_hton16 [simp]: "ntoh16 (hton16 v) = v" and ntoh32_hton32 [simp]: "ntoh32 (hton32 w) = w"
  by (simp_all add: hton16_eq ntoh16_eq hton32_eq ntoh32_eq)

lemma hton16_ntoh16 [simp]: "hton16 (ntoh16 v) = v" and hton32_ntoh32 [simp]: "hton32 (ntoh32 w) = w"
  by (simp_all add: hton16_eq ntoh16_eq hton32_eq ntoh32_eq)

lemma hton16_inj [simp]: "hton16 v = hton16 w \<longleftrightarrow> v = w"
  by (metis ntoh16_hton16)

section \<open>The checksum: lemmas\<close>

subsection \<open>What the loops compute\<close>

text \<open>The sum of a buffer as 16-bit words in host order, an odd last byte counted as it is.\<close>

fun sum16_on :: "endianness \<Rightarrow> bytes \<Rightarrow> nat" where
  "sum16_on e (b0 # b1 # bs) = unat (load16_on e b0 b1) + sum16_on e bs"
| "sum16_on e [b] = unat b"
| "sum16_on e [] = 0"

abbreviation sum16 :: "bytes \<Rightarrow> nat" where "sum16 \<equiv> sum16_on LittleEndian"

text \<open>The representative of \<open>n\<close> modulo \<open>65535\<close> in which only \<open>0\<close> is written \<open>0\<close>.\<close>

definition carry_fold :: "nat \<Rightarrow> nat" where
  "carry_fold n = (if n = 0 then 0 else (n - 1) mod 65535 + 1)"

lemma sum16_append: "even (length xs) \<Longrightarrow> sum16_on e (xs @ ys) = sum16_on e xs + sum16_on e ys"
  by (induction e xs rule: sum16_on.induct) auto

lemma unat_u8_bound: "unat (b :: u8) \<le> 255"
proof -
  have "unat b < 2 ^ LENGTH(8)" by (rule unsigned_less)
  then show ?thesis by simp
qed

lemma unat_u16_bound: "unat (w :: u16) \<le> 65535"
proof -
  have "unat w < 2 ^ LENGTH(16)" by (rule unsigned_less)
  then show ?thesis by simp
qed

lemma sum16_bound: "sum16_on e bs \<le> 65535 * ((length bs + 1) div 2)"
proof (induction e bs rule: sum16_on.induct)
  case (1 e b0 b1 bs)
  then show ?case using unat_u16_bound [of "load16_on e b0 b1"] by simp
next
  case (2 e b)
  then show ?case using unat_u8_bound [of b] by simp
qed simp

lemma cksum16_sum_eq:
  assumes "count \<le> length bs" and "unat init + sum16_on e (take count bs) < 2 ^ 32"
  shows "\<exists>w. cksum16_sum e bs count init = Some w \<and> unat w = unat init + sum16_on e (take count bs)"
  using assms
proof (induction e bs count init rule: cksum16_sum.induct)
  case (1 e addr count sm)
  consider "count = 0" | "count = 1" | "count > 1" by linarith
  then show ?case
  proof cases
    case 1
    then show ?thesis by (simp add: cksum16_sum.simps)
  next
    case 2
    with 1(2) obtain b r where a: "addr = b # r" by (cases addr) auto
    have "unat (sm + ucast b) = unat sm + unat b"
      using 1(3) 2 a unat_u8_bound [of b]
      by (simp add: unat_word_ariths unsigned_ucast_eq take_bit_eq_mod)
    with 2 a show ?thesis by (simp add: cksum16_sum.simps)
  next
    case 3
    with 1(2) obtain b0 b1 r where a: "addr = b0 # b1 # r"
      by (cases addr; cases "tl addr") auto
    from 3 have t: "take count addr = b0 # b1 # take (count - 2) r"
      by (simp add: a take_Cons' numeral_2_eq_2)
    have s: "unat (sm + ucast (load16_on e b0 b1)) = unat sm + unat (load16_on e b0 b1)"
      using 1(3) t unat_u16_bound [of "load16_on e b0 b1"]
      by (simp add: unat_word_ariths unsigned_ucast_eq take_bit_eq_mod)
    have "count - 2 \<le> length r" using 1(2) a by simp
    with 1(1) [OF 3 a] 1(3) s t 3 a show ?thesis
      by (simp add: cksum16_sum.simps [of e "b0 # b1 # r"] add.assoc)
  qed
qed

lemma cksum16_sum_None: "length bs < count \<Longrightarrow> cksum16_sum e bs count init = None"
proof (induction e bs count init rule: cksum16_sum.induct)
  case (1 e addr count sm)
  then show ?case
    by (subst cksum16_sum.simps) (auto split: list.splits)
qed

lemma mod_add_cancel: "(k + a) mod m = (k + b) mod m \<Longrightarrow> a mod m = b mod m" for a :: nat
  by (auto simp: nat_mod_eq_iff)

lemma carry_fold_0 [simp]: "carry_fold 0 = 0"
  by (simp add: carry_fold_def)

lemma carry_fold_small: "n < 65536 \<Longrightarrow> carry_fold n = n"
  by (auto simp: carry_fold_def)

lemma carry_fold_mod:
  "0 < n \<Longrightarrow> carry_fold n = (if n mod 65535 = 0 then 65535 else n mod 65535)"
  by (cases n) (auto simp: carry_fold_def mod_Suc)

lemma carry_fold_cong: "0 < m \<Longrightarrow> 0 < n \<Longrightarrow> m mod 65535 = n mod 65535 \<Longrightarrow> carry_fold m = carry_fold n"
  by (simp add: carry_fold_mod)

lemma carry_fold_le: "carry_fold n \<le> 65535"
  by (cases "n = 0") (auto simp: carry_fold_mod carry_fold_def[of 0] intro: less_imp_le)

lemma carry_fold_eq_0 [simp]: "carry_fold n = 0 \<longleftrightarrow> n = 0"
  by (simp add: carry_fold_def)

lemma carry_fold_full: "carry_fold n = 65535 \<longleftrightarrow> 0 < n \<and> n mod 65535 = 0"
  using mod_less_divisor [of 65535 n] by (cases "n = 0") (auto simp: carry_fold_mod carry_fold_def[of 0])

lemma carry_fold_add: "carry_fold (carry_fold a + b) = carry_fold (a + b)"
proof (cases "a = 0")
  case False
  then have "0 < carry_fold a" and "carry_fold a mod 65535 = a mod 65535"
    by (simp_all add: carry_fold_mod)
  with False show ?thesis
    by (intro carry_fold_cong) (auto intro: mod_add_cong)
qed (simp add: carry_fold_def[of 0])

lemma unat_cksum16_fold: "unat (cksum16_fold s) = carry_fold (unat s)"
proof (induction s rule: cksum16_fold.induct)
  case (1 s)
  show ?case
  proof (cases "drop_bit 16 s = 0")
    case True
    then have "unat s < 65536"
      by (metis div_eq_0_iff unat_drop_16 unat_0 zero_neq_numeral)
    with True show ?thesis
      by (subst cksum16_fold.simps) (simp add: carry_fold_small)
  next
    case False
    then have "0 < unat s div 65536"
      by (metis unat_drop_16 unat_gt_0)
    moreover have "unat s = (unat s mod 65536 + unat s div 65536) + 65535 * (unat s div 65536)"
      using div_mult_mod_eq [of "unat s" 65536] by linarith
    then have "unat s mod 65535 = (unat s mod 65536 + unat s div 65536) mod 65535"
      by (metis mod_mult_self2)
    ultimately have "carry_fold (unat s mod 65536 + unat s div 65536) = carry_fold (unat s)"
      by (intro carry_fold_cong) auto
    with 1 [OF False] False show ?thesis
      by (subst cksum16_fold.simps) (simp add: unat_fold_step)
  qed
qed

lemma unat_not_u16: "unat (NOT w) = 65535 - unat w" for w :: u16
proof -
  have "NOT w = - 1 - w" by (simp add: not_eq_complement)
  moreover have "unat (- 1 - w) = unat (- 1 :: u16) - unat w"
    by (rule unat_sub) simp
  ultimately show ?thesis by (simp add: unsigned_minus_1_eq_mask mask_eq_exp_minus_1)
qed

text \<open>
  The value of \<^verbatim>\<open>cksum16\<close> for every count and every seed the callers use.
\<close>

lemma cksum16_value:
  assumes "unat count \<le> length addr" and "unat init \<le> 65535"
  shows "\<exists>c. cksum16_on e addr count init = Some c \<and>
    unat c = 65535 - carry_fold (unat init + sum16_on e (take (unat count) addr))"
proof -
  have "sum16_on e (take (unat count) addr) \<le> 65535 * 32768"
    using sum16_bound [of e "take (unat count) addr"] unat_u16_bound [of count] assms(1)
    by (auto intro: order_trans)
  with assms obtain w where w: "cksum16_sum e addr (unat count) init = Some w"
    "unat w = unat init + sum16_on e (take (unat count) addr)"
    using cksum16_sum_eq [of "unat count" addr init e] by auto
  moreover have "unat (ucast (cksum16_fold w) :: u16) = carry_fold (unat w)"
    using carry_fold_le [of "unat w"]
    by (simp add: unsigned_ucast_eq take_bit_eq_mod unat_cksum16_fold)
  ultimately show ?thesis
    by (simp add: cksum16_on_def unat_not_u16)
qed

lemma cksum16_overrun: "length addr < unat count \<Longrightarrow> cksum16_on e addr count init = None"
  by (simp add: cksum16_on_def cksum16_sum_None)

lemma cksum16_defined_iff:
  "unat init \<le> 65535 \<Longrightarrow> cksum16_on e addr count init = None \<longleftrightarrow> length addr < unat count"
  using cksum16_value [of count addr init e] cksum16_overrun [of addr count e init]
  by (cases "length addr < unat count") auto

text \<open>When a receiver accepts: the sum is a positive multiple of \<open>65535\<close>.\<close>

lemma cksum16_zero_iff:
  assumes "unat count \<le> length addr" and "unat init \<le> 65535"
  shows "cksum16_on e addr count init = Some 0 \<longleftrightarrow>
    carry_fold (unat init + sum16_on e (take (unat count) addr)) = 65535"
proof -
  from cksum16_value [OF assms, of e] obtain c where c: "cksum16_on e addr count init = Some c"
    "unat c = 65535 - carry_fold (unat init + sum16_on e (take (unat count) addr))"
    by blast
  then have "c = 0 \<longleftrightarrow> 65535 - carry_fold (unat init + sum16_on e (take (unat count) addr)) = 0"
    by (metis unat_eq_zero)
  with c(1) show ?thesis
    using carry_fold_le [of "unat init + sum16_on e (take (unat count) addr)"] by auto
qed

lemma carry_fold_complement: "carry_fold (S + (65535 - carry_fold S)) = 65535"
proof -
  have "carry_fold (carry_fold S + (65535 - carry_fold S)) = carry_fold 65535"
    using carry_fold_le [of S] by simp
  then show ?thesis
    by (simp add: carry_fold_add carry_fold_small)
qed

subsection \<open>The contract of a checksummed message\<close>

text \<open>
  A message format with a checksum field: \<open>image c m\<close> is the memory image of \<open>m\<close> with \<open>c\<close> in
  the field, \<open>seed m\<close> the value the sum starts from. The provider promises that the field is an
  aligned word (so it adds \<open>c\<close> to the sum) and that the image fits a 16-bit count. Senders store
  the checksum of the image with a zero field; receivers then compute zero.
\<close>

locale checksummed =
  fixes image :: "u16 \<Rightarrow> 'm \<Rightarrow> bytes" and isize :: "'m \<Rightarrow> nat"
    and seed :: "'m \<Rightarrow> u32" and valid :: "'m \<Rightarrow> bool"
  assumes field_adds: "valid m \<Longrightarrow> sum16 (image c m) = sum16 (image 0 m) + unat c"
    and image_length: "valid m \<Longrightarrow> length (image c m) = isize m"
    and image_fits: "valid m \<Longrightarrow> isize m < 65536"
    and seed_fits: "valid m \<Longrightarrow> unat (seed m) \<le> 65535"
begin

lemma count_exact: "valid m \<Longrightarrow> unat (of_nat (isize m) :: u16) = isize m"
  using image_fits by (simp add: unsigned_of_nat take_bit_eq_mod)

lemma fill_exists:
  "valid m \<Longrightarrow> \<exists>c. cksum16 (image 0 m) (of_nat (isize m)) (seed m) = Some c \<and>
     unat c = 65535 - carry_fold (unat (seed m) + sum16 (image 0 m))"
  using cksum16_value [of "of_nat (isize m)" "image 0 m" "seed m" LittleEndian]
  by (simp add: count_exact image_length seed_fits)

lemma filled_verifies:
  assumes "valid m" and "cksum16 (image 0 m) (of_nat (isize m)) (seed m) = Some c"
  shows "cksum16 (image c m) (of_nat (isize m)) (seed m) = Some 0"
proof -
  have "unat c = 65535 - carry_fold (unat (seed m) + sum16 (image 0 m))"
    using fill_exists [OF assms(1)] assms(2) by auto
  then have "carry_fold (unat (seed m) + sum16 (image c m)) = 65535"
    using carry_fold_complement [of "unat (seed m) + sum16 (image 0 m)"]
    by (simp add: field_adds [OF assms(1), of c] add.assoc)
  then show ?thesis
    using assms(1) by (subst cksum16_zero_iff) (simp_all add: count_exact image_length seed_fits)
qed

text \<open>Conversely the field is determined up to the two representations of zero.\<close>

lemma verifies_unique:
  assumes "valid m" and "cksum16 (image c m) (of_nat (isize m)) (seed m) = Some 0"
    and "cksum16 (image d m) (of_nat (isize m)) (seed m) = Some 0"
  shows "unat c mod 65535 = unat d mod 65535"
proof -
  have "(unat (seed m) + sum16 (image 0 m) + unat c) mod 65535 = 0"
    and "(unat (seed m) + sum16 (image 0 m) + unat d) mod 65535 = 0"
    using assms by (simp_all add: cksum16_zero_iff count_exact image_length seed_fits
        carry_fold_full field_adds [OF assms(1), of c] field_adds [OF assms(1), of d] add.assoc)
  then have "(unat (seed m) + sum16 (image 0 m) + unat c) mod 65535 =
      (unat (seed m) + sum16 (image 0 m) + unat d) mod 65535"
    by simp
  then show ?thesis
    by (rule mod_add_cancel)
qed

end

subsection \<open>Host byte order does not matter\<close>

lemma load16_big: "load16_on BigEndian b0 b1 = load16 b1 b0"
  by (simp add: load_defs or.commute)

lemma unat_byteswap16_bytes: "unat (byteswap16 (load16 b0 b1)) = 256 * unat b0 + unat b1"
  by (simp add: byteswap16_bytes load16_big unat_load16)

lemma sum16_big_cong:
  "even (length bs) \<Longrightarrow> \<exists>k. 256 * sum16 bs = sum16_on BigEndian bs + 65535 * k"
proof (induction LittleEndian bs rule: sum16_on.induct)
  case (1 b0 b1 bs)
  then obtain k where "256 * sum16 bs = sum16_on BigEndian bs + 65535 * k" by auto
  then have "256 * sum16 (b0 # b1 # bs) =
      sum16_on BigEndian (b0 # b1 # bs) + 65535 * (k + unat b1)"
    by (simp add: load16_big unat_load16 algebra_simps)
  then show ?case by blast
qed auto

lemma sum16_big_zero: "even (length bs) \<Longrightarrow> sum16_on BigEndian bs = 0 \<longleftrightarrow> sum16 bs = 0"
proof (induction LittleEndian bs rule: sum16_on.induct)
  case (1 b0 b1 bs)
  then show ?case by (auto simp: load16_big unat_load16)
qed auto

lemma carry_fold_byteswap:
  fixes w :: u16
  assumes "256 * unat w mod 65535 = n mod 65535" and "n = 0 \<longleftrightarrow> unat w = 0"
  shows "carry_fold n = unat (byteswap16 w)"
proof -
  obtain b0 b1 where w: "w = load16 b0 b1" using load16_store16 [of w] by metis
  have eq: "256 * unat w = unat (byteswap16 w) + 65535 * unat b1"
    by (simp add: w unat_byteswap16_bytes unat_load16 algebra_simps)
  then have "unat (byteswap16 w) mod 65535 = n mod 65535"
    using assms(1) by (metis mod_mult_self2)
  moreover have "unat (byteswap16 w) = 0 \<longleftrightarrow> n = 0"
    using assms(2) by (auto simp: w unat_byteswap16_bytes unat_load16)
  ultimately have "carry_fold n = carry_fold (unat (byteswap16 w))"
    by (cases "n = 0") (auto intro: carry_fold_cong)
  then show ?thesis
    using unat_u16_bound [of "byteswap16 w"] by (simp add: carry_fold_small)
qed

lemma byteswap16_not: "byteswap16 (NOT w) = NOT (byteswap16 w)"
  unfolding byteswap16_def byte_masks
  by (rule bit_word_eqI) (auto simp: bit_simps)

lemma cksum16_big:
  assumes "even (unat count)" and "unat count \<le> length addr"
  shows "cksum16_on BigEndian addr count 0 = map_option byteswap16 (cksum16 addr count 0)"
proof -
  let ?bs = "take (unat count) addr"
  obtain c d where c: "cksum16 addr count 0 = Some c" "unat c = 65535 - carry_fold (sum16 ?bs)"
    and d: "cksum16_on BigEndian addr count 0 = Some d"
      "unat d = 65535 - carry_fold (sum16_on BigEndian ?bs)"
    using cksum16_value [of count addr 0 LittleEndian] cksum16_value [of count addr 0 BigEndian]
      assms(2) by auto
  have ev: "even (length ?bs)" using assms by simp
  have nc: "unat (NOT c) = carry_fold (sum16 ?bs)"
    using carry_fold_le [of "sum16 ?bs"] by (simp add: unat_not_u16 c(2))
  have "256 * carry_fold (sum16 ?bs) mod 65535 = 256 * sum16 ?bs mod 65535"
    by (cases "sum16 ?bs = 0") (auto simp: carry_fold_mod mod_mult_right_eq)
  with sum16_big_cong [OF ev] nc have
    "256 * unat (NOT c) mod 65535 = sum16_on BigEndian ?bs mod 65535"
    by (auto simp: mod_mult_self2)
  then have "carry_fold (sum16_on BigEndian ?bs) = unat (byteswap16 (NOT c))"
    by (rule carry_fold_byteswap) (simp add: nc sum16_big_zero [OF ev])
  then have "unat d = unat (byteswap16 c)"
    by (simp add: d(2) byteswap16_not unat_not_u16)
      (metis diff_diff_cancel unat_u16_bound)
  then have "d = byteswap16 c" by (simp only: word_unat_eq_iff)
  then show ?thesis by (simp add: c d)
qed

section \<open>Properties\<close>

text \<open>
  C34. On a host of either byte order, and whether or not the static \<^verbatim>\<open>endian\<close> has been
  initialised yet, storing the result of \<^verbatim>\<open>hton16\<close>/\<^verbatim>\<open>hton32\<close> puts the most significant byte
  first, the \<^verbatim>\<open>ntoh\<close> functions undo it, and the static variable keeps a legal value.
\<close>

theorem hton_network_order:
  assumes "endian_ok e endian"
  shows "store16_on e (snd (hton16_on e endian h)) = store16_on BigEndian h \<and>
    store32_on e (snd (hton32_on e endian w)) = store32_on BigEndian w \<and>
    snd (ntoh16_on e endian (snd (hton16_on e endian h))) = h \<and>
    snd (ntoh32_on e endian (snd (hton32_on e endian w))) = w \<and>
    endian_ok e (fst (hton16_on e endian h)) \<and> endian_ok e (fst (ntoh32_on e endian w))"
  using assms
  by (cases e; auto simp: endian_ok_def hton16_on_def hton32_on_def ntoh16_on_def ntoh32_on_def
      store16_byteswap16 store32_byteswap32 simp del: store16_on.simps store32_on.simps)

theorem hton_network_order_witness:
  "endian_ok BigEndian 0 \<and> endian_ok LittleEndian LITTLE_ENDIAN \<and>
   store16_on LittleEndian (snd (hton16_on LittleEndian LITTLE_ENDIAN 0x0806)) = [0x08, 0x06] \<and>
   store32_on BigEndian (snd (hton32_on BigEndian 0 0xc0000202)) = [0xc0, 0x00, 0x02, 0x02]"
proof -
  have "endian_ok BigEndian 0" and "endian_ok LittleEndian LITTLE_ENDIAN"
    by (simp_all add: endian_ok_def)
  then show ?thesis
    using hton_network_order [of BigEndian 0 0 "0xc0000202"]
      hton_network_order [of LittleEndian LITTLE_ENDIAN "0x0806" 0] by simp
qed

text \<open>
  C19. \<^verbatim>\<open>cksum16\<close> computes the Internet checksum of RFC 1071: for a seed of at most 16 bits it
  returns exactly when the buffer holds \<^verbatim>\<open>count\<close> bytes, it reads no byte beyond them, its 32-bit
  accumulator never wraps, its folding loop ends, and the result is the complement of the end-around
  carry sum of the 16-bit words.
\<close>

theorem cksum16_rfc1071:
  assumes "unat init \<le> 65535"
  shows "(cksum16_on e addr count init = None \<longleftrightarrow> length addr < unat count) \<and>
    (\<forall>c. cksum16_on e addr count init = Some c \<longrightarrow>
       unat c = 65535 - carry_fold (unat init + sum16_on e (take (unat count) addr)) \<and>
       cksum16_on e (take (unat count) addr) count init = Some c)"
proof (cases "length addr < unat count")
  case True
  then show ?thesis by (simp add: cksum16_overrun)
next
  case False
  then show ?thesis
    using cksum16_value [of count addr init e] cksum16_value [of count "take (unat count) addr" init e]
      assms by (auto simp: cksum16_defined_iff word_unat_eq_iff)
qed

lemmas cksum16_eval = cksum16_on_def cksum16_sum.simps cksum16_fold.simps load_defs

theorem cksum16_rfc1071_witness:
  "unat (0 :: u32) \<le> 65535 \<and> cksum16 test_data 20 0 = Some 0 \<and>
   carry_fold (sum16 (take 20 test_data)) = 65535"
proof -
  have z: "unat (0 :: u32) \<le> 65535" by simp
  have c: "cksum16 test_data 20 0 = Some 0"
    by (simp add: test_data_def cksum16_eval)
  then have "65535 - carry_fold (sum16 (take 20 test_data)) = 0"
    using cksum16_rfc1071 [OF z, of LittleEndian test_data 20] by simp
  with z c show ?thesis
    using carry_fold_le [of "sum16 (take 20 test_data)"] by simp
qed

text \<open>
  The checksum does not depend on the host's byte order (RFC 1071, section 2(B)): over an even
  number of bytes a little-endian and a big-endian host store the same two bytes in the packet.
\<close>

theorem cksum16_byte_order_independent:
  assumes "even (unat count)" and "unat count \<le> length addr"
  shows "map_option (store16_on BigEndian) (cksum16_on BigEndian addr count 0) =
    map_option (store16_on LittleEndian) (cksum16_on LittleEndian addr count 0) \<and>
    cksum16_on BigEndian addr count 0 \<noteq> None"
proof -
  obtain c where "cksum16 addr count 0 = Some c"
    using cksum16_value [of count addr 0 LittleEndian] assms(2) by auto
  moreover have "store16_on BigEndian (byteswap16 c) = store16 c"
    using store16_byteswap16 [of "byteswap16 c"] by (simp only: byteswap16_byteswap16)
  ultimately show ?thesis
    by (simp only: cksum16_big [OF assms] option.map option.simps simp_thms not_False_eq_True)
qed

theorem cksum16_byte_order_independent_witness:
  "even (unat (28 :: u16)) \<and> unat (28 :: u16) \<le> length (drop 20 test_data) \<and>
   map_option (store16_on BigEndian) (cksum16_on BigEndian (drop 20 test_data) 28 0) =
   map_option (store16_on LittleEndian) (cksum16_on LittleEndian (drop 20 test_data) 28 0)"
proof -
  have "even (unat (28 :: u16))" and "unat (28 :: u16) \<le> length (drop 20 test_data)"
    by (simp_all add: test_data_def)
  then show ?thesis
    using cksum16_byte_order_independent [of 28 "drop 20 test_data"] by blast
qed

text \<open>
  On a big-endian host an odd trailing byte is added as the low byte of its word instead of the
  high byte, so the checksum of the same odd-length message differs from the little-endian one.
\<close>

theorem cksum16_odd_byte_order:
  "map_option (store16_on LittleEndian) (cksum16_on LittleEndian [0x61] 1 0) = Some [0x9e, 0xff] \<and>
   map_option (store16_on BigEndian) (cksum16_on BigEndian [0x61] 1 0) = Some [0xff, 0x9e]"
  by (simp add: cksum16_eval)

text \<open>
  C33. Error detection: of two messages that differ in one aligned 16-bit word, at most one passes
  the receiver's check, unless the two words are the two representations of zero.
\<close>

theorem cksum16_detects_word_error:
  assumes "even (length pre)" and "length pre + 2 + length post = unat count"
    and "unat init \<le> 65535"
    and "cksum16 (pre @ store16 x @ post) count init = Some 0"
    and "cksum16 (pre @ store16 y @ post) count init = Some 0"
  shows "x = y \<or> {x, y} = {0, 0xffff}"
proof -
  have sums: "sum16 (pre @ store16 v @ post) = sum16 pre + sum16 post + unat v" for v
    using assms(1) by (simp add: sum16_append)
  have "(unat init + sum16 pre + sum16 post + unat x) mod 65535 =
      (unat init + sum16 pre + sum16 post + unat y) mod 65535"
    using assms(2-5) by (simp add: cksum16_zero_iff carry_fold_full sums add.assoc
        del: store16_on.simps)
  then have "unat x mod 65535 = unat y mod 65535"
    by (rule mod_add_cancel)
  then have "unat x = unat y \<or> {unat x, unat y} = {0, 65535}"
    using unat_u16_bound [of x] unat_u16_bound [of y]
    by (cases "unat x = 65535"; cases "unat y = 65535") auto
  moreover have "v = 0xffff \<longleftrightarrow> unat v = 65535" for v :: u16
    by (simp add: word_unat_eq_iff)
  ultimately show ?thesis
    by (auto simp: word_unat_eq_iff doubleton_eq_iff)
qed

theorem cksum16_detects_word_error_witness:
  "cksum16 ([] @ store16 0x0045 @ drop 2 test_data) 20 0 = Some 0 \<and>
   (cksum16 ([] @ store16 0x0046 @ drop 2 (take 20 test_data)) 20 0 \<noteq> Some 0)"
proof -
  have ok: "cksum16 ([] @ store16 0x0045 @ drop 2 (take 20 test_data)) 20 0 = Some 0"
    "cksum16 ([] @ store16 0x0045 @ drop 2 test_data) 20 0 = Some 0"
    by (simp_all add: test_data_def cksum16_eval)
  have "length ([] :: bytes) + 2 + length (drop 2 (take 20 test_data)) = unat (20 :: u16)"
    by (simp add: test_data_def)
  from cksum16_detects_word_error [OF _ this _ ok(1), of "0x0046"] ok(2) show ?thesis
    by (auto simp: doubleton_eq_iff)
qed

end
