(* ===== verification/Addr_Text.thy ===== *)
theory Addr_Text
  imports Util_Checksum
begin

text \<open>
  Textual addresses: the conversions of \<^verbatim>\<open>src/lib/ip.c\<close> (IPv4 addresses and endpoints) and
  \<^verbatim>\<open>src/lib/ether.c\<close> (MAC addresses), on top of the parts of the C library they use: \<^verbatim>\<open>strtol\<close>
  with an end pointer, \<^verbatim>\<open>strrchr\<close>, \<^verbatim>\<open>snprintf\<close> with \<^verbatim>\<open>%d\<close> and \<^verbatim>\<open>%02x\<close>. A C string is its list
  of characters before the terminating NUL; the empty list is a pointer to the NUL.

  The shared contract of a printer and its parser is the locale \<open>text_format\<close>, interpreted for
  addresses, endpoints and MAC addresses.
\<close>

section \<open>Definitions\<close>

subsection \<open>The C library\<close>

definition LONG_MAX :: int where "LONG_MAX = 2 ^ 63 - 1"
definition LONG_MIN :: int where "LONG_MIN = - (2 ^ 63)"

definition char_code :: "char \<Rightarrow> nat" where
  "char_code c = of_char c"

definition is_space :: "char \<Rightarrow> bool" where
  "is_space c \<longleftrightarrow> char_code c = 32 \<or> (9 \<le> char_code c \<and> char_code c \<le> 13)"

definition digit_val :: "nat \<Rightarrow> char \<Rightarrow> nat option" where
  "digit_val base c =
     (let k = char_code c;
          d = (if 48 \<le> k \<and> k \<le> 57 then k - 48
               else if 97 \<le> k \<and> k \<le> 122 then k - 87
               else if 65 \<le> k \<and> k \<le> 90 then k - 55 else base)
      in if d < base then Some d else None)"

fun scan_digits :: "nat \<Rightarrow> nat \<Rightarrow> string \<Rightarrow> nat \<times> string" where
  "scan_digits base acc [] = (acc, [])"
| "scan_digits base acc (c # cs) =
     (case digit_val base c of
        None \<Rightarrow> (acc, c # cs)
      | Some d \<Rightarrow> scan_digits base (acc * base + d) cs)"

definition starts_digit :: "nat \<Rightarrow> string \<Rightarrow> bool" where
  "starts_digit base s = (case s of [] \<Rightarrow> False | c # _ \<Rightarrow> digit_val base c \<noteq> None)"

text \<open>Sign and subject sequence after the white space; base 16 takes an optional \<^verbatim>\<open>0x\<close>.\<close>

definition strtol_subject :: "nat \<Rightarrow> string \<Rightarrow> bool \<times> string" where
  "strtol_subject base s =
     (let s1 = dropWhile is_space s;
          (neg, s2) = (case s1 of
             c # cs \<Rightarrow> if c = CHR ''-'' then (True, cs) else if c = CHR ''+'' then (False, cs) else (False, s1)
           | [] \<Rightarrow> (False, s1));
          s3 = (case s2 of
             c # x # cs \<Rightarrow>
               if base = 16 \<and> c = CHR ''0'' \<and> (x = CHR ''x'' \<or> x = CHR ''X'') \<and> starts_digit 16 cs
               then cs else s2
           | _ \<Rightarrow> s2)
      in (neg, s3))"

text \<open>\<^verbatim>\<open>strtol\<close>: the value and the string at \<^verbatim>\<open>*endptr\<close>; without digits \<^verbatim>\<open>endptr\<close> is the argument.\<close>

definition strtol :: "nat \<Rightarrow> string \<Rightarrow> int \<times> string" where
  "strtol base s =
     (let (neg, t) = strtol_subject base s
      in if starts_digit base t
         then (let (n, r) = scan_digits base 0 t;
                   v = (if neg then - int n else int n)
               in (max LONG_MIN (min LONG_MAX v), r))
         else (0, s))"

text \<open>What is left when \<^verbatim>\<open>strtol\<close> has stopped reading: empty means that it read the byte after the last character.\<close>

definition strtol_read_to :: "nat \<Rightarrow> string \<Rightarrow> string" where
  "strtol_read_to base s = snd (scan_digits base 0 (snd (strtol_subject base s)))"

definition digit_char :: "nat \<Rightarrow> char" where
  "digit_char d = (if d < 10 then char_of (48 + d) else char_of (87 + d))"

text \<open>\<^verbatim>\<open>%d\<close> of a non-negative number.\<close>

fun show_dec :: "nat \<Rightarrow> string" where
  "show_dec n = (if 10 \<le> n then show_dec (n div 10) else []) @ [digit_char (n mod 10)]"

declare show_dec.simps [simp del]

text \<open>\<^verbatim>\<open>%02x\<close> of a byte.\<close>

definition show_hex2 :: "u8 \<Rightarrow> string" where
  "show_hex2 b = [digit_char (unat b div 16), digit_char (unat b mod 16)]"

definition snprintf :: "nat \<Rightarrow> string \<Rightarrow> string" where
  "snprintf sz text = take (sz - 1) text"

text \<open>\<^verbatim>\<open>strrchr\<close>: the text before the last occurrence of \<open>c\<close> and the text after it.\<close>

fun strrchr :: "string \<Rightarrow> char \<Rightarrow> (string \<times> string) option" where
  "strrchr [] c = None"
| "strrchr (x # xs) c =
     (case strrchr xs c of
        Some (pre, post) \<Rightarrow> Some (x # pre, post)
      | None \<Rightarrow> if x = c then Some ([], xs) else None)"

subsection \<open>IPv4 addresses\<close>

definition MAX_IP_ADDRESS_STRING_LENGTH :: nat where "MAX_IP_ADDRESS_STRING_LENGTH = 16"
definition MAX_IP_ENDPOINT_STRING_LENGTH :: nat where
  "MAX_IP_ENDPOINT_STRING_LENGTH = MAX_IP_ADDRESS_STRING_LENGTH + 6"

definition load32_bytes :: "bytes \<Rightarrow> u32" where
  "load32_bytes bs = load32 (bs ! 0) (bs ! 1) (bs ! 2) (bs ! 3)"

text \<open>
  The loop of \<^verbatim>\<open>ip_string_to_address\<close> over the remaining values of \<^verbatim>\<open>idx\<close>; \<open>n\<close> is the memory of
  the result, which keeps the bytes stored before a failure. \<open>nul\<close> says whether the characters are
  followed by a NUL: if not, a scan that reaches their end reads outside the array.
\<close>

fun ip_parse :: "bool \<Rightarrow> nat list \<Rightarrow> string \<Rightarrow> bytes \<Rightarrow> (int \<times> bytes) option" where
  "ip_parse nul [] sp n = Some (0, n)"
| "ip_parse nul (idx # idxs) sp n =
     (if \<not> nul \<and> strtol_read_to 10 sp = [] then None
      else let (ret, ep) = strtol 10 sp
        in if ret < 0 \<or> ret > 255 \<or> ep = sp then Some (-1, n)
           else if (idx = 3 \<and> ep \<noteq> []) \<or> (idx \<noteq> 3 \<and> (ep = [] \<or> hd ep \<noteq> CHR ''.'')) then Some (-1, n)
           else ip_parse nul idxs (tl ep) (n[idx := of_int ret]))"

definition ip_string_to_address_buf :: "bool \<Rightarrow> string \<Rightarrow> u32 \<Rightarrow> (int \<times> u32) option" where
  "ip_string_to_address_buf nul p n =
     map_option (\<lambda>(ret, bs). (ret, load32_bytes bs)) (ip_parse nul [0, 1, 2, 3] p (store32 n))"

definition ip_string_to_address :: "string \<Rightarrow> u32 \<Rightarrow> int \<times> u32" where
  "ip_string_to_address p n = the (ip_string_to_address_buf True p n)"

definition ip_address_text :: "u32 \<Rightarrow> string" where
  "ip_address_text n =
     (let u8 = map unat (store32 n)
      in show_dec (u8 ! 0) @ ''.'' @ show_dec (u8 ! 1) @ ''.'' @ show_dec (u8 ! 2) @ ''.'' @ show_dec (u8 ! 3))"

definition ip_address_to_string :: "u32 \<Rightarrow> nat \<Rightarrow> string" where
  "ip_address_to_string n sz = snprintf sz (ip_address_text n)"

subsection \<open>Endpoints\<close>

record IP_ENDPOINT =
  ep_address :: u32
  ep_port :: u16

definition ip_string_to_endpoint :: "string \<Rightarrow> IP_ENDPOINT \<Rightarrow> (int \<times> IP_ENDPOINT) option" where
  "ip_string_to_endpoint p n =
     (case strrchr p CHR '':'' of
        None \<Rightarrow> Some (-1, n)
      | Some (pre, post) \<Rightarrow>
          if length pre > MAX_IP_ADDRESS_STRING_LENGTH then None
          else do {
            (ret, a) \<leftarrow> ip_string_to_address_buf (length pre < MAX_IP_ADDRESS_STRING_LENGTH) pre (ep_address n);
            let n = n\<lparr>ep_address := a\<rparr>;
            if ret = -1 then Some (-1, n)
            else let port = fst (strtol 10 post)
              in if port \<le> 0 \<or> port > 65535 then Some (-1, n)
                 else Some (0, n\<lparr>ep_port := hton16 (of_int port)\<rparr>)
          })"

definition ip_endpoint_to_string :: "IP_ENDPOINT \<Rightarrow> nat \<Rightarrow> string" where
  "ip_endpoint_to_string n sz =
     (let p = ip_address_to_string (ep_address n) sz;
          offset = length p
      in p @ snprintf (sz - offset) ('':'' @ show_dec (unat (ntoh16 (ep_port n)))))"

subsection \<open>MAC addresses\<close>

definition ETHER_ADDR_LEN :: nat where "ETHER_ADDR_LEN = 6"
definition ETHER_ADDR_STR_LEN :: nat where "ETHER_ADDR_STR_LEN = 18"

text \<open>
  The loop of \<^verbatim>\<open>ether_addr_pton\<close>: the index it stops at, the end pointer of the last \<^verbatim>\<open>strtol\<close> and
  the memory of the result.
\<close>

fun ether_parse :: "nat list \<Rightarrow> nat \<Rightarrow> string \<Rightarrow> string \<Rightarrow> bytes \<Rightarrow> nat \<times> string \<times> bytes" where
  "ether_parse [] index p ep n = (index, ep, n)"
| "ether_parse (i # is) index p ep n =
     (let (val, ep) = strtol 16 p
      in if ep = p \<or> val < 0 \<or> val > 0xff \<or> (index < ETHER_ADDR_LEN - 1 \<and> (ep = [] \<or> hd ep \<noteq> CHR '':''))
         then (index, ep, n)
         else ether_parse is (index + 1) (tl ep) ep (n[index := of_int val]))"

definition ether_addr_pton :: "string option \<Rightarrow> bytes option \<Rightarrow> int \<times> bytes option" where
  "ether_addr_pton p n =
     (case (p, n) of
        (Some s, Some m) \<Rightarrow>
          (let (index, ep, m') = ether_parse [0..<ETHER_ADDR_LEN] 0 s [] m
           in (if index \<noteq> ETHER_ADDR_LEN \<or> ep \<noteq> [] then -1 else 0, Some m'))
      | _ \<Rightarrow> (-1, n))"

definition ether_addr_text :: "bytes \<Rightarrow> string" where
  "ether_addr_text n =
     show_hex2 (n ! 0) @ '':'' @ show_hex2 (n ! 1) @ '':'' @ show_hex2 (n ! 2) @ '':'' @
     show_hex2 (n ! 3) @ '':'' @ show_hex2 (n ! 4) @ '':'' @ show_hex2 (n ! 5)"

definition ether_addr_ntop :: "bytes option \<Rightarrow> nat option \<Rightarrow> string option" where
  "ether_addr_ntop n psz =
     (case (n, psz) of
        (Some b, Some sz) \<Rightarrow> Some (snprintf sz (ether_addr_text b))
      | _ \<Rightarrow> None)"

section \<open>Lemmas\<close>

subsection \<open>Printing numbers and reading them back\<close>

lemma char_code_char_of [simp]: "n < 256 \<Longrightarrow> char_code (char_of n) = n"
  by (simp add: char_code_def)

lemma char_code_inject: "char_code c = char_code d \<longleftrightarrow> c = d"
  by (auto simp: char_code_def)

lemma digit_val_digit_char [simp]: "d < base \<Longrightarrow> base \<le> 16 \<Longrightarrow> digit_val base (digit_char d) = Some d"
  by (auto simp: digit_val_def digit_char_def Let_def)

lemma code_digit_char: "d < 16 \<Longrightarrow> char_code (digit_char d) = (if d < 10 then 48 + d else 87 + d)"
  by (simp add: digit_char_def)

lemma digit_char_plain:
  assumes "d < 16"
  shows "\<not> is_space (digit_char d)" "digit_char d \<noteq> CHR ''-''" "digit_char d \<noteq> CHR ''+''"
    "digit_char d \<noteq> CHR ''x''" "digit_char d \<noteq> CHR ''X''" "digit_char d \<noteq> CHR '':''"
    "digit_char d \<noteq> CHR ''.''"
  using assms
  by (auto simp: is_space_def code_digit_char char_code_inject [symmetric])
    (simp_all add: char_code_def split: if_splits)

lemma strtol_subject_digit:
  assumes "d < 16" and "base \<noteq> 16 \<or> (\<forall>x cs. r = x # cs \<longrightarrow> x \<noteq> CHR ''x'' \<and> x \<noteq> CHR ''X'')"
  shows "strtol_subject base (digit_char d # r) = (False, digit_char d # r)"
  using assms digit_char_plain [OF assms(1)]
  by (auto simp: strtol_subject_def Let_def split: list.splits)

lemma show_dec_Cons: "\<exists>d cs. d < 10 \<and> show_dec n = digit_char d # cs"
proof (induction n rule: show_dec.induct)
  case (1 n)
  show ?case
  proof (cases "10 \<le> n")
    case True
    with 1 show ?thesis by (subst show_dec.simps) auto
  next
    case False
    then show ?thesis by (subst show_dec.simps) (auto intro: exI [of _ n])
  qed
qed

lemma show_dec_digits: "c \<in> set (show_dec n) \<Longrightarrow> \<exists>d < 10. c = digit_char d"
proof (induction n rule: show_dec.induct)
  case (1 n)
  then show ?case
    by (subst (asm) show_dec.simps) (auto split: if_splits intro: exI [of _ "n mod 10"])
qed

lemma uint_u8_bound: "uint b \<le> 255" "0 \<le> uint b" for b :: u8
  using unat_u8_bound [of b] by (simp_all add: nat_le_iff flip: nat_uint_eq)

lemma scan_show_dec:
  "scan_digits 10 acc (show_dec n @ r) = scan_digits 10 (acc * 10 ^ length (show_dec n) + n) r"
proof (induction n arbitrary: acc r rule: show_dec.induct)
  case (1 n)
  show ?case
  proof (cases "10 \<le> n")
    case True
    have "n div 10 * 10 + n mod 10 = n" by (rule div_mult_mod_eq)
    with True 1 [OF True] show ?thesis
      by (subst (1 2) show_dec.simps) (simp add: algebra_simps)
  next
    case False
    then show ?thesis by (subst (1 2) show_dec.simps) simp
  qed
qed

lemma length_show_dec: "n < 10 ^ k \<Longrightarrow> 0 < k \<Longrightarrow> length (show_dec n) \<le> k"
proof (induction n arbitrary: k rule: show_dec.induct)
  case (1 n)
  show ?case
  proof (cases "10 \<le> n")
    case True
    with "1.prems" obtain k' where k: "k = Suc k'" "0 < k'"
      by (cases k; cases "k - 1") auto
    with "1.prems" have "n div 10 < 10 ^ k'" by (simp add: less_mult_imp_div_less)
    with 1(1) [OF True _ k(2)] True k show ?thesis by (subst show_dec.simps) simp
  next
    case False
    with "1.prems" show ?thesis by (subst show_dec.simps) simp
  qed
qed

lemma scan_stop: "\<not> starts_digit base r \<Longrightarrow> scan_digits base acc r = (acc, r)"
  by (cases r) (auto simp: starts_digit_def)

lemma strtol_show_dec:
  assumes "\<not> starts_digit 10 r" and "int n \<le> LONG_MAX"
  shows "strtol 10 (show_dec n @ r) = (int n, r)"
proof -
  obtain d cs where d: "d < 10" "show_dec n = digit_char d # cs" using show_dec_Cons by blast
  have "strtol_subject 10 (show_dec n @ r) = (False, show_dec n @ r)"
    using strtol_subject_digit [of d 10 "cs @ r"] d by simp
  moreover have "starts_digit 10 (show_dec n @ r)" using d by (simp add: starts_digit_def)
  moreover have "LONG_MIN \<le> int n" by (simp add: LONG_MIN_def)
  ultimately show ?thesis
    using assms by (simp add: strtol_def scan_show_dec scan_stop)
qed

lemma strtol_hex2:
  assumes "\<not> starts_digit 16 r"
  shows "strtol 16 (show_hex2 b @ r) = (uint b, r)"
proof -
  have b: "unat b div 16 < 16" "unat b mod 16 < 16" using unat_u8_bound [of b] by auto
  have "strtol_subject 16 (show_hex2 b @ r) = (False, show_hex2 b @ r)"
    using strtol_subject_digit [OF b(1), of 16 "digit_char (unat b mod 16) # r"] digit_char_plain [OF b(2)]
    by (simp add: show_hex2_def)
  moreover have "uint b \<le> LONG_MAX"
    using uint_u8_bound [of b] by (simp add: LONG_MAX_def)
  moreover have "LONG_MIN \<le> uint b"
    by (rule order_trans [of _ 0]) (simp_all add: LONG_MIN_def)
  moreover have "scan_digits 16 0 (show_hex2 b @ r) = (unat b, r)"
    using b by (simp add: show_hex2_def scan_stop [OF assms])
  moreover have "starts_digit 16 (show_hex2 b @ r)"
    using b by (simp add: show_hex2_def starts_digit_def)
  ultimately show ?thesis by (simp add: strtol_def)
qed

subsection \<open>The contract of a printer and its parser\<close>

text \<open>
  \<open>render x\<close> is the complete text of a valid value, \<open>parse\<close> reads it back, and the text with its NUL
  fits a buffer of \<open>bufsize\<close> bytes. Then \<^verbatim>\<open>snprintf\<close> into such a buffer loses nothing, and different
  values print differently.
\<close>

locale text_format =
  fixes render :: "'a \<Rightarrow> string" and parse :: "string \<Rightarrow> 'a option"
    and bufsize :: nat and valid :: "'a \<Rightarrow> bool"
  assumes parse_render: "valid x \<Longrightarrow> parse (render x) = Some x"
    and render_fits: "valid x \<Longrightarrow> length (render x) < bufsize"
begin

lemma snprintf_exact: "valid x \<Longrightarrow> bufsize \<le> sz \<Longrightarrow> snprintf sz (render x) = render x"
  using render_fits [of x] by (simp add: snprintf_def)

lemma parse_printed: "valid x \<Longrightarrow> bufsize \<le> sz \<Longrightarrow> parse (snprintf sz (render x)) = Some x"
  by (simp add: snprintf_exact parse_render)

lemma printed_inject:
  "valid x \<Longrightarrow> valid y \<Longrightarrow> bufsize \<le> sz \<Longrightarrow> snprintf sz (render x) = snprintf sz (render y) \<longleftrightarrow> x = y"
  by (metis parse_printed option.inject)

end

subsection \<open>IPv4 addresses\<close>

lemma no_digit_dot [simp]: "\<not> starts_digit 10 (CHR ''.'' # r)" "\<not> starts_digit 10 (CHR '':'' # r)"
    "\<not> starts_digit 16 (CHR '':'' # r)" "\<not> starts_digit b []"
  by (simp_all add: starts_digit_def digit_val_def char_code_def Let_def)

lemma strtol_byte:
  "\<not> starts_digit 10 r \<Longrightarrow> strtol 10 (show_dec (unat b) @ r) = (uint b, r)" for b :: u8
  using uint_u8_bound [of b] strtol_show_dec [of r "unat b"] by (simp add: LONG_MAX_def)

lemma show_dec_not_Nil [simp]: "show_dec n \<noteq> []" "[] \<noteq> show_dec n"
  using show_dec_Cons [of n] by auto

lemma ip_parse_text:
  fixes a b c d :: u8
  assumes "length n = 4"
  shows "ip_parse True [0, 1, 2, 3] (show_dec (unat a) @ ''.'' @ show_dec (unat b) @ ''.'' @
      show_dec (unat c) @ ''.'' @ show_dec (unat d)) n = Some (0, [a, b, c, d])"
proof -
  have "n = [n ! 0, n ! 1, n ! 2, n ! 3]"
    using assms by (auto simp: list_eq_iff_nth_eq less_Suc_eq numeral_eq_Suc)
  then obtain n0 n1 n2 n3 where "n = [n0, n1, n2, n3]" by blast
  then show ?thesis
    using uint_u8_bound [of a] uint_u8_bound [of b] uint_u8_bound [of c] uint_u8_bound [of d]
      strtol_byte [of "[]" d]
    by (simp add: strtol_byte)
qed

lemma store32_expand: "store32 w = [store32 w ! 0, store32 w ! 1, store32 w ! 2, store32 w ! 3]"
  by simp

lemma ip_parse_True_defined: "ip_parse True idxs sp n \<noteq> None"
  by (induction idxs arbitrary: sp n) (auto simp: split_def Let_def)

lemma ip_string_to_address_buf_text:
  "ip_string_to_address_buf True (ip_address_text a) n = Some (0, a)"
proof -
  have "ip_parse True [0, 1, 2, 3] (ip_address_text a) (store32 n) = Some (0, store32 a)"
    using ip_parse_text [of "store32 n" "store32 a ! 0" "store32 a ! 1" "store32 a ! 2" "store32 a ! 3"]
    by (simp add: ip_address_text_def)
  then show ?thesis
    by (simp add: ip_string_to_address_buf_def load32_bytes_def)
qed

lemma ip_string_to_address_text: "ip_string_to_address (ip_address_text a) n = (0, a)"
  by (simp add: ip_string_to_address_def ip_string_to_address_buf_text)

lemma length_ip_address_text: "length (ip_address_text a) \<le> 15"
proof -
  have len: "length (show_dec (unat b)) \<le> 3" for b :: u8
    using unat_u8_bound [of b] by (intro length_show_dec) auto
  show ?thesis
    using len [of "store32 a ! 0"] len [of "store32 a ! 1"] len [of "store32 a ! 2"]
      len [of "store32 a ! 3"]
    by (simp add: ip_address_text_def Let_def)
qed

definition ip_parse_address :: "string \<Rightarrow> u32 option" where
  "ip_parse_address p = (case ip_string_to_address p 0 of (ret, a) \<Rightarrow> if ret = 0 then Some a else None)"

interpretation ip_fmt: text_format ip_address_text ip_parse_address MAX_IP_ADDRESS_STRING_LENGTH "\<lambda>_. True"
proof
  fix a
  show "ip_parse_address (ip_address_text a) = Some a"
    by (simp add: ip_parse_address_def ip_string_to_address_text)
  show "length (ip_address_text a) < MAX_IP_ADDRESS_STRING_LENGTH"
    using length_ip_address_text [of a] by (simp add: MAX_IP_ADDRESS_STRING_LENGTH_def)
qed

subsection \<open>Endpoints\<close>

lemma strrchr_None: "c \<notin> set xs \<Longrightarrow> strrchr xs c = None"
  by (induction xs) auto

lemma strrchr_last: "c \<notin> set ys \<Longrightarrow> strrchr (xs @ c # ys) c = Some (xs, ys)"
  by (induction xs) (auto simp: strrchr_None)

lemma colon_free_dec: "CHR '':'' \<notin> set (show_dec n)"
proof
  assume "CHR '':'' \<in> set (show_dec n)"
  then obtain d where "d < 10" "CHR '':'' = digit_char d" using show_dec_digits by blast
  then show False using digit_char_plain(6) [of d] by simp
qed

definition ip_endpoint_text :: "IP_ENDPOINT \<Rightarrow> string" where
  "ip_endpoint_text n = ip_address_text (ep_address n) @ '':'' @ show_dec (unat (ntoh16 (ep_port n)))"

definition ip_parse_endpoint :: "string \<Rightarrow> IP_ENDPOINT option" where
  "ip_parse_endpoint p =
     (case ip_string_to_endpoint p \<lparr>ep_address = 0, ep_port = 0\<rparr> of
        Some (ret, n) \<Rightarrow> if ret = 0 then Some n else None
      | None \<Rightarrow> None)"

lemma ntoh16_eq_0 [simp]: "ntoh16 w = 0 \<longleftrightarrow> w = 0"
proof -
  have "ntoh16 0 = 0" by (simp add: ntoh16_eq byteswap16_def)
  then show ?thesis by (metis hton16_ntoh16)
qed

lemma ip_string_to_endpoint_text:
  assumes "ep_port n \<noteq> 0"
  shows "ip_string_to_endpoint (ip_endpoint_text n) m = Some (0, n)"
proof -
  define port where "port = unat (ntoh16 (ep_port n))"
  then have w: "(of_nat port :: u16) = ntoh16 (ep_port n)" by simp
  have bounds: "0 < port" "port \<le> 65535"
    using assms unat_u16_bound [of "ntoh16 (ep_port n)"] by (auto simp: unat_gt_0 port_def)
  then have "strtol 10 (show_dec port) = (int port, [])"
    using strtol_show_dec [of "[]" port] by (simp add: LONG_MAX_def)
  moreover have "strrchr (ip_endpoint_text n) CHR '':'' =
      Some (ip_address_text (ep_address n), show_dec port)"
    by (simp add: ip_endpoint_text_def strrchr_last colon_free_dec port_def)
  ultimately show ?thesis
    using bounds length_ip_address_text [of "ep_address n"]
    by (simp add: ip_string_to_endpoint_def ip_string_to_address_buf_text MAX_IP_ADDRESS_STRING_LENGTH_def w)
qed

lemma length_ip_endpoint_text: "length (ip_endpoint_text n) \<le> 21"
proof -
  have "length (show_dec (unat (ntoh16 (ep_port n)))) \<le> 5"
    using unat_u16_bound [of "ntoh16 (ep_port n)"] by (intro length_show_dec) auto
  then show ?thesis
    using length_ip_address_text [of "ep_address n"] by (simp add: ip_endpoint_text_def)
qed

lemma ip_endpoint_to_string_eq:
  "MAX_IP_ENDPOINT_STRING_LENGTH \<le> sz \<Longrightarrow> ip_endpoint_to_string n sz = snprintf sz (ip_endpoint_text n)"
  using length_ip_address_text [of "ep_address n"] length_ip_endpoint_text [of n]
  by (simp add: ip_endpoint_to_string_def ip_address_to_string_def snprintf_def ip_endpoint_text_def
      MAX_IP_ENDPOINT_STRING_LENGTH_def MAX_IP_ADDRESS_STRING_LENGTH_def)

interpretation ep_fmt: text_format ip_endpoint_text ip_parse_endpoint MAX_IP_ENDPOINT_STRING_LENGTH
  "\<lambda>n. ep_port n \<noteq> 0"
proof
  fix n :: IP_ENDPOINT assume "ep_port n \<noteq> 0"
  then show "ip_parse_endpoint (ip_endpoint_text n) = Some n"
    by (simp add: ip_parse_endpoint_def ip_string_to_endpoint_text)
next
  fix n
  show "length (ip_endpoint_text n) < MAX_IP_ENDPOINT_STRING_LENGTH"
    using length_ip_endpoint_text [of n]
    by (simp add: MAX_IP_ENDPOINT_STRING_LENGTH_def MAX_IP_ADDRESS_STRING_LENGTH_def)
qed

subsection \<open>MAC addresses\<close>

lemma strtol_hex2_end: "strtol 16 (show_hex2 b) = (uint b, [])"
  using strtol_hex2 [of "[]" b] by simp

lemma ether_parse_text:
  assumes "length n = 6"
  shows "ether_parse [0..<6] 0 (ether_addr_text [a, b, c, d, e, f]) [] n = (6, [], [a, b, c, d, e, f])"
proof -
  have "n = [n ! 0, n ! 1, n ! 2, n ! 3, n ! 4, n ! 5]"
    using assms by (auto simp: list_eq_iff_nth_eq less_Suc_eq numeral_eq_Suc)
  then obtain n0 n1 n2 n3 n4 n5 where n: "n = [n0, n1, n2, n3, n4, n5]" by blast
  have neq: "show_hex2 x @ r \<noteq> r" "show_hex2 x \<noteq> []" for x r
    by (simp_all add: show_hex2_def)
  have le: "\<not> 255 < uint x" for x :: u8 using uint_u8_bound [of x] by simp
  have upt: "[0..<6] = [0, 1, 2, 3, 4, 5 :: nat]" by (simp add: upt_rec)
  show ?thesis
    by (simp add: n upt ether_addr_text_def strtol_hex2 strtol_hex2_end le neq ETHER_ADDR_LEN_def
        neq [symmetric])
qed

definition ether_parse_addr :: "string \<Rightarrow> bytes option" where
  "ether_parse_addr p =
     (case ether_addr_pton (Some p) (Some (replicate 6 0)) of
        (ret, Some n) \<Rightarrow> if ret = 0 then Some n else None
      | _ \<Rightarrow> None)"

interpretation mac_fmt: text_format ether_addr_text ether_parse_addr ETHER_ADDR_STR_LEN "\<lambda>n. length n = 6"
proof
  fix n :: bytes assume len: "length n = 6"
  then have n: "n = [n ! 0, n ! 1, n ! 2, n ! 3, n ! 4, n ! 5]"
    by (auto simp: list_eq_iff_nth_eq less_Suc_eq numeral_eq_Suc)
  have "ether_parse [0..<6] 0 (ether_addr_text n) [] (replicate 6 0) = (6, [], n)"
    using ether_parse_text [of "replicate 6 0" "n ! 0" "n ! 1" "n ! 2" "n ! 3" "n ! 4" "n ! 5"] n
    by simp
  then show "ether_parse_addr (ether_addr_text n) = Some n"
    by (simp add: ether_parse_addr_def ether_addr_pton_def ETHER_ADDR_LEN_def)
qed (simp add: ether_addr_text_def show_hex2_def ETHER_ADDR_STR_LEN_def)

section \<open>Properties\<close>

lemmas text_eval = ip_endpoint_to_string_def ip_address_to_string_def snprintf_def ip_address_text_def
  show_dec.simps digit_char_def char_of_def bit_0 ntoh16_eq byteswap16_def

text \<open>
  C31. Every IPv4 address survives printing and parsing: with the buffer size the callers pass
  (\<^verbatim>\<open>MAX_IP_ADDRESS_STRING_LENGTH\<close>) or a larger one nothing is truncated, \<^verbatim>\<open>ip_string_to_address\<close>
  returns 0 and the same four bytes, and two addresses print alike only if they are equal.
\<close>

theorem ip_address_roundtrip:
  assumes "MAX_IP_ADDRESS_STRING_LENGTH \<le> sz"
  shows "ip_string_to_address (ip_address_to_string a sz) n = (0, a) \<and>
    length (ip_address_to_string a sz) < MAX_IP_ADDRESS_STRING_LENGTH \<and>
    (ip_address_to_string a sz = ip_address_to_string b sz \<longleftrightarrow> a = b)"
  using assms ip_fmt.printed_inject [where x = a and y = b and sz = sz] ip_fmt.render_fits [where x = a]
  by (simp add: ip_address_to_string_def ip_fmt.snprintf_exact ip_string_to_address_text)

theorem ip_address_roundtrip_witness:
  "ip_string_to_address (ip_address_to_string 0x020200c0 16) 0 = (0, 0x020200c0) \<and>
   ip_address_to_string 0x020200c0 16 = ''192.0.2.2''"
proof -
  have "MAX_IP_ADDRESS_STRING_LENGTH \<le> 16" by (simp add: MAX_IP_ADDRESS_STRING_LENGTH_def)
  moreover have "ip_address_to_string 0x020200c0 16 = ''192.0.2.2''"
    by (simp add: text_eval)
  ultimately show ?thesis using ip_address_roundtrip [of 16 "0x020200c0" 0] by simp
qed

text \<open>
  C32. An endpoint with a non-zero port survives printing and parsing, and its text with the
  terminating NUL fits the \<^verbatim>\<open>MAX_IP_ENDPOINT_STRING_LENGTH\<close> bytes that \<^verbatim>\<open>udp.c\<close> and \<^verbatim>\<open>sock.c\<close>
  reserve.
\<close>

theorem ip_endpoint_roundtrip:
  assumes "MAX_IP_ENDPOINT_STRING_LENGTH \<le> sz" and "ep_port n \<noteq> 0"
  shows "ip_string_to_endpoint (ip_endpoint_to_string n sz) m = Some (0, n) \<and>
    length (ip_endpoint_to_string n sz) < MAX_IP_ENDPOINT_STRING_LENGTH"
  using assms ep_fmt.render_fits [of n]
  by (simp add: ip_endpoint_to_string_eq ep_fmt.snprintf_exact ip_string_to_endpoint_text)

theorem ip_endpoint_roundtrip_witness:
  "ip_string_to_endpoint (ip_endpoint_to_string \<lparr>ep_address = 0x0100007f, ep_port = 0xa00f\<rparr> 22)
     \<lparr>ep_address = 0, ep_port = 0\<rparr> = Some (0, \<lparr>ep_address = 0x0100007f, ep_port = 0xa00f\<rparr>) \<and>
   ip_endpoint_to_string \<lparr>ep_address = 0x0100007f, ep_port = 0xa00f\<rparr> 22 = ''127.0.0.1:4000''"
proof -
  have "MAX_IP_ENDPOINT_STRING_LENGTH \<le> 22"
    by (simp add: MAX_IP_ENDPOINT_STRING_LENGTH_def MAX_IP_ADDRESS_STRING_LENGTH_def)
  moreover have "ip_endpoint_to_string \<lparr>ep_address = 0x0100007f, ep_port = 0xa00f\<rparr> 22 = ''127.0.0.1:4000''"
    by (simp add: text_eval)
  ultimately show ?thesis
    using ip_endpoint_roundtrip [of 22 "\<lparr>ep_address = 0x0100007f, ep_port = 0xa00f\<rparr>"
        "\<lparr>ep_address = 0, ep_port = 0\<rparr>"] by simp
qed

text \<open>
  Every six-byte MAC address survives \<^verbatim>\<open>ether_addr_ntop\<close> into an \<^verbatim>\<open>ETHER_ADDR_STR_LEN\<close> buffer
  followed by \<^verbatim>\<open>ether_addr_pton\<close>, whatever the destination held before.
\<close>

theorem ether_addr_roundtrip:
  assumes "length n = 6" and "length m = 6" and "ETHER_ADDR_STR_LEN \<le> sz"
  shows "\<exists>p. ether_addr_ntop (Some n) (Some sz) = Some p \<and> length p < ETHER_ADDR_STR_LEN \<and>
    ether_addr_pton (Some p) (Some m) = (0, Some n)"
proof -
  have n: "n = [n ! 0, n ! 1, n ! 2, n ! 3, n ! 4, n ! 5]"
    using assms(1) by (auto simp: list_eq_iff_nth_eq less_Suc_eq numeral_eq_Suc)
  have "ether_parse [0..<6] 0 (ether_addr_text n) [] m = (6, [], n)"
    using ether_parse_text [OF assms(2), of "n ! 0" "n ! 1" "n ! 2" "n ! 3" "n ! 4" "n ! 5"] n
    by simp
  then show ?thesis
    using assms mac_fmt.render_fits [of n] mac_fmt.snprintf_exact [of n sz]
    by (simp add: ether_addr_ntop_def ether_addr_pton_def ETHER_ADDR_LEN_def)
qed

theorem ether_addr_roundtrip_witness:
  "\<exists>p. ether_addr_ntop (Some [0, 0, 0x5e, 0, 0x53, 1]) (Some 18) = Some p \<and>
     ether_addr_pton (Some p) (Some [0, 0, 0, 0, 0, 0]) = (0, Some [0, 0, 0x5e, 0, 0x53, 1])"
  using ether_addr_roundtrip [of "[0, 0, 0x5e, 0, 0x53, 1]" "[0, 0, 0, 0, 0, 0]" 18]
  by (auto simp: ETHER_ADDR_STR_LEN_def)

text \<open>
  \<^verbatim>\<open>ip_string_to_endpoint\<close> copies the text before the last colon into a 16-byte array without
  checking its length: it is memory safe when at most 15 characters precede the colon, and it writes
  outside the array whenever more than 16 do.
\<close>

theorem ip_string_to_endpoint_overflow:
  assumes "strrchr p CHR '':'' = Some (pre, post)"
  shows "(length pre < MAX_IP_ADDRESS_STRING_LENGTH \<longrightarrow> ip_string_to_endpoint p n \<noteq> None) \<and>
    (MAX_IP_ADDRESS_STRING_LENGTH < length pre \<longrightarrow> ip_string_to_endpoint p n = None)"
  using assms ip_parse_True_defined [of "[0, 1, 2, 3]" pre "store32 (ep_address n)"]
  by (auto simp: ip_string_to_endpoint_def ip_string_to_address_buf_def Let_def split_def
      simp del: ip_parse.simps store32_on.simps)

theorem ip_string_to_endpoint_overflow_witness:
  "ip_string_to_endpoint ''192.168.100.200:7'' \<lparr>ep_address = 0, ep_port = 0\<rparr> \<noteq> None \<and>
   ip_string_to_endpoint ''host.example.test:7'' \<lparr>ep_address = 0, ep_port = 0\<rparr> = None"
proof -
  have "strrchr ''192.168.100.200:7'' CHR '':'' = Some (''192.168.100.200'', ''7'')"
    and "strrchr ''host.example.test:7'' CHR '':'' = Some (''host.example.test'', ''7'')"
    by simp_all
  from this [THEN ip_string_to_endpoint_overflow, of "\<lparr>ep_address = 0, ep_port = 0\<rparr>"]
  show ?thesis by (simp add: MAX_IP_ADDRESS_STRING_LENGTH_def)
qed

end
