(* ===== verification/Net_State.thy ===== *)
theory Net_State
  imports Util_Queue Timeval Addr_Text
begin

text \<open>
  The core of \<^verbatim>\<open>src/lib/net.c\<close>: devices, interfaces, the protocol table with its input queues,
  timers and events, and the registration half of \<^verbatim>\<open>handler/interrupt.c\<close>. The global variables of
  these files are the record \<open>net_state\<close>; higher layers extend the record with their own globals.

  Objects that the code shares through pointers (devices, interfaces) live in stores indexed by
  address. The intrusive lists (\<^verbatim>\<open>devices\<close>, \<^verbatim>\<open>protocols\<close>, \<^verbatim>\<open>timers\<close>, \<^verbatim>\<open>events\<close>, \<^verbatim>\<open>irq_vec\<close>, the
  interfaces of a device), which the code builds by insertion at the head, are lists in traversal
  order. Function pointers are values of datatypes that name the functions the sources register.

  What the operating system decides is part of the state: which allocations succeed, what the clock
  reads, what system calls return, which frames wait to be read and which signals are pending.
\<close>

section \<open>Definitions\<close>

subsection \<open>Data\<close>

definition IFNAMSIZ :: nat where "IFNAMSIZ = 16"

definition NETWORK_DEVICE_TYPE_LOOPBACK :: u16 where "NETWORK_DEVICE_TYPE_LOOPBACK = 0x0001"
definition NETWORK_DEVICE_TYPE_ETHERNET :: u16 where "NETWORK_DEVICE_TYPE_ETHERNET = 0x0002"

definition NETWORK_DEVICE_FLAG_UP :: u16 where "NETWORK_DEVICE_FLAG_UP = 0x0001"
definition NETWORK_DEVICE_FLAG_LOOPBACK :: u16 where "NETWORK_DEVICE_FLAG_LOOPBACK = 0x0010"
definition NETWORK_DEVICE_FLAG_BROADCAST :: u16 where "NETWORK_DEVICE_FLAG_BROADCAST = 0x0020"
definition NETWORK_DEVICE_FLAG_NEED_ARP :: u16 where "NETWORK_DEVICE_FLAG_NEED_ARP = 0x0100"

definition NETWORK_DEVICE_ADDR_LEN :: nat where "NETWORK_DEVICE_ADDR_LEN = 16"

definition NETWORK_INTERFACE_FAMILY_IP :: int where "NETWORK_INTERFACE_FAMILY_IP = 1"

definition NETWORK_PROTOCOL_TYPE_IP :: u16 where "NETWORK_PROTOCOL_TYPE_IP = 0x0800"
definition NETWORK_PROTOCOL_TYPE_ARP :: u16 where "NETWORK_PROTOCOL_TYPE_ARP = 0x0806"

definition NETWORK_IRQ_SHARED :: int where "NETWORK_IRQ_SHARED = 1"

definition SIGUSR1 :: nat where "SIGUSR1 = 10"
definition SIGUSR2 :: nat where "SIGUSR2 = 12"
definition SIGALRM :: nat where "SIGALRM = 14"

record network_interface =
  ni_dev :: "nat option"
  ni_family :: int

text \<open>\<^verbatim>\<open>struct IP_INTERFACE\<close> starts with a \<^verbatim>\<open>struct network_interface\<close>, so the casts of the source are record extension.\<close>

record IP_INTERFACE = network_interface +
  if_unicast :: u32
  if_netmask :: u32
  if_broadcast :: u32

datatype dev_ops = loopback_ops | ether_tap_ops | ether_pcap_ops

record ether_priv =
  pv_name :: string
  pv_fd :: int
  pv_irq :: nat

record network_device =
  dev_interfaces :: "nat list"
  dev_index :: u32
  dev_name :: string
  dev_type :: u16
  dev_mtu :: u16
  dev_flags :: u16
  dev_header_len :: u16
  dev_address_len :: u16
  dev_address :: bytes
  dev_broadcast :: bytes
  dev_ops :: "dev_ops option"
  dev_priv :: "ether_priv option"

record net_queue_entry =
  nq_dev :: nat
  nq_len :: nat
  nq_data :: bytes

text \<open>The configuration requests the drivers make on an open descriptor.\<close>

datatype dev_request =
  TUNSETIFF string | SIOCGIFINDEX string | BIND_IFINDEX | SIOCGIFFLAGS | SIOCSIFFLAGS_PROMISC
  | F_SETOWN_SELF | F_SETFL_ASYNC | F_SETSIG nat

datatype proto_handler = arp_input_handler | ip_input_handler
datatype timer_handler = arp_timer_handler
datatype event_handler = udp_event_handler
datatype irq_handler = ether_tap_isr_handler | ether_pcap_isr_handler

record network_protocol =
  np_name :: string
  np_type :: u16
  np_queue :: "net_queue_entry lqueue"
  np_handler :: proto_handler

record network_timer =
  nt_name :: string
  nt_interval :: timeval
  nt_last :: timeval
  nt_handler :: timer_handler

record network_event =
  ne_handler :: event_handler
  ne_arg :: "nat option"

record irq_entry =
  ie_irq :: nat
  ie_handler :: irq_handler
  ie_flags :: int
  ie_name :: string
  ie_dev :: nat

text \<open>
  \<open>clock n\<close> is what the \<open>n\<close>-th \<^verbatim>\<open>gettimeofday\<close> returns; \<open>sys_ret n\<close>, \<open>sys_errno n\<close> and
  \<open>sys_data n\<close> are the result of the \<open>n\<close>-th system call, the error it reports when the result is
  \<open>-1\<close> and the bytes it stores for its caller. \<open>wire\<close> records the frames written with their file
  descriptor, newest first, \<open>requests\<close> the configuration requests made, and \<open>rx fd\<close> the frames waiting to be read. \<open>next_index\<close> is the static
  \<^verbatim>\<open>index\<close> of \<^verbatim>\<open>network_device_register\<close>.
\<close>

record net_state = alloc_state +
  clock :: "nat \<Rightarrow> timeval"
  clock_n :: nat
  sys_ret :: "nat \<Rightarrow> int"
  sys_errno :: "nat \<Rightarrow> int"
  sys_data :: "nat \<Rightarrow> bytes"
  sys_n :: nat
  errno :: int
  requests :: "(int \<times> dev_request) list"
  wire :: "(int \<times> bytes) list"
  rx :: "int \<Rightarrow> bytes list"
  pending :: "nat list"
  sigmask :: "nat list"
  irq_vec :: "irq_entry list"
  dev_heap :: "nat \<rightharpoonup> network_device"
  if_heap :: "nat \<rightharpoonup> IP_INTERFACE"
  devices :: "nat list"
  next_index :: u32
  protocols :: "network_protocol list"
  timers :: "network_timer list"
  events :: "network_event list"

subsection \<open>Operating system\<close>

definition gettimeofday :: "'a net_state_scheme \<Rightarrow> timeval \<times> 'a net_state_scheme" where
  "gettimeofday s = (clock s (clock_n s), s\<lparr>clock_n := Suc (clock_n s)\<rparr>)"

definition syscall :: "'a net_state_scheme \<Rightarrow> int \<times> 'a net_state_scheme" where
  "syscall s =
     (let r = sys_ret s (sys_n s)
      in (r, s\<lparr>errno := (if r = -1 then sys_errno s (sys_n s) else errno s), sys_n := Suc (sys_n s)\<rparr>))"

text \<open>A standard signal that is already pending is not queued a second time.\<close>

definition raise_signal :: "nat \<Rightarrow> 'a net_state_scheme \<Rightarrow> 'a net_state_scheme" where
  "raise_signal sig s = (if sig \<in> set (pending s) then s else s\<lparr>pending := pending s @ [sig]\<rparr>)"

definition raise_softirq :: "'a net_state_scheme \<Rightarrow> 'a net_state_scheme" where
  "raise_softirq = raise_signal SIGUSR1"

definition network_interrupt :: "'a net_state_scheme \<Rightarrow> int \<times> 'a net_state_scheme" where
  "network_interrupt s = (0, raise_signal SIGUSR2 s)"

text \<open>\<^verbatim>\<open>strncpy(dst, src, sizeof(dst) - 1)\<close> into a zeroed 16-byte array.\<close>

definition strncpy16 :: "string \<Rightarrow> string" where
  "strncpy16 name = take 15 name"

subsection \<open>Devices and interfaces\<close>

text \<open>The zeroed memory of a new \<^verbatim>\<open>struct network_device\<close>.\<close>

definition zero_device :: network_device where
  "zero_device =
    \<lparr>dev_interfaces = [], dev_index = 0, dev_name = [], dev_type = 0, dev_mtu = 0, dev_flags = 0,
     dev_header_len = 0, dev_address_len = 0, dev_address = replicate 16 0,
     dev_broadcast = replicate 16 0, dev_ops = None, dev_priv = None\<rparr>"

definition network_device_allocate ::
  "(network_device \<Rightarrow> network_device) option \<Rightarrow> 'a net_state_scheme \<Rightarrow> nat option \<times> 'a net_state_scheme" where
  "network_device_allocate setup s =
     (case memory_alloc s of
        (None, s) \<Rightarrow> (None, s)
      | (Some dev, s) \<Rightarrow>
          (let d = (case setup of None \<Rightarrow> zero_device | Some f \<Rightarrow> f zero_device)
           in (Some dev, s\<lparr>dev_heap := (dev_heap s)(dev \<mapsto> d)\<rparr>)))"

text \<open>\<^verbatim>\<open>%d\<close> prints the unsigned index as a signed number.\<close>

definition show_int :: "int \<Rightarrow> string" where
  "show_int i = (if i < 0 then ''-'' @ show_dec (nat (- i)) else show_dec (nat i))"

definition network_device_register :: "nat \<Rightarrow> 'a net_state_scheme \<Rightarrow> (int \<times> 'a net_state_scheme) option" where
  "network_device_register dev s = do {
     d \<leftarrow> dev_heap s dev;
     let index = next_index s;
     let d = d\<lparr>dev_index := index, dev_name := snprintf IFNAMSIZ (''net'' @ show_int (sint index))\<rparr>;
     Some (0, s\<lparr>next_index := index + 1, dev_heap := (dev_heap s)(dev \<mapsto> d), devices := dev # devices s\<rparr>)
   }"

text \<open>\<open>iface_find\<close> is the loop both functions below run over the interfaces of a device.\<close>

fun iface_find :: "(nat \<rightharpoonup> IP_INTERFACE) \<Rightarrow> nat list \<Rightarrow> int \<Rightarrow> nat option option" where
  "iface_find m [] family = Some None"
| "iface_find m (entry # es) family =
     (case m entry of
        None \<Rightarrow> None
      | Some i \<Rightarrow> if ni_family i = family then Some (Some entry) else iface_find m es family)"

definition network_device_add_interface :: "nat \<Rightarrow> nat \<Rightarrow> 'a net_state_scheme \<Rightarrow> (int \<times> 'a net_state_scheme) option" where
  "network_device_add_interface dev iface s = do {
     d \<leftarrow> dev_heap s dev;
     i \<leftarrow> if_heap s iface;
     entry \<leftarrow> iface_find (if_heap s) (dev_interfaces d) (ni_family i);
     (case entry of
        Some _ \<Rightarrow> Some (-1, s)
      | None \<Rightarrow>
          Some (0, s\<lparr>if_heap := (if_heap s)(iface \<mapsto> i\<lparr>ni_dev := Some dev\<rparr>),
                     dev_heap := (dev_heap s)(dev \<mapsto> d\<lparr>dev_interfaces := iface # dev_interfaces d\<rparr>)\<rparr>))
   }"

definition network_device_get_interface :: "nat \<Rightarrow> int \<Rightarrow> 'a net_state_scheme \<Rightarrow> nat option option" where
  "network_device_get_interface dev family s = do {
     d \<leftarrow> dev_heap s dev;
     iface_find (if_heap s) (dev_interfaces d) family
   }"

definition NETWORK_DEVICE_IS_UP :: "network_device \<Rightarrow> bool" where
  "NETWORK_DEVICE_IS_UP d \<longleftrightarrow> dev_flags d AND NETWORK_DEVICE_FLAG_UP \<noteq> 0"

subsection \<open>Protocols and their input queues\<close>

definition network_protocol_register ::
  "string \<Rightarrow> u16 \<Rightarrow> proto_handler \<Rightarrow> 'a net_state_scheme \<Rightarrow> int \<times> 'a net_state_scheme" where
  "network_protocol_register name type handler s =
     (if find_slot (\<lambda>proto. np_type proto = type) (protocols s) \<noteq> None then (-1, s)
      else case memory_alloc s of
        (None, s) \<Rightarrow> (-1, s)
      | (Some _, s) \<Rightarrow>
          (0, s\<lparr>protocols := \<lparr>np_name = strncpy16 name, np_type = type, np_queue = lqueue_init,
                              np_handler = handler\<rparr> # protocols s\<rparr>))"

definition network_protocol_name :: "u16 \<Rightarrow> 'a net_state_scheme \<Rightarrow> string" where
  "network_protocol_name type s =
     (case find_slot (\<lambda>proto. np_type proto = type) (protocols s) of
        Some i \<Rightarrow> np_name (protocols s ! i)
      | None \<Rightarrow> ''UNKNOWN'')"

definition network_input_handler ::
  "u16 \<Rightarrow> bytes \<Rightarrow> nat \<Rightarrow> nat \<Rightarrow> 'a net_state_scheme \<Rightarrow> (int \<times> 'a net_state_scheme) option" where
  "network_input_handler type data len dev s =
     (case find_slot (\<lambda>proto. np_type proto = type) (protocols s) of
        None \<Rightarrow> Some (0, s)
      | Some i \<Rightarrow>
          (case memory_alloc s of
             (None, s) \<Rightarrow> Some (-1, s)
           | (Some _, s) \<Rightarrow> do {
               copy \<leftarrow> mem_read data 0 len;
               let entry = \<lparr>nq_dev = dev, nq_len = len, nq_data = copy\<rparr>;
               let proto = protocols s ! i;
               (case lqueue_push s (np_queue proto) entry of
                  (None, s, q) \<Rightarrow> Some (-1, s)
                | (Some _, s, q) \<Rightarrow> do {
                    _ \<leftarrow> dev_heap s dev;
                    Some (0, raise_softirq (s\<lparr>protocols := (protocols s)[i := proto\<lparr>np_queue := q\<rparr>]\<rparr>))
                  })
             }))"

subsection \<open>Timers, events, interrupts\<close>

definition network_timer_register ::
  "string \<Rightarrow> timeval \<Rightarrow> timer_handler \<Rightarrow> 'a net_state_scheme \<Rightarrow> int \<times> 'a net_state_scheme" where
  "network_timer_register name interval handler s =
     (case memory_alloc s of
        (None, s) \<Rightarrow> (-1, s)
      | (Some _, s) \<Rightarrow>
          (let (now, s) = gettimeofday s
           in (0, s\<lparr>timers := \<lparr>nt_name = strncpy16 name, nt_interval = interval, nt_last = now,
                               nt_handler = handler\<rparr> # timers s\<rparr>)))"

definition network_event_subscribe ::
  "event_handler \<Rightarrow> nat option \<Rightarrow> 'a net_state_scheme \<Rightarrow> int \<times> 'a net_state_scheme" where
  "network_event_subscribe handler arg s =
     (case memory_alloc s of
        (None, s) \<Rightarrow> (-1, s)
      | (Some _, s) \<Rightarrow> (0, s\<lparr>events := \<lparr>ne_handler = handler, ne_arg = arg\<rparr> # events s\<rparr>))"

text \<open>A signal set is the list of its members.\<close>

definition sigaddset :: "nat \<Rightarrow> nat list \<Rightarrow> nat list" where
  "sigaddset sig m = (if sig \<in> set m then m else m @ [sig])"

definition intr_init :: "'a net_state_scheme \<Rightarrow> int \<times> 'a net_state_scheme" where
  "intr_init s = (0, s\<lparr>sigmask := sigaddset SIGALRM (sigaddset SIGUSR2 (sigaddset SIGUSR1 []))\<rparr>)"

definition intr_request_irq ::
  "nat \<Rightarrow> irq_handler \<Rightarrow> int \<Rightarrow> string \<Rightarrow> nat \<Rightarrow> 'a net_state_scheme \<Rightarrow> int \<times> 'a net_state_scheme" where
  "intr_request_irq irq handler flags name dev s =
     (if find_slot (\<lambda>e. ie_irq e = irq \<and>
           (ie_flags e XOR NETWORK_IRQ_SHARED \<noteq> 0 \<or> flags XOR NETWORK_IRQ_SHARED \<noteq> 0)) (irq_vec s) \<noteq> None
      then (-1, s)
      else case memory_alloc s of
        (None, s) \<Rightarrow> (-1, s)
      | (Some _, s) \<Rightarrow>
          (0, s\<lparr>irq_vec := \<lparr>ie_irq = irq, ie_handler = handler, ie_flags = flags, ie_name = strncpy16 name,
                            ie_dev = dev\<rparr> # irq_vec s,
                sigmask := sigaddset irq (sigmask s)\<rparr>))"

section \<open>Invariant\<close>

text \<open>
  What every operation of the stack keeps true of the shared objects: registered devices exist and
  are complete, an interface and its device point at each other, a device has at most one interface
  of a family, a protocol type is registered once, and a queued packet records its own length and
  a registered device.
\<close>

definition wf_device :: "network_device \<Rightarrow> bool" where
  "wf_device d \<longleftrightarrow>
     length (dev_address d) = NETWORK_DEVICE_ADDR_LEN \<and> length (dev_broadcast d) = NETWORK_DEVICE_ADDR_LEN \<and>
     unat (dev_address_len d) \<le> NETWORK_DEVICE_ADDR_LEN \<and>
     (case dev_ops d of
        None \<Rightarrow> False
      | Some loopback_ops \<Rightarrow> dev_flags d AND NETWORK_DEVICE_FLAG_NEED_ARP = 0
      | Some _ \<Rightarrow> dev_priv d \<noteq> None \<and> unat (dev_mtu d) \<le> 1500 \<and> dev_type d = NETWORK_DEVICE_TYPE_ETHERNET)"

definition wf_ifaces :: "'a net_state_scheme \<Rightarrow> bool" where
  "wf_ifaces s \<longleftrightarrow>
     (\<forall>p \<in> set (devices s). \<forall>d. dev_heap s p = Some d \<longrightarrow>
        distinct (dev_interfaces d) \<and> distinct (map (\<lambda>i. map_option ni_family (if_heap s i)) (dev_interfaces d)) \<and>
        (\<forall>i \<in> set (dev_interfaces d). \<exists>f. if_heap s i = Some f \<and> ni_dev f = Some p)) \<and>
     (\<forall>i f p. if_heap s i = Some f \<longrightarrow> ni_dev f = Some p \<longrightarrow>
        p \<in> set (devices s) \<and> (\<forall>d. dev_heap s p = Some d \<longrightarrow> i \<in> set (dev_interfaces d)))"

definition wf_queue :: "nat list \<Rightarrow> net_queue_entry lqueue \<Rightarrow> bool" where
  "wf_queue devs q \<longleftrightarrow>
     q_num q = of_nat (length (q_items q)) \<and>
     (\<forall>e \<in> set (q_items q). nq_len e = length (nq_data e) \<and> nq_dev e \<in> set devs)"

definition wf_net :: "'a net_state_scheme \<Rightarrow> bool" where
  "wf_net s \<longleftrightarrow>
     distinct (devices s) \<and> (\<forall>p \<in> set (devices s). \<exists>d. dev_heap s p = Some d \<and> wf_device d) \<and>
     (\<forall>p \<in> dom (dev_heap s). p < mem_n s) \<and> (\<forall>i \<in> dom (if_heap s). i < mem_n s) \<and>
     wf_ifaces s \<and> distinct (map np_type (protocols s)) \<and>
     (\<forall>proto \<in> set (protocols s). wf_queue (devices s) (np_queue proto))"

text \<open>No lost wake-up: while a packet waits in an input queue, the software interrupt is pending.\<close>

definition softirq_ok :: "'a net_state_scheme \<Rightarrow> bool" where
  "softirq_ok s \<longleftrightarrow> (\<forall>proto \<in> set (protocols s). q_items (np_queue proto) \<noteq> [] \<longrightarrow> SIGUSR1 \<in> set (pending s))"

text \<open>
  What the output path may change: counters, pending signals, the wire and, through the loopback
  device, the tail of input queues. Everything registered stays as it was.
\<close>

definition proto_ext :: "network_protocol \<Rightarrow> network_protocol \<Rightarrow> bool" where
  "proto_ext p p' \<longleftrightarrow>
     np_name p' = np_name p \<and> np_type p' = np_type p \<and> np_handler p' = np_handler p \<and>
     (\<exists>es. q_items (np_queue p') = q_items (np_queue p) @ es)"

definition net_ext :: "'a net_state_scheme \<Rightarrow> 'a net_state_scheme \<Rightarrow> bool" where
  "net_ext s s' \<longleftrightarrow>
     mem_ok s' = mem_ok s \<and> mem_n s \<le> mem_n s' \<and> clock s' = clock s \<and> clock_n s \<le> clock_n s' \<and>
     sys_ret s' = sys_ret s \<and> rx s' = rx s \<and> set (pending s) \<subseteq> set (pending s') \<and>
     sigmask s' = sigmask s \<and> irq_vec s' = irq_vec s \<and> dev_heap s' = dev_heap s \<and>
     if_heap s' = if_heap s \<and> devices s' = devices s \<and> next_index s' = next_index s \<and>
     timers s' = timers s \<and> events s' = events s \<and>
     list_all2 proto_ext (protocols s) (protocols s') \<and>
     (wf_net s \<longrightarrow> wf_net s') \<and> (softirq_ok s \<longrightarrow> softirq_ok s')"

text \<open>\<open>net_out\<close> says moreover that the state of the layers above is untouched.\<close>

definition net_out :: "'a net_state_scheme \<Rightarrow> 'a net_state_scheme \<Rightarrow> bool" where
  "net_out s s' \<longleftrightarrow> net_ext s s' \<and> net_state.more s' = net_state.more s"

section \<open>Lemmas\<close>

subsection \<open>Frames of the output path\<close>

lemma proto_ext_refl [simp]: "proto_ext p p"
  by (simp add: proto_ext_def)

lemma proto_ext_trans: "proto_ext p q \<Longrightarrow> proto_ext q r \<Longrightarrow> proto_ext p r"
  by (auto simp: proto_ext_def)

lemma net_ext_refl [simp, intro]: "net_ext s s"
  by (simp add: net_ext_def list_all2_same)

lemma net_ext_trans [trans]: "net_ext s t \<Longrightarrow> net_ext t u \<Longrightarrow> net_ext s u"
  unfolding net_ext_def by (auto intro: list_all2_trans [OF proto_ext_trans])

lemma net_out_refl [simp, intro]: "net_out s s"
  by (simp add: net_out_def)

lemma net_out_trans [trans]: "net_out s t \<Longrightarrow> net_out t u \<Longrightarrow> net_out s u"
  unfolding net_out_def by (auto intro: net_ext_trans)

lemma net_outD: "net_out s s' \<Longrightarrow> net_ext s s'"
  by (simp add: net_out_def)

lemma net_ext_same [frame_simps]:
  assumes "net_ext s s'"
  shows "dev_heap s' = dev_heap s" "if_heap s' = if_heap s" "devices s' = devices s"
    "timers s' = timers s" "events s' = events s" "irq_vec s' = irq_vec s" "mem_ok s' = mem_ok s"
    "clock s' = clock s" "next_index s' = next_index s" "sigmask s' = sigmask s" "rx s' = rx s"
  using assms by (simp_all add: net_ext_def)

lemma net_ext_wf: "net_ext s s' \<Longrightarrow> wf_net s \<Longrightarrow> wf_net s'"
  by (simp add: net_ext_def)

lemma net_ext_softirq: "net_ext s s' \<Longrightarrow> softirq_ok s \<Longrightarrow> softirq_ok s'"
  by (simp add: net_ext_def)

text \<open>A step that changes none of the fields the invariant reads.\<close>

lemma wf_net_mono:
  assumes "wf_net s" "mem_n s \<le> mem_n s'" "dev_heap s' = dev_heap s" "if_heap s' = if_heap s"
    "devices s' = devices s" "distinct (map np_type (protocols s'))"
    "\<forall>proto \<in> set (protocols s'). wf_queue (devices s) (np_queue proto)"
  shows "wf_net s'"
proof -
  have "wf_ifaces s' = wf_ifaces s"
    using assms(3-5) by (simp only: wf_ifaces_def)
  moreover have "p < mem_n s \<Longrightarrow> p < mem_n s'" for p
    using assms(2) by (rule less_le_trans [rotated])
  ultimately show ?thesis
    using assms(1,3-7) unfolding wf_net_def by (simp add: Ball_def)
qed

lemma net_ext_quiet:
  assumes "mem_ok s' = mem_ok s" "mem_n s \<le> mem_n s'" "clock s' = clock s" "clock_n s \<le> clock_n s'"
    "sys_ret s' = sys_ret s" "rx s' = rx s" "pending s' = pending s" "sigmask s' = sigmask s"
    "irq_vec s' = irq_vec s" "dev_heap s' = dev_heap s" "if_heap s' = if_heap s" "devices s' = devices s"
    "next_index s' = next_index s" "timers s' = timers s" "events s' = events s"
    "protocols s' = protocols s"
  shows "net_ext s s'"
proof -
  have "wf_net s \<Longrightarrow> wf_net s'"
    using assms by (intro wf_net_mono [of s s']) (simp_all add: wf_net_def)
  moreover have "softirq_ok s \<Longrightarrow> softirq_ok s'"
    using assms by (simp add: softirq_ok_def)
  ultimately show ?thesis
    using assms by (simp add: net_ext_def list_all2_same)
qed

lemma memory_alloc_out: "memory_alloc s = (r, s') \<Longrightarrow> net_out s s'"
  by (auto simp: memory_alloc_def net_out_def intro!: net_ext_quiet)

lemma memory_alloc_same:
  assumes "memory_alloc s = (r, s')"
  shows "dev_heap s' = dev_heap s" "if_heap s' = if_heap s" "devices s' = devices s"
    "protocols s' = protocols s" "pending s' = pending s" "mem_n s' = Suc (mem_n s)"
    "timers s' = timers s" "irq_vec s' = irq_vec s" "events s' = events s" "sigmask s' = sigmask s"
    "next_index s' = next_index s" 
  using assms by (auto simp: memory_alloc_def)

lemma gettimeofday_out: "gettimeofday s = (r, s') \<Longrightarrow> net_out s s'"
  by (auto simp: gettimeofday_def net_out_def intro!: net_ext_quiet)

lemma syscall_out: "syscall s = (r, s') \<Longrightarrow> net_out s s'"
  by (auto simp: syscall_def Let_def net_out_def intro!: net_ext_quiet)

lemma raise_signal_out: "net_out s (raise_signal sig s)"
proof -
  have "wf_net s \<Longrightarrow> wf_net (s\<lparr>pending := pending s @ [sig]\<rparr>)"
    by (rule wf_net_mono [of s]) (simp_all add: wf_net_def)
  moreover have "softirq_ok s \<Longrightarrow> softirq_ok (s\<lparr>pending := pending s @ [sig]\<rparr>)"
    by (auto simp: softirq_ok_def)
  ultimately show ?thesis
    by (auto simp: raise_signal_def net_out_def net_ext_def list_all2_same)
qed

lemma raise_signal_pending: "sig \<in> set (pending (raise_signal sig s))"
  by (simp add: raise_signal_def)

lemma raise_signal_protocols [simp]: "protocols (raise_signal sig s) = protocols s"
  by (simp add: raise_signal_def)

subsection \<open>Input queues\<close>

text \<open>The two allocations of \<open>network_input_handler\<close> and what follows when both succeed.\<close>

definition input_enqueue :: "nat \<Rightarrow> net_queue_entry \<Rightarrow> 'a net_state_scheme \<Rightarrow> 'a net_state_scheme" where
  "input_enqueue i e s =
     raise_softirq (s\<lparr>mem_n := mem_n s + 2,
       protocols := (protocols s)[i := (protocols s ! i)\<lparr>np_queue := (np_queue (protocols s ! i))
         \<lparr>q_items := q_items (np_queue (protocols s ! i)) @ [e], q_num := q_num (np_queue (protocols s ! i)) + 1\<rparr>\<rparr>]\<rparr>)"

lemma network_input_handler_cases [consumes 2, case_names unknown nomem queued]:
  assumes dev: "dev_heap s dev \<noteq> None" and len: "len \<le> length data"
  obtains
    (unknown) "find_slot (\<lambda>proto. np_type proto = type) (protocols s) = None"
      "network_input_handler type data len dev s = Some (0, s)"
  | (nomem) i n where "find_slot (\<lambda>proto. np_type proto = type) (protocols s) = Some i"
      "\<not> (mem_ok s (mem_n s) \<and> mem_ok s (Suc (mem_n s)))"
      "network_input_handler type data len dev s = Some (-1, s\<lparr>mem_n := mem_n s + n\<rparr>)"
  | (queued) i where "find_slot (\<lambda>proto. np_type proto = type) (protocols s) = Some i"
      "mem_ok s (mem_n s)" "mem_ok s (Suc (mem_n s))"
      "network_input_handler type data len dev s =
         Some (0, input_enqueue i \<lparr>nq_dev = dev, nq_len = len, nq_data = take len data\<rparr> s)"
proof (cases "find_slot (\<lambda>proto. np_type proto = type) (protocols s)")
  case None
  then show thesis by (intro unknown) (simp_all add: network_input_handler_def)
next
  case (Some i)
  consider "\<not> mem_ok s (mem_n s)" | "mem_ok s (mem_n s)" "\<not> mem_ok s (Suc (mem_n s))"
    | "mem_ok s (mem_n s)" "mem_ok s (Suc (mem_n s))" by blast
  then show thesis
  proof cases
    case 1
    with Some show thesis
      by (intro nomem [of i 1]) (simp_all add: network_input_handler_def memory_alloc_def)
  next
    case 2
    with Some len show thesis
      by (intro nomem [of i 2])
        (simp_all add: network_input_handler_def memory_alloc_def lqueue_push_def)
  next
    case 3
    with Some len dev show thesis
      by (intro queued [of i])
        (auto simp: network_input_handler_def memory_alloc_def lqueue_push_def input_enqueue_def Let_def)
  qed
qed

lemma wf_queue_push:
  "wf_queue devs q \<Longrightarrow> nq_len e = length (nq_data e) \<Longrightarrow> nq_dev e \<in> set devs \<Longrightarrow>
   wf_queue devs (q\<lparr>q_items := q_items q @ [e], q_num := q_num q + 1\<rparr>)"
  by (auto simp: wf_queue_def)

lemma map_np_type_queue [simp]:
  "i < length ps \<Longrightarrow> map np_type (ps[i := (ps ! i)\<lparr>np_queue := q\<rparr>]) = map np_type ps"
  by (simp add: map_update) (metis length_map list_update_id nth_map)

lemma input_enqueue_out:
  assumes i: "i < length (protocols s)" and e: "nq_len e = length (nq_data e)" "nq_dev e \<in> set (devices s)"
  shows "net_out s (input_enqueue i e s)"
proof -
  let ?q = "np_queue (protocols s ! i)"
  let ?q' = "?q\<lparr>q_items := q_items ?q @ [e], q_num := q_num ?q + 1\<rparr>"
  let ?ps = "(protocols s)[i := (protocols s ! i)\<lparr>np_queue := ?q'\<rparr>]"
  let ?t = "s\<lparr>mem_n := mem_n s + 2, protocols := ?ps\<rparr>"
  have ext: "list_all2 proto_ext (protocols s) ?ps"
    using i by (auto simp: list_all2_conv_all_nth nth_list_update proto_ext_def)
  have wf: "wf_net s \<Longrightarrow> wf_net ?t"
    using i e by (intro wf_net_mono [of s ?t])
      (auto simp: wf_net_def dest!: set_update_subset_insert [THEN subsetD] intro!: wf_queue_push)
  let ?u = "raise_signal SIGUSR1 ?t"
  have soft: "softirq_ok ?u"
    using raise_signal_pending [of SIGUSR1 ?t] by (simp add: softirq_ok_def)
  have u: "net_ext ?t ?u" "net_state.more ?u = net_state.more ?t" "protocols ?u = ?ps"
    using raise_signal_out [of ?t SIGUSR1] by (simp_all add: net_out_def)
  from u(1) have "wf_net s \<longrightarrow> wf_net ?u" using wf by (blast intro: net_ext_wf)
  moreover from u(1) have "set (pending s) \<subseteq> set (pending ?u)" "mem_n s \<le> mem_n ?u" "clock_n s \<le> clock_n ?u"
    "sys_ret ?u = sys_ret s" by (auto simp: net_ext_def)
  ultimately have "net_out s ?u"
    using ext soft u(2,3) net_ext_same [OF u(1)] by (simp add: net_out_def net_ext_def)
  then show ?thesis
    by (simp add: input_enqueue_def raise_softirq_def)
qed

lemma network_input_handler_out:
  assumes "wf_net s" "dev \<in> set (devices s)" "len \<le> length data"
  shows "\<exists>r s'. network_input_handler type data len dev s = Some (r, s') \<and> net_out s s'"
proof -
  have "dev_heap s dev \<noteq> None"
    using assms by (auto simp: wf_net_def)
  then show ?thesis
    using assms(3)
  proof (cases rule: network_input_handler_cases [where type = type])
    case (nomem i n)
    moreover have "net_out s (s\<lparr>mem_n := mem_n s + n\<rparr>)"
      by (simp add: net_out_def net_ext_quiet)
    ultimately show ?thesis by blast
  next
    case (queued i)
    moreover from queued(1) assms
    have "net_out s (input_enqueue i \<lparr>nq_dev = dev, nq_len = len, nq_data = take len data\<rparr> s)"
      by (intro input_enqueue_out) simp_all
    ultimately show ?thesis by blast
  next
    case unknown
    then show ?thesis by auto
  qed
qed

subsection \<open>What is added to input queues\<close>

text \<open>Queues grow at the end only, by packets that satisfy \<open>P\<close> for the type of the queue.\<close>

definition queue_adds :: "(u16 \<Rightarrow> bytes \<Rightarrow> bool) \<Rightarrow> 'a net_state_scheme \<Rightarrow> 'a net_state_scheme \<Rightarrow> bool" where
  "queue_adds P s s' \<longleftrightarrow>
     list_all2 (\<lambda>p p'. np_type p' = np_type p \<and> np_handler p' = np_handler p \<and>
       (\<exists>es. q_items (np_queue p') = q_items (np_queue p) @ es \<and> (\<forall>e \<in> set es. P (np_type p) (nq_data e)))) (protocols s) (protocols s')"

lemma queue_adds_same: "protocols s' = protocols s \<Longrightarrow> queue_adds P s s'"
  by (simp add: queue_adds_def list_all2_same)

lemma queue_adds_trans:
  assumes "queue_adds P s t" "queue_adds P t u"
  shows "queue_adds P s u"
proof -
  let ?R = "\<lambda>p p'. np_type p' = np_type p \<and> np_handler p' = np_handler p \<and>
       (\<exists>es. q_items (np_queue p') = q_items (np_queue p) @ es \<and> (\<forall>e \<in> set es. P (np_type p) (nq_data e)))"
  have "?R p r" if "?R p q" "?R q r" for p q r :: network_protocol
  proof -
    from that obtain es fs where "q_items (np_queue q) = q_items (np_queue p) @ es" "\<forall>e \<in> set es. P (np_type p) (nq_data e)"
      "q_items (np_queue r) = q_items (np_queue q) @ fs" "\<forall>e \<in> set fs. P (np_type p) (nq_data e)" by auto
    with that show ?thesis by (auto intro: exI [of _ "es @ fs"])
  qed
  then show ?thesis using assms unfolding queue_adds_def by (rule list_all2_trans [where ?P1.0 = ?R and ?P2.0 = ?R])
qed

lemma queue_adds_mono: "queue_adds P s s' \<Longrightarrow> (\<And>t d. P t d \<Longrightarrow> Q t d) \<Longrightarrow> queue_adds Q s s'"
  unfolding queue_adds_def by (erule list_all2_mono) blast

lemma queue_adds_from: "queue_adds P t s' \<Longrightarrow> protocols t = protocols s \<Longrightarrow> queue_adds P s s'"
  by (simp add: queue_adds_def)

lemma queue_adds_nth:
  assumes "queue_adds P s s'" "i < length (protocols s)"
  obtains es where "length (protocols s') = length (protocols s)" "np_type (protocols s' ! i) = np_type (protocols s ! i)"
    "np_handler (protocols s' ! i) = np_handler (protocols s ! i)"
    "q_items (np_queue (protocols s' ! i)) = q_items (np_queue (protocols s ! i)) @ es"
    "\<forall>e \<in> set es. P (np_type (protocols s ! i)) (nq_data e)"
proof -
  have l: "length (protocols s') = length (protocols s)" using assms(1) by (simp add: queue_adds_def list_all2_lengthD)
  from list_all2_nthD [OF assms(1) [unfolded queue_adds_def] assms(2)] l that show thesis by blast
qed

lemma network_input_handler_adds:
  assumes "network_input_handler type data len dev s = Some (r, s')"
  shows "queue_adds (\<lambda>t d. t = type \<and> d = take len data) s s'"
proof (cases "find_slot (\<lambda>proto. np_type proto = type) (protocols s)")
  case None
  with assms show ?thesis by (simp add: network_input_handler_def queue_adds_same)
next
  case (Some i)
  let ?p = "protocols s ! i"
  have i: "i < length (protocols s)" "np_type ?p = type" using find_slot_SomeD [OF Some] by auto
  consider "protocols s' = protocols s"
    | "protocols s' = (protocols s)[i := ?p\<lparr>np_queue := (np_queue ?p)\<lparr>q_items := q_items (np_queue ?p) @ [\<lparr>nq_dev = dev, nq_len = len, nq_data = take len data\<rparr>],
        q_num := q_num (np_queue ?p) + 1\<rparr>\<rparr>]"
    using assms Some by (auto simp: network_input_handler_def memory_alloc_def lqueue_push_def mem_read_def raise_softirq_def Let_def
        bind_eq_Some_conv split: if_splits)
  then show ?thesis
  proof cases
    case 2
    then show ?thesis
      using i by (auto simp: queue_adds_def list_all2_conv_all_nth nth_list_update)
  qed (rule queue_adds_same)
qed

subsection \<open>Registration\<close>

lemma wf_device_update [simp]:
  "wf_device (d\<lparr>dev_index := i\<rparr>) = wf_device d" "wf_device (d\<lparr>dev_name := n\<rparr>) = wf_device d"
  "wf_device (d\<lparr>dev_interfaces := fs\<rparr>) = wf_device d"
  by (simp_all add: wf_device_def split: option.split dev_ops.split)

lemma wf_device_heap: "wf_net s \<Longrightarrow> dev \<in> set (devices s) \<Longrightarrow> \<exists>d. dev_heap s dev = Some d \<and> wf_device d"
  by (simp add: wf_net_def)

lemma wf_iface_dev:
  "wf_net s \<Longrightarrow> if_heap s i = Some f \<Longrightarrow> ni_dev f = Some p \<Longrightarrow> p \<in> set (devices s)"
  by (auto simp: wf_net_def wf_ifaces_def)

lemma network_device_allocate_wf:
  assumes wf: "wf_net s" and alloc: "network_device_allocate setup s = (r, s')"
  shows "wf_net s' \<and> devices s' = devices s \<and>
    (\<forall>dev. r = Some dev \<longrightarrow> dev \<notin> set (devices s) \<and>
       dev_heap s' dev = Some ((case setup of None \<Rightarrow> zero_device | Some f \<Rightarrow> f zero_device)))"
proof -
  let ?d = "case setup of None \<Rightarrow> zero_device | Some f \<Rightarrow> f zero_device"
  have fresh: "mem_n s \<notin> set (devices s)"
    using wf by (auto simp: wf_net_def)
  have "wf_net (s\<lparr>mem_n := Suc (mem_n s)\<rparr>)"
    using wf by (rule wf_net_mono) (use wf in \<open>simp_all add: wf_net_def\<close>)
  moreover have "wf_net (s\<lparr>mem_n := Suc (mem_n s), dev_heap := (dev_heap s)(mem_n s \<mapsto> ?d)\<rparr>)"
  proof -
    have "wf_ifaces (s\<lparr>mem_n := Suc (mem_n s), dev_heap := (dev_heap s)(mem_n s \<mapsto> ?d)\<rparr>)"
      using wf fresh unfolding wf_net_def wf_ifaces_def by auto
    then show ?thesis
      using wf fresh unfolding wf_net_def by (auto simp: less_Suc_eq)
  qed
  ultimately show ?thesis
    using alloc fresh
    by (cases "mem_ok s (mem_n s)") (auto simp: network_device_allocate_def memory_alloc_def)
qed

lemma network_device_register_wf:
  assumes wf: "wf_net s" and new: "dev \<notin> set (devices s)"
    and d: "dev_heap s dev = Some d" "wf_device d" "dev_interfaces d = []"
  shows "\<exists>s'. network_device_register dev s = Some (0, s') \<and> wf_net s' \<and> devices s' = dev # devices s"
proof -
  let ?d = "d\<lparr>dev_index := next_index s, dev_name := snprintf IFNAMSIZ (''net'' @ show_int (sint (next_index s)))\<rparr>"
  let ?s = "s\<lparr>next_index := next_index s + 1, dev_heap := (dev_heap s)(dev \<mapsto> ?d), devices := dev # devices s\<rparr>"
  have "wf_device ?d"
    using d(2) by simp
  moreover have "wf_ifaces ?s"
    using wf new d(3) unfolding wf_net_def wf_ifaces_def by auto
  ultimately have "wf_net ?s"
    using wf new d(1) unfolding wf_net_def wf_queue_def by auto
  then show ?thesis
    using d(1) by (simp add: network_device_register_def Let_def)
qed

lemma iface_find_spec:
  assumes "\<forall>i \<in> set es. m i \<noteq> None"
  shows "\<exists>r. iface_find m es family = Some r \<and>
    (case r of
       None \<Rightarrow> \<forall>i \<in> set es. map_option ni_family (m i) \<noteq> Some family
     | Some i \<Rightarrow> i \<in> set es \<and> map_option ni_family (m i) = Some family)"
  using assms by (induction es) (force split: option.splits)+

lemma network_device_get_interface_spec:
  assumes "wf_net s" "dev \<in> set (devices s)"
  shows "\<exists>r. network_device_get_interface dev family s = Some r \<and>
    (\<forall>i. r = Some i \<longrightarrow> (\<exists>f. if_heap s i = Some f \<and> ni_family f = family \<and> ni_dev f = Some dev))"
proof -
  from assms obtain d where d: "dev_heap s dev = Some d" by (auto simp: wf_net_def)
  with assms have ifs: "\<forall>i \<in> set (dev_interfaces d). \<exists>f. if_heap s i = Some f \<and> ni_dev f = Some dev"
    by (auto simp: wf_net_def wf_ifaces_def)
  then have "\<forall>i \<in> set (dev_interfaces d). if_heap s i \<noteq> None" by auto
  from iface_find_spec [OF this, of family] d ifs show ?thesis
    by (fastforce simp: network_device_get_interface_def split: option.splits)
qed

lemma iface_find_here:
  "i \<in> set es \<Longrightarrow> distinct (map (\<lambda>i. map_option ni_family (m i)) es) \<Longrightarrow> m i = Some f \<Longrightarrow>
   \<forall>i \<in> set es. m i \<noteq> None \<Longrightarrow> iface_find m es (ni_family f) = Some (Some i)"
proof (induction es)
  case (Cons e es)
  then obtain g where "m e = Some g" by auto
  with Cons show ?case by (force simp: rev_image_eqI)
qed simp

text \<open>An interface can be found on its device.\<close>

lemma network_device_get_interface_complete:
  assumes wf: "wf_net s" and f: "if_heap s i = Some f" "ni_dev f = Some dev"
  shows "network_device_get_interface dev (ni_family f) s = Some (Some i)"
proof -
  from assms have dev: "dev \<in> set (devices s)" by (rule wf_iface_dev)
  with wf obtain d where d: "dev_heap s dev = Some d" by (auto simp: wf_net_def)
  with wf dev f have "i \<in> set (dev_interfaces d)"
    "\<forall>i \<in> set (dev_interfaces d). \<exists>g. if_heap s i = Some g \<and> ni_dev g = Some dev"
    "distinct (map (\<lambda>i. map_option ni_family (if_heap s i)) (dev_interfaces d))"
    unfolding wf_net_def wf_ifaces_def by blast+
  with f d show ?thesis
    by (auto simp: network_device_get_interface_def intro!: iface_find_here)
qed

lemma wf_ifaces_add:
  fixes s :: "'a net_state_scheme"
  assumes wf: "wf_ifaces s" and dev: "dev \<in> set (devices s)" and d: "dev_heap s dev = Some d"
    and f: "if_heap s iface = Some f" "ni_dev f = None"
    and free: "\<forall>i \<in> set (dev_interfaces d). map_option ni_family (if_heap s i) \<noteq> Some (ni_family f)"
  shows "wf_ifaces (s\<lparr>if_heap := (if_heap s)(iface \<mapsto> f\<lparr>ni_dev := Some dev\<rparr>),
      dev_heap := (dev_heap s)(dev \<mapsto> d\<lparr>dev_interfaces := iface # dev_interfaces d\<rparr>)\<rparr>)" (is "wf_ifaces ?s")
proof -
  have old: "distinct (dev_interfaces e)" "distinct (map (\<lambda>i. map_option ni_family (if_heap s i)) (dev_interfaces e))"
    "\<forall>i \<in> set (dev_interfaces e). \<exists>g. if_heap s i = Some g \<and> ni_dev g = Some p"
    if "dev_heap s p = Some e" "p \<in> set (devices s)" for p e
    using wf that unfolding wf_ifaces_def by blast+
  have new: "iface \<notin> set (dev_interfaces e)" if "dev_heap s p = Some e" "p \<in> set (devices s)" for p e
    using old(3) [OF that] f by auto
  have fam: "map (\<lambda>i. map_option ni_family (if_heap ?s i)) xs = map (\<lambda>i. map_option ni_family (if_heap s i)) xs"
    if "iface \<notin> set xs" for xs
    using that by (intro map_cong) auto
  have "Some (ni_family f) \<notin> (\<lambda>i. map_option ni_family (if_heap s i)) ` set (dev_interfaces d)"
    using free by fastforce
  then have here: "distinct (map (\<lambda>i. map_option ni_family (if_heap ?s i)) (iface # dev_interfaces d))"
    using old(2) [OF d dev] unfolding list.map fam [OF new [OF d dev]] by simp
  have "distinct (dev_interfaces e) \<and> distinct (map (\<lambda>i. map_option ni_family (if_heap ?s i)) (dev_interfaces e)) \<and>
      (\<forall>i \<in> set (dev_interfaces e). \<exists>g. if_heap ?s i = Some g \<and> ni_dev g = Some p)"
    if "p \<in> set (devices ?s)" "dev_heap ?s p = Some e" for p e
  proof (cases "p = dev")
    case True
    with that here old(1,3) [OF d dev] new [OF d dev] show ?thesis by auto
  next
    case False
    with that have p: "dev_heap s p = Some e" "p \<in> set (devices s)" by simp_all
    from old [OF p] new [OF p] show ?thesis unfolding fam [OF new [OF p]] by auto
  qed
  moreover have "p \<in> set (devices ?s) \<and> (\<forall>e. dev_heap ?s p = Some e \<longrightarrow> i \<in> set (dev_interfaces e))"
    if "if_heap ?s i = Some g" "ni_dev g = Some p" for i g p
    using wf dev d that by (auto simp: wf_ifaces_def split: if_splits)
  ultimately show ?thesis unfolding wf_ifaces_def by blast
qed

lemma network_device_add_interface_wf:
  assumes wf: "wf_net s" and dev: "dev \<in> set (devices s)" and f: "if_heap s iface = Some f" "ni_dev f = None"
  shows "\<exists>r s'. network_device_add_interface dev iface s = Some (r, s') \<and> wf_net s' \<and>
    (r = 0 \<and> network_device_get_interface dev (ni_family f) s = Some None \<and>
       if_heap s' = (if_heap s)(iface \<mapsto> f\<lparr>ni_dev := Some dev\<rparr>) \<and> devices s' = devices s \<and> protocols s' = protocols s \<or>
     r = -1 \<and> s' = s \<and> network_device_get_interface dev (ni_family f) s \<noteq> Some None)"
proof -
  from wf dev obtain d where d: "dev_heap s dev = Some d" and wd: "wf_device d" by (auto simp: wf_net_def)
  from wf dev d have "\<forall>i \<in> set (dev_interfaces d). \<exists>g. if_heap s i = Some g \<and> ni_dev g = Some dev"
    unfolding wf_net_def wf_ifaces_def by blast
  then have "\<forall>i \<in> set (dev_interfaces d). if_heap s i \<noteq> None" by auto
  from iface_find_spec [OF this, of "ni_family f"] obtain r
    where r: "iface_find (if_heap s) (dev_interfaces d) (ni_family f) = Some r" and
      spec: "case r of
         None \<Rightarrow> \<forall>i \<in> set (dev_interfaces d). map_option ni_family (if_heap s i) \<noteq> Some (ni_family f)
       | Some i \<Rightarrow> i \<in> set (dev_interfaces d) \<and> map_option ni_family (if_heap s i) = Some (ni_family f)"
    by blast
  have get: "network_device_get_interface dev (ni_family f) s = Some r"
    using d r by (simp add: network_device_get_interface_def)
  show ?thesis
  proof (cases r)
    case (Some i)
    with d f r get wf show ?thesis by (simp add: network_device_add_interface_def)
  next
    case None
    let ?s = "s\<lparr>if_heap := (if_heap s)(iface \<mapsto> f\<lparr>ni_dev := Some dev\<rparr>),
      dev_heap := (dev_heap s)(dev \<mapsto> d\<lparr>dev_interfaces := iface # dev_interfaces d\<rparr>)\<rparr>"
    have "wf_ifaces ?s"
      using wf dev d f spec None by (intro wf_ifaces_add) (simp_all add: wf_net_def)
    then have "wf_net ?s"
      using wf wd d f unfolding wf_net_def by auto
    with d f r get None show ?thesis by (simp add: network_device_add_interface_def)
  qed
qed

subsection \<open>Tables keyed by type\<close>

text \<open>
  The contract of a registration table: a successful registration is found under its key, nothing
  else changes, and a key that is taken is refused. The protocol tables of the network and of the
  IP layer are instances.
\<close>

locale registry =
  fixes add :: "'v \<Rightarrow> 's \<Rightarrow> int \<times> 's" and key :: "'v \<Rightarrow> 'k" and entry :: "'v \<Rightarrow> 'e" and look :: "'k \<Rightarrow> 's \<Rightarrow> 'e option"
  assumes add_new: "add v s = (0, s') \<Longrightarrow> look (key v) s' = Some (entry v)"
    and add_other: "add v s = (r, s') \<Longrightarrow> k \<noteq> key v \<Longrightarrow> look k s' = look k s"
    and add_dup: "look (key v) s \<noteq> None \<Longrightarrow> add v s = (-1, s)"
    and add_fail: "add v s = (r, s') \<Longrightarrow> r \<noteq> 0 \<Longrightarrow> look (key v) s' = look (key v) s"
begin

primrec add_all :: "'v list \<Rightarrow> 's \<Rightarrow> int list \<times> 's" where
  "add_all [] s = ([], s)"
| "add_all (v # vs) s = (let (r, s) = add v s; (rs, s) = add_all vs s in (r # rs, s))"

lemma add_keeps:
  assumes "look k s = Some e"
  shows "look k (snd (add v s)) = Some e"
proof (cases "k = key v")
  case True
  with assms show ?thesis using add_dup [of v s] by simp
next
  case False
  with assms show ?thesis using add_other [of v s "fst (add v s)" "snd (add v s)" k] by simp
qed

lemma first_wins: "look k s = Some e \<Longrightarrow> look k (snd (add_all vs s)) = Some e"
proof (induction vs arbitrary: s)
  case (Cons v vs)
  then show ?case
    using add_keeps [of k s e v] by (auto simp: Let_def split_beta)
qed simp

lemma length_add_all: "add_all vs s = (rs, s') \<Longrightarrow> length rs = length vs"
  by (induction vs arbitrary: s rs) (auto simp: Let_def split: prod.splits)

text \<open>The accepted registrations are the ones in effect.\<close>

lemma accepted_in_effect:
  assumes "add_all vs s = (rs, s')" "i < length vs" "rs ! i = 0"
  shows "look (key (vs ! i)) s' = Some (entry (vs ! i))"
  using assms
proof (induction vs arbitrary: s rs i)
  case (Cons v vs)
  obtain r t where rt: "add v s = (r, t)" by fastforce
  obtain rs' u where u: "add_all vs t = (rs', u)" by fastforce
  from Cons.prems rt u have rs: "rs = r # rs'" "u = s'" by (auto simp: Let_def split_beta)
  have "r = 0 \<Longrightarrow> look (key v) s' = Some (entry v)"
    using first_wins [of "key v" t "entry v" vs] add_new rt u rs by simp
  with Cons.IH [of t rs'] Cons.prems u rs show ?case
    by (cases i) auto
qed simp

lemma refused_keeps:
  assumes "add v s = (r, s')" "r \<noteq> 0"
  shows "look k s' = look k s"
  using assms add_fail add_other by (cases "k = key v") auto

end

text \<open>What the table says about a type: the stored name and the handler.\<close>

definition protocol_of :: "u16 \<Rightarrow> 'a net_state_scheme \<Rightarrow> (string \<times> proto_handler) option" where
  "protocol_of type s =
     map_option (\<lambda>i. (np_name (protocols s ! i), np_handler (protocols s ! i)))
       (find_slot (\<lambda>proto. np_type proto = type) (protocols s))"

text \<open>A client that registers several protocols, with the returned codes.\<close>

primrec network_protocol_register_all ::
  "(string \<times> u16 \<times> proto_handler) list \<Rightarrow> 'a net_state_scheme \<Rightarrow> int list \<times> 'a net_state_scheme" where
  "network_protocol_register_all [] s = ([], s)"
| "network_protocol_register_all (p # ps) s =
     (let (r, s) = (case p of (name, type, h) \<Rightarrow> network_protocol_register name type h s);
          (rs, s) = network_protocol_register_all ps s
      in (r # rs, s))"

lemma network_protocol_register_cases:
  obtains (taken) "protocol_of type s \<noteq> None" "network_protocol_register name type h s = (-1, s)"
  | (nomem) "protocol_of type s = None" "network_protocol_register name type h s = (-1, s\<lparr>mem_n := Suc (mem_n s)\<rparr>)"
  | (added) "protocol_of type s = None" "network_protocol_register name type h s =
      (0, s\<lparr>mem_n := Suc (mem_n s), protocols := \<lparr>np_name = strncpy16 name, np_type = type,
         np_queue = lqueue_init, np_handler = h\<rparr> # protocols s\<rparr>)"
proof (cases "find_slot (\<lambda>proto. np_type proto = type) (protocols s)")
  case None
  show thesis
  proof (cases "mem_ok s (mem_n s)")
    case True
    with None show thesis
      by (intro added) (simp_all add: network_protocol_register_def memory_alloc_def protocol_of_def)
  next
    case False
    with None show thesis
      by (intro nomem) (simp_all add: network_protocol_register_def memory_alloc_def protocol_of_def)
  qed
next
  case (Some i)
  then show thesis
    by (intro taken) (simp_all add: network_protocol_register_def protocol_of_def)
qed

interpretation np: registry "\<lambda>(name, type, h). network_protocol_register name type h" "\<lambda>(name, type, h). type"
  "\<lambda>(name, type, h). (strncpy16 name, h)" protocol_of
proof (unfold_locales, goal_cases)
  case (1 v s s')
  obtain name k h where v: "v = (name, k, h)" by (cases v) auto
  from 1 show ?case unfolding v
    by (cases rule: network_protocol_register_cases [of k s name h]) (auto simp: protocol_of_def)
next
  case (2 v s r s' k')
  obtain name k h where v: "v = (name, k, h)" by (cases v) auto
  from 2 show ?case unfolding v
    by (cases rule: network_protocol_register_cases [of k s name h])
      (auto simp: protocol_of_def option.map_comp comp_def)
next
  case (3 v s)
  obtain name k h where v: "v = (name, k, h)" by (cases v) auto
  from 3 show ?case unfolding v
    by (cases rule: network_protocol_register_cases [of k s name h]) auto
next
  case (4 v s r s')
  obtain name k h where v: "v = (name, k, h)" by (cases v) auto
  from 4 show ?case unfolding v
    by (cases rule: network_protocol_register_cases [of k s name h]) (auto simp: protocol_of_def)
qed

lemma network_protocol_register_all_np: "network_protocol_register_all ps s = np.add_all ps s"
  by (induction ps arbitrary: s) (simp_all add: split_beta Let_def)

lemma network_protocol_register_wf:
  assumes "wf_net s"
  shows "wf_net (snd (network_protocol_register name type h s))"
proof (rule network_protocol_register_cases [of type s name h])
  assume r: "network_protocol_register name type h s = (-1, s\<lparr>mem_n := Suc (mem_n s)\<rparr>)"
  show ?thesis unfolding r snd_conv
    using assms by - (rule wf_net_mono [of s], simp_all add: wf_net_def)
next
  assume n: "protocol_of type s = None" and r: "network_protocol_register name type h s =
      (0, s\<lparr>mem_n := Suc (mem_n s), protocols := \<lparr>np_name = strncpy16 name, np_type = type,
         np_queue = lqueue_init, np_handler = h\<rparr> # protocols s\<rparr>)"
  have "type \<notin> np_type ` set (protocols s)"
    using n by (auto simp: protocol_of_def slot_simps)
  then show ?thesis unfolding r snd_conv
    using assms by - (rule wf_net_mono [of s], simp_all add: wf_net_def wf_queue_def lqueue_init_def)
qed (use assms in simp)

lemma network_protocol_register_all_wf:
  "wf_net s \<Longrightarrow> wf_net (snd (network_protocol_register_all ps s))"
proof (induction ps arbitrary: s)
  case (Cons p ps)
  then show ?case
    using network_protocol_register_wf [of s "fst p" "fst (snd p)" "snd (snd p)"]
    by (simp add: Let_def split_beta)
qed simp

subsection \<open>Properties\<close>

text \<open>The packets waiting for a protocol.\<close>

definition queue_of :: "u16 \<Rightarrow> 'a net_state_scheme \<Rightarrow> net_queue_entry list" where
  "queue_of type s =
     (case find_slot (\<lambda>proto. np_type proto = type) (protocols s) of
        None \<Rightarrow> []
      | Some i \<Rightarrow> q_items (np_queue (protocols s ! i)))"

lemma queue_of_cong: "protocols s' = protocols s \<Longrightarrow> queue_of t s' = queue_of t s"
  by (simp only: queue_of_def)

lemma find_slot_cong_type:
  "map np_type ps = map np_type qs \<Longrightarrow>
   find_slot (\<lambda>proto. np_type proto = type) ps = find_slot (\<lambda>proto. np_type proto = type) qs"
proof (induction ps arbitrary: qs)
  case (Cons p ps)
  then show ?case by (cases qs) auto
qed simp

lemma queue_of_input_enqueue:
  assumes "find_slot (\<lambda>proto. np_type proto = type) (protocols s) = Some i"
  shows "queue_of t (input_enqueue i e s) = (if t = type then queue_of t s @ [e] else queue_of t s)"
proof -
  from assms have i: "i < length (protocols s)" "np_type (protocols s ! i) = type"
    by (auto dest: find_slot_SomeD)
  have "find_slot (\<lambda>proto. np_type proto = t) (protocols (input_enqueue i e s))
      = find_slot (\<lambda>proto. np_type proto = t) (protocols s)"
    using i by (intro find_slot_cong_type) (simp add: input_enqueue_def raise_softirq_def)
  moreover have "find_slot (\<lambda>proto. np_type proto = t) (protocols s) \<noteq> Some i" if "t \<noteq> type"
    using that i by (auto dest: find_slot_holds)
  ultimately show ?thesis
    using assms i
    by (auto simp: queue_of_def input_enqueue_def raise_softirq_def nth_list_update split: option.splits)
qed

lemma list_all2_find_slot:
  "list_all2 proto_ext ps qs \<Longrightarrow>
   find_slot (\<lambda>proto. np_type proto = type) ps = find_slot (\<lambda>proto. np_type proto = type) qs"
  by (induction rule: list_all2_induct) (auto simp: proto_ext_def)

text \<open>The output path does not touch registrations and only appends to queues.\<close>

lemma net_ext_protocol_of:
  assumes "net_ext s s'"
  shows "protocol_of type s' = protocol_of type s"
proof -
  from assms have ext: "list_all2 proto_ext (protocols s) (protocols s')" by (simp add: net_ext_def)
  note eq = list_all2_find_slot [OF ext, of type]
  show ?thesis
  proof (cases "find_slot (\<lambda>proto. np_type proto = type) (protocols s)")
    case None
    with eq show ?thesis by (simp add: protocol_of_def)
  next
    case (Some i)
    then have "i < length (protocols s)" by simp
    with ext have "proto_ext (protocols s ! i) (protocols s' ! i)" by (rule list_all2_nthD)
    with Some eq [symmetric] show ?thesis by (simp add: protocol_of_def proto_ext_def)
  qed
qed

lemma network_input_handler_queues:
  assumes "wf_net s" "dev \<in> set (devices s)" "len \<le> length data" "\<forall>n. mem_ok s n"
  shows "\<exists>s'. network_input_handler type data len dev s = Some (0, s') \<and> net_out s s' \<and>
    (\<forall>t. queue_of t s' = queue_of t s @
       (if t = type \<and> protocol_of type s \<noteq> None
        then [\<lparr>nq_dev = dev, nq_len = len, nq_data = take len data\<rparr>] else []))"
proof -
  from assms(1,2) have "dev_heap s dev \<noteq> None" by (auto dest: wf_device_heap)
  then show ?thesis
    using assms(3)
  proof (cases rule: network_input_handler_cases [where type = type])
    case unknown
    then show ?thesis by (auto simp: protocol_of_def)
  next
    case (nomem i n)
    with assms(4) show ?thesis by simp
  next
    case (queued i)
    with network_input_handler_out [OF assms(1-3), of type] show ?thesis
      by (auto simp: protocol_of_def queue_of_input_enqueue)
  qed
qed

definition net0 :: net_state where
  "net0 = \<lparr>mem_ok = (\<lambda>_. True), mem_n = 0, clock = (\<lambda>n. Timeval (int n) 0), clock_n = 0,
     sys_ret = (\<lambda>_. 0), sys_errno = (\<lambda>_. 0), sys_data = (\<lambda>_. []), sys_n = 0, errno = 0,
     requests = [], wire = [], rx = (\<lambda>_. []), pending = [], sigmask = [], irq_vec = [], dev_heap = Map.empty, if_heap = Map.empty,
     devices = [], next_index = 0, protocols = [], timers = [], events = []\<rparr>"

lemma wf_net0: "wf_net net0 \<and> softirq_ok net0"
  by (simp add: wf_net_def wf_ifaces_def softirq_ok_def net0_def)

text \<open>
  A received frame of a registered device is never lost silently: when its type is registered
  and memory is available, exactly its bytes are appended to the queue of that protocol, no other
  queue changes and the software interrupt is pending; an unknown type leaves the state alone; on
  memory exhaustion the call returns \<open>-1\<close> and no queue changes. The invariants are kept.
\<close>

theorem network_input_delivers:
  assumes "wf_net s" "softirq_ok s" "dev \<in> set (devices s)" "len \<le> length data"
  shows "\<exists>r s'. network_input_handler type data len dev s = Some (r, s') \<and> wf_net s' \<and> softirq_ok s' \<and>
    (if protocol_of type s = None then r = 0 \<and> s' = s
     else if mem_ok s (mem_n s) \<and> mem_ok s (Suc (mem_n s)) then
       r = 0 \<and> SIGUSR1 \<in> set (pending s') \<and>
       (\<forall>t. queue_of t s' = queue_of t s @
          (if t = type then [\<lparr>nq_dev = dev, nq_len = len, nq_data = take len data\<rparr>] else []))
     else r = -1 \<and> (\<forall>t. queue_of t s' = queue_of t s))"
proof -
  obtain r s' where r: "network_input_handler type data len dev s = Some (r, s')" and "net_out s s'"
    using network_input_handler_out [OF assms(1,3,4)] by blast
  then have wf: "wf_net s'" "softirq_ok s'"
    using assms by (auto dest!: net_outD intro: net_ext_wf net_ext_softirq)
  from assms(1,3) have "dev_heap s dev \<noteq> None" by (auto dest: wf_device_heap)
  then show ?thesis
    using assms(4)
  proof (cases rule: network_input_handler_cases [where type = type])
    case unknown
    with r wf show ?thesis by (simp add: protocol_of_def)
  next
    case (nomem i n)
    with r wf show ?thesis by (auto simp: protocol_of_def intro!: queue_of_cong)
  next
    case (queued i)
    moreover have "SIGUSR1 \<in> set (pending (input_enqueue i e s))" for e
      by (simp add: input_enqueue_def raise_softirq_def raise_signal_pending)
    ultimately show ?thesis using r wf
      by (simp add: protocol_of_def queue_of_input_enqueue)
  qed
qed

definition net_demo :: net_state where
  "net_demo = net0\<lparr>mem_n := 1, devices := [0],
     dev_heap := [0 \<mapsto> zero_device\<lparr>dev_ops := Some loopback_ops, dev_mtu := 0xffff\<rparr>],
     protocols := [\<lparr>np_name = ''IP'', np_type = 0x800, np_queue = lqueue_init, np_handler = ip_input_handler\<rparr>]\<rparr>"

lemma net_demo_ok: "wf_net net_demo" "softirq_ok net_demo" "0 \<in> set (devices net_demo)"
  by (simp_all add: net_demo_def net0_def wf_net_def wf_ifaces_def wf_device_def zero_device_def wf_queue_def
      NETWORK_DEVICE_ADDR_LEN_def lqueue_init_def softirq_ok_def)

theorem network_input_delivers_witness:
  "\<exists>s'. network_input_handler 0x800 [1, 2, 3] 2 0 net_demo = Some (0, s') \<and>
     queue_of 0x800 s' = [\<lparr>nq_dev = 0, nq_len = 2, nq_data = [1, 2]\<rparr>] \<and> SIGUSR1 \<in> set (pending s')"
proof -
  have "protocol_of 0x800 net_demo \<noteq> None" "mem_ok net_demo n" "queue_of 0x800 net_demo = []" for n
    by (simp_all add: protocol_of_def net_demo_def net0_def queue_of_def lqueue_init_def)
  then show ?thesis
    using network_input_delivers [OF net_demo_ok, of 2 "[1, 2, 3]" "0x800"]
    by (auto simp: numeral_eq_Suc)
qed

text \<open>
  However protocols are registered, in any order and with duplicates or failing allocations, the
  registrations that returned 0 are exactly what the table says of their types at the end, what was
  registered before is still in effect, and the invariant (types are unique) is kept.
\<close>

theorem network_protocol_registrations:
  assumes "wf_net s" "network_protocol_register_all ps s = (rs, s')"
  shows "wf_net s' \<and> length rs = length ps \<and>
    (\<forall>i < length ps. rs ! i = 0 \<longrightarrow>
       protocol_of (fst (snd (ps ! i))) s' = Some (strncpy16 (fst (ps ! i)), snd (snd (ps ! i)))) \<and>
    (\<forall>type e. protocol_of type s = Some e \<longrightarrow> protocol_of type s' = Some e)"
proof -
  have run: "np.add_all ps s = (rs, s')"
    using assms(2) by (simp add: network_protocol_register_all_np)
  have "protocol_of (fst (snd (ps ! i))) s' = Some (strncpy16 (fst (ps ! i)), snd (snd (ps ! i)))"
    if "i < length ps" "rs ! i = 0" for i
    using np.accepted_in_effect [OF run that] by (simp add: split_beta)
  moreover have "protocol_of type s = Some e \<Longrightarrow> protocol_of type s' = Some e" for type e
    using np.first_wins [of type s e ps] run by simp
  moreover have "wf_net s'"
    using network_protocol_register_all_wf [OF assms(1), of ps] assms(2) by simp
  ultimately show ?thesis
    using np.length_add_all [OF run] by blast
qed

theorem network_protocol_registrations_witness:
  "let (rs, s') = network_protocol_register_all
      [(''ARP'', 0x806, arp_input_handler), (''IP'', 0x800, ip_input_handler), (''X'', 0x806, ip_input_handler)] net0
   in rs = [0, 0, -1] \<and> wf_net s' \<and> protocol_of 0x806 s' = Some (''ARP'', arp_input_handler)"
proof -
  let ?ps = "[(''ARP'', 0x806, arp_input_handler), (''IP'', 0x800, ip_input_handler), (''X'', 0x806, ip_input_handler)]"
  have "fst (network_protocol_register_all ?ps net0) = [0, 0, -1]"
    by (simp add: net0_def network_protocol_register_def memory_alloc_def)
  then show ?thesis
    using network_protocol_registrations [of net0 ?ps, OF _ prod.collapse [symmetric]] wf_net0
    by (auto simp: Let_def split_beta strncpy16_def)
qed

end
