(* ===== verification/Loopback.thy ===== *)
theory Loopback
  imports Net_State
begin

text \<open>The loopback device of \<^verbatim>\<open>device/loopback.c\<close>: transmission is reception.\<close>

section \<open>Definitions\<close>

definition LOOPBACK_MTU :: u16 where "LOOPBACK_MTU = 0xffff"

definition loopback_transmit ::
  "nat \<Rightarrow> u16 \<Rightarrow> bytes \<Rightarrow> nat \<Rightarrow> bytes option \<Rightarrow> 'a net_state_scheme \<Rightarrow> (int \<times> 'a net_state_scheme) option" where
  "loopback_transmit dev type data len dst s = do {
     _ \<leftarrow> dev_heap s dev;
     (_, s) \<leftarrow> network_input_handler type data len dev s;
     Some (0, s)
   }"

definition loopback_setup :: "network_device \<Rightarrow> network_device" where
  "loopback_setup d =
     d\<lparr>dev_type := NETWORK_DEVICE_TYPE_LOOPBACK, dev_mtu := LOOPBACK_MTU, dev_header_len := 0,
       dev_address_len := 0, dev_flags := NETWORK_DEVICE_FLAG_LOOPBACK, dev_ops := Some loopback_ops\<rparr>"

definition loopback_init :: "'a net_state_scheme \<Rightarrow> (nat option \<times> 'a net_state_scheme) option" where
  "loopback_init s =
     (case network_device_allocate (Some loopback_setup) s of
        (None, s) \<Rightarrow> Some (None, s)
      | (Some dev, s) \<Rightarrow> do {
          (r, s) \<leftarrow> network_device_register dev s;
          if r = -1 then Some (None, s) else Some (Some dev, s)
        })"

section \<open>Lemmas\<close>

lemma loopback_setup_wf: "wf_device (loopback_setup zero_device)" "dev_interfaces (loopback_setup zero_device) = []"
  by (simp_all add: loopback_setup_def zero_device_def wf_device_def NETWORK_DEVICE_ADDR_LEN_def
      NETWORK_DEVICE_FLAG_LOOPBACK_def NETWORK_DEVICE_FLAG_NEED_ARP_def)

lemma loopback_transmit_out:
  assumes "wf_net s" "dev \<in> set (devices s)" "len \<le> length data"
  shows "\<exists>s'. loopback_transmit dev type data len dst s = Some (0, s') \<and> net_out s s'"
  using network_input_handler_out [OF assms, of type] assms(1,2)
  by (auto simp: loopback_transmit_def dest: wf_device_heap)

lemma loopback_init_wf:
  assumes "wf_net s"
  shows "\<exists>r s'. loopback_init s = Some (r, s') \<and> wf_net s' \<and>
    devices s' = (case r of None \<Rightarrow> devices s | Some dev \<Rightarrow> dev # devices s)"
proof -
  obtain r t where a: "network_device_allocate (Some loopback_setup) s = (r, t)" by fastforce
  note t = network_device_allocate_wf [OF assms a]
  show ?thesis
  proof (cases r)
    case None
    with a t show ?thesis by (simp add: loopback_init_def)
  next
    case (Some dev)
    with t have "\<exists>u. network_device_register dev t = Some (0, u) \<and> wf_net u \<and> devices u = dev # devices t"
      by (intro network_device_register_wf) (auto simp: loopback_setup_wf)
    with a t Some show ?thesis by (auto simp: loopback_init_def)
  qed
qed

end
