(* ===== verification/Ether.thy ===== *)
theory Ether
  imports Net_State Util_Checksum
begin

text \<open>
  The Ethernet helpers of \<^verbatim>\<open>src/lib/ether.c\<close>: building and padding a frame, accepting a received
  one, initialising an Ethernet device. The read and write functions of the driver are arguments,
  as in the code. A frame buffer is a list of bytes; every copy into or out of it is bounds-checked.
\<close>

section \<open>Definitions\<close>

definition ETHER_HDR_SIZE :: nat where "ETHER_HDR_SIZE = 14"
definition ETHER_FRAME_SIZE_MIN :: nat where "ETHER_FRAME_SIZE_MIN = 60"
definition ETHER_FRAME_SIZE_MAX :: nat where "ETHER_FRAME_SIZE_MAX = 1514"
definition ETHER_PAYLOAD_SIZE_MIN :: nat where "ETHER_PAYLOAD_SIZE_MIN = ETHER_FRAME_SIZE_MIN - ETHER_HDR_SIZE"
definition ETHER_PAYLOAD_SIZE_MAX :: nat where "ETHER_PAYLOAD_SIZE_MAX = ETHER_FRAME_SIZE_MAX - ETHER_HDR_SIZE"

definition ETHER_TYPE_IP :: u16 where "ETHER_TYPE_IP = 0x0800"
definition ETHER_TYPE_ARP :: u16 where "ETHER_TYPE_ARP = 0x0806"
definition ETHER_TYPE_IPV6 :: u16 where "ETHER_TYPE_IPV6 = 0x86dd"

definition ETHER_ADDR_ANY :: bytes where "ETHER_ADDR_ANY = [0, 0, 0, 0, 0, 0]"
definition ETHER_ADDR_BROADCAST :: bytes where "ETHER_ADDR_BROADCAST = [0xff, 0xff, 0xff, 0xff, 0xff, 0xff]"

lemmas ether_consts =
  ETHER_HDR_SIZE_def ETHER_FRAME_SIZE_MIN_def ETHER_FRAME_SIZE_MAX_def ETHER_PAYLOAD_SIZE_MIN_def
  ETHER_PAYLOAD_SIZE_MAX_def ETHER_ADDR_ANY_def ETHER_ADDR_BROADCAST_def ETHER_ADDR_LEN_def

record ether_hdr =
  eh_dst :: bytes
  eh_src :: bytes
  eh_type :: u16

definition ether_type_ntoa :: "u16 \<Rightarrow> string" where
  "ether_type_ntoa type =
     (if ntoh16 type = ETHER_TYPE_IP then ''IP''
      else if ntoh16 type = ETHER_TYPE_ARP then ''ARP''
      else if ntoh16 type = ETHER_TYPE_IPV6 then ''IPv6''
      else ''UNKNOWN'')"

text \<open>The layout of \<^verbatim>\<open>struct ether_hdr\<close> in memory; \<open>eh_type\<close> is stored as it is held.\<close>

definition ether_hdr_bytes :: "ether_hdr \<Rightarrow> bytes" where
  "ether_hdr_bytes h = eh_dst h @ eh_src h @ store16 (eh_type h)"

definition read_ether_hdr :: "bytes \<Rightarrow> ether_hdr option" where
  "read_ether_hdr frame = do {
     dst \<leftarrow> mem_read frame 0 ETHER_ADDR_LEN;
     src \<leftarrow> mem_read frame 6 ETHER_ADDR_LEN;
     type \<leftarrow> mem_read frame 12 2;
     Some \<lparr>eh_dst = dst, eh_src = src, eh_type = load16 (type ! 0) (type ! 1)\<rparr>
   }"

definition ether_transmit_helper ::
  "nat \<Rightarrow> u16 \<Rightarrow> bytes \<Rightarrow> nat \<Rightarrow> bytes option \<Rightarrow>
   (nat \<Rightarrow> bytes \<Rightarrow> nat \<Rightarrow> 'a net_state_scheme \<Rightarrow> (int \<times> 'a net_state_scheme) option) \<Rightarrow>
   'a net_state_scheme \<Rightarrow> (int \<times> 'a net_state_scheme) option" where
  "ether_transmit_helper dev type data len dst callback s = do {
     d \<leftarrow> dev_heap s dev;
     let frame = replicate ETHER_FRAME_SIZE_MAX 0;
     dstp \<leftarrow> dst;
     hdst \<leftarrow> mem_read dstp 0 ETHER_ADDR_LEN;
     hsrc \<leftarrow> mem_read (dev_address d) 0 ETHER_ADDR_LEN;
     frame \<leftarrow> mem_write frame 0 (ether_hdr_bytes \<lparr>eh_dst = hdst, eh_src = hsrc, eh_type = hton16 type\<rparr>);
     payload \<leftarrow> mem_read data 0 len;
     frame \<leftarrow> mem_write frame ETHER_HDR_SIZE payload;
     let pad = (if len < ETHER_PAYLOAD_SIZE_MIN then ETHER_PAYLOAD_SIZE_MIN - len else 0);
     let flen = ETHER_HDR_SIZE + len + pad;
     (r, s) \<leftarrow> callback dev frame flen s;
     Some (if r = int flen then 0 else -1, s)
   }"

text \<open>The read callback returns the length, the bytes it stored and the new state.\<close>

definition ether_poll_helper ::
  "nat \<Rightarrow> (nat \<Rightarrow> nat \<Rightarrow> 'a net_state_scheme \<Rightarrow> (int \<times> bytes \<times> 'a net_state_scheme) option) \<Rightarrow>
   'a net_state_scheme \<Rightarrow> (int \<times> 'a net_state_scheme) option" where
  "ether_poll_helper dev callback s = do {
     (flen, frame, s) \<leftarrow> callback dev ETHER_FRAME_SIZE_MAX s;
     if flen < int ETHER_HDR_SIZE then Some (-1, s)
     else do {
       hdr \<leftarrow> read_ether_hdr frame;
       d \<leftarrow> dev_heap s dev;
       addr \<leftarrow> mem_read (dev_address d) 0 ETHER_ADDR_LEN;
       if addr \<noteq> eh_dst hdr \<and> ETHER_ADDR_BROADCAST \<noteq> eh_dst hdr then Some (-1, s)
       else
         network_input_handler (ntoh16 (eh_type hdr)) (drop ETHER_HDR_SIZE frame) (nat flen - ETHER_HDR_SIZE) dev s
     }
   }"

definition ether_setup_helper :: "network_device \<Rightarrow> network_device" where
  "ether_setup_helper d =
     d\<lparr>dev_type := NETWORK_DEVICE_TYPE_ETHERNET,
       dev_mtu := of_nat ETHER_PAYLOAD_SIZE_MAX,
       dev_flags := NETWORK_DEVICE_FLAG_BROADCAST OR NETWORK_DEVICE_FLAG_NEED_ARP,
       dev_header_len := of_nat ETHER_HDR_SIZE,
       dev_address_len := of_nat ETHER_ADDR_LEN,
       dev_broadcast := ETHER_ADDR_BROADCAST @ drop ETHER_ADDR_LEN (dev_broadcast d)\<rparr>"

text \<open>The frame as a function of its contents: header, payload, zero padding to the minimum.\<close>

definition ether_frame :: "bytes \<Rightarrow> bytes \<Rightarrow> u16 \<Rightarrow> bytes \<Rightarrow> bytes" where
  "ether_frame dst src type payload =
     dst @ src @ store16 (hton16 type) @ payload @ replicate (46 - length payload) 0"

section \<open>Lemmas\<close>

lemma length_ether_frame:
  "length dst = 6 \<Longrightarrow> length src = 6 \<Longrightarrow> length (ether_frame dst src type p) = 14 + max 46 (length p)"
  by (simp add: ether_frame_def)

lemma read_ether_hdr_frame:
  assumes "length dst = 6" "length src = 6"
  shows "read_ether_hdr (ether_frame dst src type p) = Some \<lparr>eh_dst = dst, eh_src = src, eh_type = hton16 type\<rparr>"
  using assms by (simp add: read_ether_hdr_def ether_frame_def ether_consts drop_append)

lemma drop_ether_frame:
  "length dst = 6 \<Longrightarrow> length src = 6 \<Longrightarrow> drop 14 (ether_frame dst src type p) = p @ replicate (46 - length p) 0"
  by (simp add: ether_frame_def drop_append)

text \<open>
  On a payload within the device limit no copy leaves its buffer, and the driver is handed the
  header, the payload and the padding, inside a buffer of maximal frame size.
\<close>

lemma ether_transmit_helper_eq:
  assumes d: "dev_heap s dev = Some d" and dst: "dst = Some dstp" "6 \<le> length dstp" "6 \<le> length (dev_address d)"
    and len: "len \<le> length data" "len \<le> 1500"
  shows "ether_transmit_helper dev type data len dst callback s =
     map_option (\<lambda>(r, s). (if r = int (14 + max 46 len) then 0 else -1, s))
       (callback dev (ether_frame (take 6 dstp) (take 6 (dev_address d)) type (take len data) @
          replicate (1500 - max 46 len) 0) (14 + max 46 len) s)"
proof -
  let ?hdr = "take 6 dstp @ take 6 (dev_address d) @ store16 (hton16 type)"
  let ?frame = "?hdr @ take len data @ replicate (1500 - len) 0"
  have fl: "14 + len + (if len < 46 then 46 - len else 0) = 14 + max 46 len" by simp
  have split: "replicate (1500 - len) (0 :: u8) = replicate (46 - len) 0 @ replicate (1500 - max 46 len) 0"
    using len by (simp add: replicate_add [symmetric])
  have f: "?frame = ether_frame (take 6 dstp) (take 6 (dev_address d)) type (take len data) @ replicate (1500 - max 46 len) 0"
    using len by (simp add: ether_frame_def split min_def)
  have "ether_transmit_helper dev type data len dst callback s =
      Option.bind (callback dev ?frame (14 + max 46 len) s) (\<lambda>(r, s). Some (if r = int (14 + max 46 len) then 0 else -1, s))"
    using assms fl
    by (simp add: ether_transmit_helper_def ether_hdr_bytes_def ether_consts mem_write_def Let_def min_def)
  also have "\<dots> = map_option (\<lambda>(r, s). (if r = int (14 + max 46 len) then 0 else -1, s))
       (callback dev ?frame (14 + max 46 len) s)"
    by (cases "callback dev ?frame (14 + max 46 len) s") (auto split: prod.splits)
  finally show ?thesis unfolding f .
qed

lemma ether_setup_helper_sel [simp]:
  "dev_mtu (ether_setup_helper d) = 1500" "dev_type (ether_setup_helper d) = NETWORK_DEVICE_TYPE_ETHERNET"
  "dev_address (ether_setup_helper d) = dev_address d" "dev_interfaces (ether_setup_helper d) = dev_interfaces d"
  by (simp_all add: ether_setup_helper_def ether_consts)

lemma length_broadcast_setup:
  "length (dev_broadcast d) = 16 \<Longrightarrow> length (dev_broadcast (ether_setup_helper d)) = 16"
  by (simp add: ether_setup_helper_def ether_consts)

text \<open>What a driver's read may do: it stores at most the requested bytes and leaves the stack's state alone.\<close>

lemma ether_poll_helper_cases:
  assumes wf: "wf_net s'" and dev: "dev \<in> set (devices s')"
    and read: "callback dev 1514 s = Some (flen, frame, s')" "flen < 0 \<or> flen = int (length frame)"
  shows "ether_poll_helper dev callback s = Some (-1, s') \<or>
    (\<exists>h d. read_ether_hdr frame = Some h \<and> dev_heap s' dev = Some d \<and> 14 \<le> length frame \<and>
       (take 6 (dev_address d) = eh_dst h \<or> ETHER_ADDR_BROADCAST = eh_dst h) \<and>
       ether_poll_helper dev callback s =
         network_input_handler (ntoh16 (eh_type h)) (drop 14 frame) (length frame - 14) dev s')"
proof (cases "flen < 14")
  case True
  then show ?thesis using read by (simp add: ether_poll_helper_def ether_consts)
next
  case False
  with read(2) have flen: "flen = int (length frame)" "14 \<le> length frame" by auto
  from wf dev obtain d where d: "dev_heap s' dev = Some d" "length (dev_address d) = 16"
    by (auto simp: wf_net_def wf_device_def NETWORK_DEVICE_ADDR_LEN_def)
  from flen obtain h where h: "read_ether_hdr frame = Some h"
    by (simp add: read_ether_hdr_def ether_consts)
  show ?thesis
    using read(1) flen d h by (auto simp: ether_poll_helper_def ether_consts)
qed

section \<open>Properties\<close>

text \<open>
  C29. Transmission over Ethernet: for every payload within the maximal size and every type, the bytes
  handed to the driver form a frame of 60 to 1514 bytes which a receiving device with the
  destination address (or any device, if it is the broadcast address) accepts and passes on with
  the same type, the payload and zero padding up to 46 bytes; a device with another address drops it.
\<close>

theorem ether_transmit_poll_roundtrip:
  assumes d: "dev_heap s dev = Some d" "length (dev_address d) = 16"
    and p: "len \<le> length data" "len \<le> 1500" "6 \<le> length dst"
    and d': "dev_heap s' dev' = Some d'" "length (dev_address d') = 16"
    and flen: "flen = 14 + max 46 len"
  shows "\<exists>buf. (\<forall>callback. ether_transmit_helper dev type data len (Some dst) callback s =
        map_option (\<lambda>(r, s). (if r = int flen then 0 else -1, s)) (callback dev buf flen s)) \<and>
      60 \<le> flen \<and> flen \<le> length buf \<and> length buf = 1514 \<and>
      ether_poll_helper dev' (\<lambda>_ _ s. Some (int flen, take flen buf, s)) s' =
        (if take 6 dst = take 6 (dev_address d') \<or> take 6 dst = ETHER_ADDR_BROADCAST
         then network_input_handler type (take len data @ replicate (46 - len) 0) (max 46 len) dev' s'
         else Some (-1, s'))"
proof -
  let ?src = "take 6 (dev_address d)"
  let ?f = "ether_frame (take 6 dst) ?src type (take len data)"
  let ?flen = "14 + max 46 len"
  let ?buf = "?f @ replicate (1500 - max 46 len) 0"
  have lf: "length ?f = ?flen"
    using d(2) p by (subst length_ether_frame) auto
  have tx: "ether_transmit_helper dev type data len (Some dst) callback s =
        map_option (\<lambda>(r, s). (if r = int ?flen then 0 else -1, s)) (callback dev ?buf ?flen s)" for callback
    using d p by (intro ether_transmit_helper_eq) simp_all
  have hd: "read_ether_hdr ?f = Some \<lparr>eh_dst = take 6 dst, eh_src = ?src, eh_type = hton16 type\<rparr>"
    using d(2) p by (intro read_ether_hdr_frame) auto
  have dr: "drop 14 ?f = take len data @ replicate (46 - len) 0"
    using d(2) p by (subst drop_ether_frame) (auto simp: min_def)
  have "ether_poll_helper dev' (\<lambda>_ _ s. Some (int ?flen, take ?flen ?buf, s)) s' =
        (if take 6 dst = take 6 (dev_address d') \<or> take 6 dst = ETHER_ADDR_BROADCAST
         then network_input_handler type (take len data @ replicate (46 - len) 0) (max 46 len) dev' s'
         else Some (-1, s'))"
    using d' lf hd dr by (auto simp: ether_poll_helper_def ETHER_HDR_SIZE_def ETHER_ADDR_LEN_def nat_add_distrib)
  moreover have "length ?buf = 1514"
    using lf p by simp
  ultimately show ?thesis
    using tx lf p unfolding flen by (intro exI [of _ ?buf]) auto
qed

theorem ether_transmit_poll_roundtrip_witness:
  "\<exists>buf. ether_transmit_helper 0 0x806 [7, 8, 9] 3 (Some ETHER_ADDR_BROADCAST) (\<lambda>_ _ n s. Some (int n, s)) net_demo =
       Some (0, net_demo) \<and> length buf = 1514 \<and>
     ether_poll_helper 0 (\<lambda>_ _ s. Some (int 60, take 60 buf, s)) net_demo =
       network_input_handler 0x806 ([7, 8, 9] @ replicate 43 0) 46 0 net_demo"
proof -
  have d: "dev_heap net_demo 0 = Some (zero_device\<lparr>dev_ops := Some loopback_ops, dev_mtu := 0xffff\<rparr>)"
    "length (dev_address (zero_device\<lparr>dev_ops := Some loopback_ops, dev_mtu := 0xffff\<rparr>)) = 16"
    by (simp_all add: net_demo_def zero_device_def)
  have "length ETHER_ADDR_BROADCAST = 6" "take 6 ETHER_ADDR_BROADCAST = ETHER_ADDR_BROADCAST"
    by (simp_all add: ETHER_ADDR_BROADCAST_def)
  with ether_transmit_poll_roundtrip [OF d, of 3 "[7, 8, 9]" ETHER_ADDR_BROADCAST, OF _ _ _ d, of 60 "0x806"]
  show ?thesis by fastforce
qed

end
