(* ===== verification/Ether_Dev.thy ===== *)
theory Ether_Dev
  imports Ether
begin

text \<open>
  The two Ethernet drivers: the TAP device of \<^verbatim>\<open>handler/tap.c\<close> and the packet socket of
  \<^verbatim>\<open>handler/pcap.c\<close>. System calls are answered by the oracle of the state; each of the sequences
  of calls that open a device is as long as in the code and closes the descriptor on the first
  failure. The interrupt routine polls until the descriptor is drained; its loop is a partial
  function because a call that is interrupted for ever would keep it running.
\<close>

section \<open>Definitions\<close>

subsection \<open>System calls\<close>

definition EINTR :: int where "EINTR = 4"

definition sys_close :: "'a net_state_scheme \<Rightarrow> 'a net_state_scheme" where
  "sys_close s = snd (syscall s)"

text \<open>\<^verbatim>\<open>write\<close> transfers a prefix of the buffer and returns its length.\<close>

definition sys_write :: "int \<Rightarrow> bytes \<Rightarrow> nat \<Rightarrow> 'a net_state_scheme \<Rightarrow> (int \<times> 'a net_state_scheme) option" where
  "sys_write fd buf n s = do {
     data \<leftarrow> mem_read buf 0 n;
     let (r, s) = syscall s;
     if r < 0 then Some (-1, s)
     else Some (int (min (nat r) n), s\<lparr>wire := (fd, take (nat r) data) # wire s\<rparr>)
   }"

text \<open>
  \<^verbatim>\<open>read\<close> takes the next waiting frame, cut to the size of the buffer. With no frame waiting the
  call would block: no result.
\<close>

definition sys_read :: "int \<Rightarrow> nat \<Rightarrow> 'a net_state_scheme \<Rightarrow> (int \<times> bytes \<times> 'a net_state_scheme) option" where
  "sys_read fd n s =
     (let (r, s) = syscall s
      in if r = -1 then Some (-1, [], s)
         else case rx s fd of
           [] \<Rightarrow> None
         | f # fs \<Rightarrow> Some (int (length (take n f)), take n f, s\<lparr>rx := (rx s)(fd := fs)\<rparr>))"

definition sys_poll :: "int \<Rightarrow> 'a net_state_scheme \<Rightarrow> int \<times> 'a net_state_scheme" where
  "sys_poll fd s =
     (let (r, s) = syscall s
      in (if r = -1 then -1 else if rx s fd = [] then 0 else 1, s))"

text \<open>The configuration calls on an open descriptor; the first that fails closes it.\<close>

fun setup_calls :: "int \<Rightarrow> dev_request list \<Rightarrow> 'a net_state_scheme \<Rightarrow> int \<times> 'a net_state_scheme" where
  "setup_calls fd [] s = (0, s)"
| "setup_calls fd (rq # rqs) s =
     (let (r, s) = syscall s; s = s\<lparr>requests := (fd, rq) # requests s\<rparr>
      in if r = -1 then (-1, sys_close s) else setup_calls fd rqs s)"

definition device_priv :: "nat \<Rightarrow> 'a net_state_scheme \<Rightarrow> ether_priv option" where
  "device_priv dev s = do { d \<leftarrow> dev_heap s dev; dev_priv d }"

definition set_priv_fd :: "nat \<Rightarrow> int \<Rightarrow> 'a net_state_scheme \<Rightarrow> 'a net_state_scheme option" where
  "set_priv_fd dev fd s = do {
     d \<leftarrow> dev_heap s dev;
     pv \<leftarrow> dev_priv d;
     Some (s\<lparr>dev_heap := (dev_heap s)(dev \<mapsto> d\<lparr>dev_priv := Some (pv\<lparr>pv_fd := fd\<rparr>)\<rparr>)\<rparr>)
   }"

text \<open>
  Both drivers ask the kernel for the hardware address in the same way. The 14 bytes of
  \<^verbatim>\<open>sa_data\<close> are zero where the call does not write.
\<close>

definition ether_dev_addr :: "nat \<Rightarrow> 'a net_state_scheme \<Rightarrow> (int \<times> 'a net_state_scheme) option" where
  "ether_dev_addr dev s =
     (let (soc, s) = syscall s
      in if soc = -1 then Some (-1, s)
         else do {
           d \<leftarrow> dev_heap s dev;
           _ \<leftarrow> dev_priv d;
           let hw = sys_data s (sys_n s) @ replicate 14 0;
           let (r, s) = syscall s;
           if r = -1 then Some (-1, sys_close s)
           else do {
             addr \<leftarrow> mem_read hw 0 ETHER_ADDR_LEN;
             address \<leftarrow> mem_write (dev_address d) 0 addr;
             Some (0, sys_close (s\<lparr>dev_heap := (dev_heap s)(dev \<mapsto> d\<lparr>dev_address := address\<rparr>)\<rparr>))
           }
         })"

subsection \<open>TAP device\<close>

definition ETHER_TAP_IRQ :: nat where "ETHER_TAP_IRQ = 34 + 2"

definition ether_tap_addr :: "nat \<Rightarrow> 'a net_state_scheme \<Rightarrow> (int \<times> 'a net_state_scheme) option" where
  "ether_tap_addr = ether_dev_addr"

definition ether_tap_open :: "nat \<Rightarrow> 'a net_state_scheme \<Rightarrow> (int \<times> 'a net_state_scheme) option" where
  "ether_tap_open dev s = do {
     pv \<leftarrow> device_priv dev s;
     let (fd, s) = syscall s;
     s \<leftarrow> set_priv_fd dev fd s;
     if fd = -1 then Some (-1, s)
     else
       (let (r, s) = setup_calls fd
              [TUNSETIFF (strncpy16 (pv_name pv)), F_SETOWN_SELF, F_SETFL_ASYNC, F_SETSIG (pv_irq pv)] s
        in if r = -1 then Some (-1, s)
           else do {
             d \<leftarrow> dev_heap s dev;
             addr \<leftarrow> mem_read (dev_address d) 0 ETHER_ADDR_LEN;
             if addr = ETHER_ADDR_ANY
             then do {
               (r, s) \<leftarrow> ether_tap_addr dev s;
               if r = -1 then Some (-1, sys_close s) else Some (0, s)
             }
             else Some (0, s)
           })
   }"

definition ether_tap_close :: "nat \<Rightarrow> 'a net_state_scheme \<Rightarrow> (int \<times> 'a net_state_scheme) option" where
  "ether_tap_close dev s = do { _ \<leftarrow> device_priv dev s; Some (0, sys_close s) }"

definition ether_tap_write :: "nat \<Rightarrow> bytes \<Rightarrow> nat \<Rightarrow> 'a net_state_scheme \<Rightarrow> (int \<times> 'a net_state_scheme) option" where
  "ether_tap_write dev frame flen s = do { pv \<leftarrow> device_priv dev s; sys_write (pv_fd pv) frame flen s }"

definition ether_tap_transmit ::
  "nat \<Rightarrow> u16 \<Rightarrow> bytes \<Rightarrow> nat \<Rightarrow> bytes option \<Rightarrow> 'a net_state_scheme \<Rightarrow> (int \<times> 'a net_state_scheme) option" where
  "ether_tap_transmit dev type buf len dst s = ether_transmit_helper dev type buf len dst ether_tap_write s"

definition ether_tap_read :: "nat \<Rightarrow> nat \<Rightarrow> 'a net_state_scheme \<Rightarrow> (int \<times> bytes \<times> 'a net_state_scheme) option" where
  "ether_tap_read dev n s = do {
     pv \<leftarrow> device_priv dev s;
     (len, buf, s) \<leftarrow> sys_read (pv_fd pv) n s;
     if len \<le> 0 then Some (-1, buf, s) else Some (len, buf, s)
   }"

partial_function (option) ether_isr_loop ::
  "(nat \<Rightarrow> nat \<Rightarrow> 'a net_state_scheme \<Rightarrow> (int \<times> bytes \<times> 'a net_state_scheme) option) \<Rightarrow> int \<Rightarrow> nat \<Rightarrow>
   'a net_state_scheme \<Rightarrow> (int \<times> 'a net_state_scheme) option" where
  "ether_isr_loop callback fd dev s =
     (let (ret, s) = sys_poll fd s
      in if ret = -1 then
           (if errno s = EINTR then ether_isr_loop callback fd dev s else Some (-1, s))
         else if ret = 0 then Some (0, s)
         else Option.bind (ether_poll_helper dev callback s) (\<lambda>(_, s). ether_isr_loop callback fd dev s))"

definition ether_tap_isr :: "nat \<Rightarrow> nat \<Rightarrow> 'a net_state_scheme \<Rightarrow> (int \<times> 'a net_state_scheme) option" where
  "ether_tap_isr irq dev s = do { pv \<leftarrow> device_priv dev s; ether_isr_loop ether_tap_read (pv_fd pv) dev s }"

definition ether_tap_init :: "string \<Rightarrow> string option \<Rightarrow> 'a net_state_scheme \<Rightarrow> (nat option \<times> 'a net_state_scheme) option" where
  "ether_tap_init name addr s =
     (case network_device_allocate (Some ether_setup_helper) s of
        (None, s) \<Rightarrow> Some (None, s)
      | (Some dev, s) \<Rightarrow> do {
          d \<leftarrow> dev_heap s dev;
          let (r, address) = (case addr of
             None \<Rightarrow> (0, Some (dev_address d))
           | Some a \<Rightarrow> ether_addr_pton (Some a) (Some (dev_address d)));
          address \<leftarrow> address;
          let d = d\<lparr>dev_address := address\<rparr>;
          let s = s\<lparr>dev_heap := (dev_heap s)(dev \<mapsto> d)\<rparr>;
          if r = -1 then Some (None, s)
          else
            (let d = d\<lparr>dev_ops := Some ether_tap_ops\<rparr>;
                 s = s\<lparr>dev_heap := (dev_heap s)(dev \<mapsto> d)\<rparr>
             in case memory_alloc s of
                  (None, s) \<Rightarrow> Some (None, s)
                | (Some _, s) \<Rightarrow> do {
                    let pv = \<lparr>pv_name = strncpy16 name, pv_fd = -1, pv_irq = ETHER_TAP_IRQ\<rparr>;
                    let s = s\<lparr>dev_heap := (dev_heap s)(dev \<mapsto> d\<lparr>dev_priv := Some pv\<rparr>)\<rparr>;
                    (r, s) \<leftarrow> network_device_register dev s;
                    if r = -1 then Some (None, s)
                    else do {
                      d \<leftarrow> dev_heap s dev;
                      let (_, s) = intr_request_irq (pv_irq pv) ether_tap_isr_handler NETWORK_IRQ_SHARED (dev_name d) dev s;
                      Some (Some dev, s)
                    }
                  })
        })"

subsection \<open>Packet socket\<close>

definition ETHER_PCAP_IRQ :: nat where "ETHER_PCAP_IRQ = 34 + 3"

definition ether_pcap_addr :: "nat \<Rightarrow> 'a net_state_scheme \<Rightarrow> (int \<times> 'a net_state_scheme) option" where
  "ether_pcap_addr = ether_dev_addr"

definition ether_pcap_open :: "nat \<Rightarrow> 'a net_state_scheme \<Rightarrow> (int \<times> 'a net_state_scheme) option" where
  "ether_pcap_open dev s = do {
     pv \<leftarrow> device_priv dev s;
     let (fd, s) = syscall s;
     s \<leftarrow> set_priv_fd dev fd s;
     if fd = -1 then Some (-1, s)
     else
       (let (r, s) = setup_calls fd
              [SIOCGIFINDEX (strncpy16 (pv_name pv)), BIND_IFINDEX, SIOCGIFFLAGS, SIOCSIFFLAGS_PROMISC,
               F_SETOWN_SELF, F_SETFL_ASYNC, F_SETSIG (pv_irq pv)] s
        in if r = -1 then Some (-1, s)
           else do {
             d \<leftarrow> dev_heap s dev;
             addr \<leftarrow> mem_read (dev_address d) 0 ETHER_ADDR_LEN;
             if addr = ETHER_ADDR_ANY
             then do {
               (r, s) \<leftarrow> ether_pcap_addr dev s;
               if r = -1 then Some (-1, sys_close s) else Some (0, s)
             }
             else Some (0, s)
           })
   }"

definition ether_pcap_close :: "nat \<Rightarrow> 'a net_state_scheme \<Rightarrow> (int \<times> 'a net_state_scheme) option" where
  "ether_pcap_close dev s = do { _ \<leftarrow> device_priv dev s; Some (0, sys_close s) }"

definition ether_pcap_write :: "nat \<Rightarrow> bytes \<Rightarrow> nat \<Rightarrow> 'a net_state_scheme \<Rightarrow> (int \<times> 'a net_state_scheme) option" where
  "ether_pcap_write dev frame flen s = do { pv \<leftarrow> device_priv dev s; sys_write (pv_fd pv) frame flen s }"

definition ether_pcap_transmit ::
  "nat \<Rightarrow> u16 \<Rightarrow> bytes \<Rightarrow> nat \<Rightarrow> bytes option \<Rightarrow> 'a net_state_scheme \<Rightarrow> (int \<times> 'a net_state_scheme) option" where
  "ether_pcap_transmit dev type buf len dst s = ether_transmit_helper dev type buf len dst ether_pcap_write s"

definition ether_pcap_read :: "nat \<Rightarrow> nat \<Rightarrow> 'a net_state_scheme \<Rightarrow> (int \<times> bytes \<times> 'a net_state_scheme) option" where
  "ether_pcap_read dev n s = do {
     pv \<leftarrow> device_priv dev s;
     (len, buf, s) \<leftarrow> sys_read (pv_fd pv) n s;
     if len \<le> 0 then Some (-1, buf, s) else Some (len, buf, s)
   }"

definition ether_pcap_isr :: "nat \<Rightarrow> nat \<Rightarrow> 'a net_state_scheme \<Rightarrow> (int \<times> 'a net_state_scheme) option" where
  "ether_pcap_isr irq dev s = do { pv \<leftarrow> device_priv dev s; ether_isr_loop ether_pcap_read (pv_fd pv) dev s }"

definition ether_pcap_init :: "string \<Rightarrow> string option \<Rightarrow> 'a net_state_scheme \<Rightarrow> (nat option \<times> 'a net_state_scheme) option" where
  "ether_pcap_init name addr s =
     (case network_device_allocate (Some ether_setup_helper) s of
        (None, s) \<Rightarrow> Some (None, s)
      | (Some dev, s) \<Rightarrow> do {
          d \<leftarrow> dev_heap s dev;
          let (r, address) = (case addr of
             None \<Rightarrow> (0, Some (dev_address d))
           | Some a \<Rightarrow> ether_addr_pton (Some a) (Some (dev_address d)));
          address \<leftarrow> address;
          let d = d\<lparr>dev_address := address\<rparr>;
          let s = s\<lparr>dev_heap := (dev_heap s)(dev \<mapsto> d)\<rparr>;
          if r = -1 then Some (None, s)
          else
            (let d = d\<lparr>dev_ops := Some ether_pcap_ops\<rparr>;
                 s = s\<lparr>dev_heap := (dev_heap s)(dev \<mapsto> d)\<rparr>
             in case memory_alloc s of
                  (None, s) \<Rightarrow> Some (None, s)
                | (Some _, s) \<Rightarrow> do {
                    let pv = \<lparr>pv_name = strncpy16 name, pv_fd = -1, pv_irq = ETHER_PCAP_IRQ\<rparr>;
                    let s = s\<lparr>dev_heap := (dev_heap s)(dev \<mapsto> d\<lparr>dev_priv := Some pv\<rparr>)\<rparr>;
                    (r, s) \<leftarrow> network_device_register dev s;
                    if r = -1 then Some (None, s)
                    else do {
                      d \<leftarrow> dev_heap s dev;
                      let (_, s) = intr_request_irq (pv_irq pv) ether_pcap_isr_handler NETWORK_IRQ_SHARED (dev_name d) dev s;
                      Some (Some dev, s)
                    }
                  })
        })"

end
