(* ===== verification/Device.thy ===== *)
theory Device
  imports Loopback Ether_Dev
begin

text \<open>
  Opening, closing and transmitting on a device through its table of operations
  (\<^verbatim>\<open>network_device_open\<close>, \<^verbatim>\<open>network_device_close\<close>, \<^verbatim>\<open>network_device_output\<close> of \<^verbatim>\<open>src/lib/net.c\<close>).
  The contract of a transmit function is the locale \<open>link\<close>; the three drivers are its instances.
\<close>

section \<open>Definitions\<close>

text \<open>The operation tables: \<open>None\<close> is a null entry.\<close>

definition ops_open :: "dev_ops \<Rightarrow> (nat \<Rightarrow> 'a net_state_scheme \<Rightarrow> (int \<times> 'a net_state_scheme) option) option" where
  "ops_open ops = (case ops of loopback_ops \<Rightarrow> None | ether_tap_ops \<Rightarrow> Some ether_tap_open | ether_pcap_ops \<Rightarrow> Some ether_pcap_open)"

definition ops_close :: "dev_ops \<Rightarrow> (nat \<Rightarrow> 'a net_state_scheme \<Rightarrow> (int \<times> 'a net_state_scheme) option) option" where
  "ops_close ops = (case ops of loopback_ops \<Rightarrow> None | ether_tap_ops \<Rightarrow> Some ether_tap_close | ether_pcap_ops \<Rightarrow> Some ether_pcap_close)"

definition ops_transmit ::
  "dev_ops \<Rightarrow> nat \<Rightarrow> u16 \<Rightarrow> bytes \<Rightarrow> nat \<Rightarrow> bytes option \<Rightarrow> 'a net_state_scheme \<Rightarrow> (int \<times> 'a net_state_scheme) option" where
  "ops_transmit ops =
     (case ops of loopback_ops \<Rightarrow> loopback_transmit | ether_tap_ops \<Rightarrow> ether_tap_transmit | ether_pcap_ops \<Rightarrow> ether_pcap_transmit)"

definition set_flags :: "nat \<Rightarrow> (u16 \<Rightarrow> u16) \<Rightarrow> 'a net_state_scheme \<Rightarrow> 'a net_state_scheme option" where
  "set_flags dev f s = do {
     d \<leftarrow> dev_heap s dev;
     Some (s\<lparr>dev_heap := (dev_heap s)(dev \<mapsto> d\<lparr>dev_flags := f (dev_flags d)\<rparr>)\<rparr>)
   }"

definition network_device_open :: "nat \<Rightarrow> 'a net_state_scheme \<Rightarrow> (int \<times> 'a net_state_scheme) option" where
  "network_device_open dev s = do {
     d \<leftarrow> dev_heap s dev;
     if NETWORK_DEVICE_IS_UP d then Some (-1, s)
     else do {
       ops \<leftarrow> dev_ops d;
       (r, s) \<leftarrow> (case ops_open ops of None \<Rightarrow> Some (0, s) | Some f \<Rightarrow> f dev s);
       if r = -1 then Some (-1, s)
       else do {
         s \<leftarrow> set_flags dev (\<lambda>fl. fl OR NETWORK_DEVICE_FLAG_UP) s;
         Some (0, s)
       }
     }
   }"

definition network_device_close :: "nat \<Rightarrow> 'a net_state_scheme \<Rightarrow> (int \<times> 'a net_state_scheme) option" where
  "network_device_close dev s = do {
     d \<leftarrow> dev_heap s dev;
     if \<not> NETWORK_DEVICE_IS_UP d then Some (-1, s)
     else do {
       ops \<leftarrow> dev_ops d;
       (r, s) \<leftarrow> (case ops_close ops of None \<Rightarrow> Some (0, s) | Some f \<Rightarrow> f dev s);
       if r = -1 then Some (-1, s)
       else do {
         s \<leftarrow> set_flags dev (\<lambda>fl. fl AND NOT NETWORK_DEVICE_FLAG_UP) s;
         Some (0, s)
       }
     }
   }"

definition network_device_output ::
  "nat \<Rightarrow> u16 \<Rightarrow> bytes \<Rightarrow> nat \<Rightarrow> bytes option \<Rightarrow> 'a net_state_scheme \<Rightarrow> (int \<times> 'a net_state_scheme) option" where
  "network_device_output dev type data len dst s = do {
     d \<leftarrow> dev_heap s dev;
     if \<not> NETWORK_DEVICE_IS_UP d then Some (-1, s)
     else if len > unat (dev_mtu d) then Some (-1, s)
     else do {
       ops \<leftarrow> dev_ops d;
       (r, s) \<leftarrow> ops_transmit ops dev type data len dst s;
       Some (if r = -1 then -1 else 0, s)
     }
   }"

text \<open>The loops of \<^verbatim>\<open>network_run\<close> and \<^verbatim>\<open>network_shutdown\<close> over the registered devices; results are ignored.\<close>

fun open_devices :: "nat list \<Rightarrow> 'a net_state_scheme \<Rightarrow> 'a net_state_scheme option" where
  "open_devices [] s = Some s"
| "open_devices (dev # devs) s = do { (_, s) \<leftarrow> network_device_open dev s; open_devices devs s }"

fun close_devices :: "nat list \<Rightarrow> 'a net_state_scheme \<Rightarrow> 'a net_state_scheme option" where
  "close_devices [] s = Some s"
| "close_devices (dev # devs) s = do { (_, s) \<leftarrow> network_device_close dev s; close_devices devs s }"

definition network_shutdown :: "'a net_state_scheme \<Rightarrow> 'a net_state_scheme option" where
  "network_shutdown s = close_devices (devices s) s"

section \<open>Lemmas\<close>

lemma sys_write_out:
  assumes "n \<le> length buf"
  shows "\<exists>r s'. sys_write fd buf n s = Some (r, s') \<and> net_out s s'"
proof -
  obtain r t where t: "syscall s = (r, t)" by fastforce
  have "net_out t (t\<lparr>wire := w\<rparr>)" for w
    by (simp add: net_out_def net_ext_quiet)
  then have "net_out s (t\<lparr>wire := w\<rparr>)" for w
    using syscall_out [OF t] net_out_trans by blast
  with t assms syscall_out [OF t] show ?thesis
    by (simp add: sys_write_def)
qed

lemma ether_write_out:
  assumes "device_priv dev s = Some pv" "n \<le> length buf"
  shows "\<exists>r s'. ether_tap_write dev buf n s = Some (r, s') \<and> net_out s s'"
    "\<exists>r s'. ether_pcap_write dev buf n s = Some (r, s') \<and> net_out s s'"
  using sys_write_out [OF assms(2), of "pv_fd pv" s] assms(1)
  by (auto simp: ether_tap_write_def ether_pcap_write_def)

text \<open>
  The contract of a link: on a well-formed state, a registered device driven by it, data that are
  really there and a destination long enough for the hardware, transmission is defined and changes
  only what the output path may change.
\<close>

locale link =
  fixes ops :: dev_ops
    and transmit :: "nat \<Rightarrow> u16 \<Rightarrow> bytes \<Rightarrow> nat \<Rightarrow> bytes option \<Rightarrow> 'a net_state_scheme \<Rightarrow> (int \<times> 'a net_state_scheme) option"
    and hwlen :: nat
  assumes transmit_ok: "wf_net s \<Longrightarrow> dev \<in> set (devices s) \<Longrightarrow> dev_heap s dev = Some d \<Longrightarrow> dev_ops d = Some ops \<Longrightarrow>
      len \<le> length data \<Longrightarrow> len \<le> unat (dev_mtu d) \<Longrightarrow> hwlen = 0 \<or> (\<exists>a. dst = Some a \<and> hwlen \<le> length a) \<Longrightarrow>
      \<exists>r s'. transmit dev type data len dst s = Some (r, s') \<and> net_out s s'"
    and table: "ops_transmit ops = transmit"
begin

lemma output_ok:
  fixes s :: "'a net_state_scheme"
  assumes "wf_net s" "dev \<in> set (devices s)" "dev_heap s dev = Some d" "dev_ops d = Some ops"
    "len \<le> length data" "hwlen = 0 \<or> (\<exists>a. dst = Some a \<and> hwlen \<le> length a)"
  shows "\<exists>r s'. network_device_output dev type data len dst s = Some (r, s') \<and> net_out s s' \<and> r \<in> {0, -1}"
  using transmit_ok [OF assms(1-5) _ assms(6), of type] assms(3,4)
  by (auto simp: network_device_output_def table)

lemma output_refused:
  assumes "dev_heap s dev = Some d" "\<not> NETWORK_DEVICE_IS_UP d \<or> unat (dev_mtu d) < len"
  shows "network_device_output dev type data len dst s = Some (-1, s)"
  using assms by (auto simp: network_device_output_def)

end

interpretation lo_link: link loopback_ops loopback_transmit 0
  by unfold_locales (use loopback_transmit_out in \<open>blast\<close>, simp add: ops_transmit_def)

lemma ether_link_ok:
  assumes wf: "wf_net s" "dev \<in> set (devices s)" "dev_heap s dev = Some d"
    and ops: "dev_ops d = Some ether_tap_ops \<or> dev_ops d = Some ether_pcap_ops"
    and len: "len \<le> length data" "len \<le> unat (dev_mtu d)"
    and dst: "dst = Some a" "6 \<le> length a"
    and callback: "\<And>buf n. n \<le> length buf \<Longrightarrow> \<exists>r s'. callback dev buf n s = Some (r, s') \<and> net_out s s'"
  shows "\<exists>r s'. ether_transmit_helper dev type data len dst callback s = Some (r, s') \<and> net_out s s'"
proof -
  from wf have "wf_device d" by (auto dest: wf_device_heap)
  with ops have d: "length (dev_address d) = 16" "unat (dev_mtu d) \<le> 1500"
    by (auto simp: wf_device_def NETWORK_DEVICE_ADDR_LEN_def)
  let ?f = "ether_frame (take 6 a) (take 6 (dev_address d)) type (take len data) @ replicate (1500 - max 46 len) 0"
  have "length ?f = 1514"
    using d dst len by (simp add: length_ether_frame)
  then obtain r s' where "callback dev ?f (14 + max 46 len) s = Some (r, s')" "net_out s s'"
    using callback [of "14 + max 46 len" ?f] d len by auto
  with ether_transmit_helper_eq [of s dev d dst a len data type callback] wf dst d len show ?thesis
    by simp
qed

lemma device_priv_wf:
  assumes "wf_net s" "dev \<in> set (devices s)" "dev_heap s dev = Some d"
    "dev_ops d = Some ether_tap_ops \<or> dev_ops d = Some ether_pcap_ops"
  shows "\<exists>pv. device_priv dev s = Some pv"
proof -
  from assms(1-3) have "wf_device d" by (auto dest: wf_device_heap)
  with assms show ?thesis by (auto simp: device_priv_def wf_device_def)
qed

interpretation tap_link: link ether_tap_ops ether_tap_transmit 6
proof (unfold_locales, goal_cases)
  case (1 s dev d len data dst type)
  then show ?case
    unfolding ether_tap_transmit_def
    using device_priv_wf [of s dev d] ether_write_out(1) by (auto intro!: ether_link_ok)
qed (simp add: ops_transmit_def)

interpretation pcap_link: link ether_pcap_ops ether_pcap_transmit 6
proof (unfold_locales, goal_cases)
  case (1 s dev d len data dst type)
  then show ?case
    unfolding ether_pcap_transmit_def
    using device_priv_wf [of s dev d] ether_write_out(2) by (auto intro!: ether_link_ok)
qed (simp add: ops_transmit_def)

text \<open>Output on any registered device.\<close>

lemma network_device_output_out:
  assumes wf: "wf_net s" "dev \<in> set (devices s)" and len: "len \<le> length data"
    and dst: "\<And>d. dev_heap s dev = Some d \<Longrightarrow> dev_ops d \<noteq> Some loopback_ops \<Longrightarrow> \<exists>a. dst = Some a \<and> 6 \<le> length a"
  shows "\<exists>r s'. network_device_output dev type data len dst s = Some (r, s') \<and> net_out s s' \<and> r \<in> {0, -1}"
proof -
  from wf obtain d where d: "dev_heap s dev = Some d" "wf_device d" by (auto dest: wf_device_heap)
  then obtain ops where ops: "dev_ops d = Some ops" by (auto simp: wf_device_def split: option.splits)
  show ?thesis
  proof (cases ops)
    case loopback_ops
    with lo_link.output_ok [OF wf d(1) _ len] ops show ?thesis by simp
  next
    case ether_tap_ops
    with tap_link.output_ok [OF wf d(1) _ len] ops dst [OF d(1)] show ?thesis by simp
  next
    case ether_pcap_ops
    with pcap_link.output_ok [OF wf d(1) _ len] ops dst [OF d(1)] show ?thesis by simp
  qed
qed

text \<open>When the kernel takes whole frames, an open Ethernet device puts exactly the frame on the wire.\<close>

lemma ether_output_wire:
  fixes s :: "'a net_state_scheme"
  assumes wf: "wf_net s" "dev \<in> set (devices s)" and d: "dev_heap s dev = Some d" "dev_priv d = Some pv"
    and ops: "dev_ops d = Some ether_tap_ops \<or> dev_ops d = Some ether_pcap_ops" and up: "NETWORK_DEVICE_IS_UP d"
    and len: "len \<le> unat (dev_mtu d)" "len \<le> length data" and dst: "6 \<le> length a"
    and sys: "\<forall>n. 1514 \<le> sys_ret s n"
  shows "\<exists>s'. network_device_output dev type data len (Some a) s = Some (0, s') \<and> net_out s s' \<and>
    wire s' = (pv_fd pv, ether_frame (take 6 a) (take 6 (dev_address d)) type (take len data)) # wire s"
proof -
  from wf d have "wf_device d" by (auto dest: wf_device_heap)
  with ops have addr: "length (dev_address d) = 16" "unat (dev_mtu d) \<le> 1500"
    by (auto simp: wf_device_def NETWORK_DEVICE_ADDR_LEN_def)
  let ?f = "ether_frame (take 6 a) (take 6 (dev_address d)) type (take len data)"
  let ?buf = "?f @ replicate (1500 - max 46 len) 0"
  let ?n = "14 + max 46 len"
  have lf: "length ?f = ?n" using addr dst len by (subst length_ether_frame) auto
  have n: "?n \<le> 1514" using len addr by simp
  obtain r t where t: "syscall s = (r, t)" by fastforce
  have r: "1514 \<le> r" using t sys by (auto simp: syscall_def Let_def)
  have wt: "wire t = wire s" using t by (auto simp: syscall_def Let_def)
  have "sys_write (pv_fd pv) ?buf ?n s = Some (int ?n, t\<lparr>wire := (pv_fd pv, ?f) # wire s\<rparr>)"
    using t r n lf wt by (simp add: sys_write_def)
  then have tx: "ops_transmit (the (dev_ops d)) dev type data len (Some a) s = Some (0, t\<lparr>wire := (pv_fd pv, ?f) # wire s\<rparr>)"
    using ops d addr len dst ether_transmit_helper_eq [OF d(1) refl dst, of len data type]
    by (auto simp: ops_transmit_def ether_tap_transmit_def ether_pcap_transmit_def ether_tap_write_def
        ether_pcap_write_def device_priv_def)
  obtain q s' where out: "network_device_output dev type data len (Some a) s = Some (q, s')" "net_out s s'"
    using network_device_output_out [OF wf len(2), of "Some a" type] dst by auto
  with tx ops up d len show ?thesis
    by (auto simp: network_device_output_def)
qed

text \<open>Only the loopback device feeds the input queues.\<close>

lemma sys_write_protocols: "sys_write fd buf n s = Some (r, s') \<Longrightarrow> protocols s' = protocols s"
  by (auto simp: sys_write_def syscall_def Let_def bind_eq_Some_conv split: if_splits)

lemma ether_write_protocols:
  "ether_tap_write dev buf n s = Some (r, s') \<Longrightarrow> protocols s' = protocols s"
  "ether_pcap_write dev buf n s = Some (r, s') \<Longrightarrow> protocols s' = protocols s"
  by (auto simp: ether_tap_write_def ether_pcap_write_def bind_eq_Some_conv dest: sys_write_protocols)

lemma ether_transmit_protocols:
  assumes "\<And>buf n r s'. callback dev buf n s = Some (r, s') \<Longrightarrow> protocols s' = protocols s"
    "ether_transmit_helper dev type data len dst callback s = Some (r, s')"
  shows "protocols s' = protocols s"
  using assms(2) by (auto simp: ether_transmit_helper_def Let_def bind_eq_Some_conv split: if_splits option.splits dest: assms(1))

lemma network_device_output_adds:
  assumes "network_device_output dev type data len dst s = Some (r, s')" "dev_heap s dev = Some d"
  shows "queue_adds (\<lambda>t x. dev_ops d = Some loopback_ops \<and> t = type \<and> x = take len data) s s'"
proof -
  consider (none) "s' = s" | (sent) ops q where "dev_ops d = Some ops" "ops_transmit ops dev type data len dst s = Some (q, s')"
    using assms by (auto simp: network_device_output_def bind_eq_Some_conv split: if_splits)
  then show ?thesis
  proof cases
    case (sent ops q)
    show ?thesis
    proof (cases ops)
      case loopback_ops
      with sent obtain r2 where "network_input_handler type data len dev s = Some (r2, s')"
        by (auto simp: ops_transmit_def loopback_transmit_def bind_eq_Some_conv)
      from network_input_handler_adds [OF this] sent(1) loopback_ops show ?thesis by simp
    next
      case ether_tap_ops
      with sent have "protocols s' = protocols s"
        by (auto simp: ops_transmit_def ether_tap_transmit_def dest!: ether_transmit_protocols [rotated] dest: ether_write_protocols)
      then show ?thesis by (rule queue_adds_same)
    next
      case ether_pcap_ops
      with sent have "protocols s' = protocols s"
        by (auto simp: ops_transmit_def ether_pcap_transmit_def dest!: ether_transmit_protocols [rotated] dest: ether_write_protocols)
      then show ?thesis by (rule queue_adds_same)
    qed
  qed (simp add: queue_adds_same)
qed

subsection \<open>Opening and closing\<close>

text \<open>
  What opening and closing may change: descriptor, address and the \<^verbatim>\<open>UP\<close> flag of one device, and
  counters of the system.
\<close>

definition dev_same :: "network_device \<Rightarrow> network_device \<Rightarrow> bool" where
  "dev_same d d' \<longleftrightarrow>
     dev_interfaces d' = dev_interfaces d \<and> dev_ops d' = dev_ops d \<and> dev_mtu d' = dev_mtu d \<and>
     dev_type d' = dev_type d \<and> dev_name d' = dev_name d \<and> length (dev_address d') = length (dev_address d) \<and>
     dev_broadcast d' = dev_broadcast d \<and> dev_address_len d' = dev_address_len d \<and> (dev_priv d' = None \<longleftrightarrow> dev_priv d = None) \<and>
     dev_flags d' AND NETWORK_DEVICE_FLAG_NEED_ARP = dev_flags d AND NETWORK_DEVICE_FLAG_NEED_ARP"

definition dev_ext :: "nat \<Rightarrow> 'a net_state_scheme \<Rightarrow> 'a net_state_scheme \<Rightarrow> bool" where
  "dev_ext dev s s' \<longleftrightarrow>
     rel_option dev_same (dev_heap s dev) (dev_heap s' dev) \<and> (\<forall>p. p \<noteq> dev \<longrightarrow> dev_heap s' p = dev_heap s p) \<and>
     if_heap s' = if_heap s \<and> devices s' = devices s \<and> protocols s' = protocols s \<and> pending s' = pending s \<and>
     timers s' = timers s \<and> events s' = events s \<and> irq_vec s' = irq_vec s \<and> mem_n s' = mem_n s \<and>
     sys_ret s' = sys_ret s \<and> net_state.more s' = net_state.more s"

lemma dev_same_refl [simp]: "dev_same d d"
  by (simp add: dev_same_def)

lemma dev_same_trans: "dev_same d e \<Longrightarrow> dev_same e f \<Longrightarrow> dev_same d f"
  by (simp add: dev_same_def)

lemma dev_same_wf: "dev_same d d' \<Longrightarrow> wf_device d \<Longrightarrow> wf_device d'"
  by (auto simp: dev_same_def wf_device_def split: option.splits dev_ops.splits)

lemma dev_ext_refl [simp]: "dev_ext dev s s"
  by (simp add: dev_ext_def option.rel_refl)

lemma dev_ext_trans [trans]: "dev_ext dev s t \<Longrightarrow> dev_ext dev t u \<Longrightarrow> dev_ext dev s u"
  unfolding dev_ext_def by (auto simp: rel_option_iff split: option.splits intro: dev_same_trans)

lemma dev_ext_wf:
  assumes wf: "wf_net s" and ext: "dev_ext dev s s'"
  shows "wf_net s'"
proof -
  have same: "rel_option dev_same (dev_heap s p) (dev_heap s' p)" for p
    using ext by (cases "p = dev") (auto simp: dev_ext_def option.rel_refl)
  have bwd: "\<exists>e. dev_heap s p = Some e \<and> dev_same e d" if "dev_heap s' p = Some d" for p d
    using same [of p] that by (auto simp: rel_option_iff split: option.splits)
  have fwd: "\<exists>d. dev_heap s' p = Some d \<and> dev_same e d" if "dev_heap s p = Some e" for p e
    using same [of p] that by (auto simp: rel_option_iff split: option.splits)
  have eq: "if_heap s' = if_heap s" "devices s' = devices s" "protocols s' = protocols s" "mem_n s' = mem_n s"
    using ext by (simp_all add: dev_ext_def)
  have "wf_ifaces s"
    using wf by (simp add: wf_net_def)
  then have "wf_ifaces s'"
    unfolding wf_ifaces_def eq using bwd by (fastforce simp: dev_same_def)
  moreover have "\<forall>p \<in> set (devices s'). \<exists>d. dev_heap s' p = Some d \<and> wf_device d"
    using wf fwd dev_same_wf unfolding wf_net_def eq by blast
  moreover have "dom (dev_heap s') = dom (dev_heap s)"
    using bwd fwd by blast
  ultimately show ?thesis
    using wf unfolding wf_net_def by (simp add: eq)
qed

lemma dev_ext_softirq: "dev_ext dev s s' \<Longrightarrow> softirq_ok s \<Longrightarrow> softirq_ok s'"
  by (simp add: dev_ext_def softirq_ok_def)

lemma syscall_ext: "syscall s = (r, s') \<Longrightarrow> dev_ext dev s s'"
  by (auto simp: syscall_def Let_def dev_ext_def option.rel_refl)

lemma sys_close_ext [simp]: "dev_ext dev s (sys_close s)"
  using syscall_ext [of s "fst (syscall s)" "sys_close s"] by (simp add: sys_close_def)

lemma setup_calls_ext: "setup_calls fd rqs s = (r, s') \<Longrightarrow> dev_ext dev s s'"
proof (induction rqs arbitrary: s)
  case (Cons rq rqs)
  obtain q t where t: "syscall s = (q, t)" by fastforce
  let ?t = "t\<lparr>requests := (fd, rq) # requests t\<rparr>"
  have "dev_ext dev t ?t"
    by (simp add: dev_ext_def option.rel_refl)
  with syscall_ext [OF t] have st: "dev_ext dev s ?t" by (rule dev_ext_trans)
  show ?case
  proof (cases "q = -1")
    case True
    with Cons.prems t st show ?thesis
      using dev_ext_trans [OF st sys_close_ext] by auto
  next
    case False
    with Cons.prems t have "dev_ext dev ?t s'" by (auto intro: Cons.IH)
    with st show ?thesis by (rule dev_ext_trans)
  qed
qed simp

lemma setup_calls_ok: "\<forall>n. sys_ret s n \<noteq> -1 \<Longrightarrow> fst (setup_calls fd rqs s) = 0"
  by (induction rqs arbitrary: s) (auto simp: syscall_def Let_def)

lemma dev_ext_update:
  assumes "dev_heap s dev = Some d" "dev_same d d'"
  shows "dev_ext dev s (s\<lparr>dev_heap := (dev_heap s)(dev \<mapsto> d')\<rparr>)"
  using assms by (simp add: dev_ext_def)

lemma ether_dev_addr_ext:
  assumes "dev_heap s dev = Some d" "dev_priv d \<noteq> None" "length (dev_address d) = 16"
  shows "\<exists>r s'. ether_dev_addr dev s = Some (r, s') \<and> dev_ext dev s s' \<and>
    ((\<forall>n. sys_ret s n \<noteq> -1) \<longrightarrow> r = 0)"
proof -
  obtain soc t where t: "syscall s = (soc, t)" by fastforce
  obtain q u where u: "syscall t = (q, u)" by fastforce
  let ?hw = "take 6 (sys_data t (sys_n t) @ replicate 14 0)"
  let ?d = "d\<lparr>dev_address := ?hw @ drop 6 (dev_address d)\<rparr>"
  have d: "dev_heap t dev = Some d" "dev_heap u dev = Some d"
    using assms t u by (auto simp: syscall_def Let_def)
  have su: "dev_ext dev s t" "dev_ext dev s u"
    by (rule syscall_ext [OF t], rule dev_ext_trans [OF syscall_ext [OF t] syscall_ext [OF u]])
  have hw: "length ?hw = 6" by simp
  then have "dev_same d ?d"
    using assms by (simp add: dev_same_def)
  note upd = dev_ext_trans [OF su(2) dev_ext_update [OF d(2) this]]
  have "dev_ext dev s (sys_close (u\<lparr>dev_heap := (dev_heap u)(dev \<mapsto> ?d)\<rparr>))"
    "dev_ext dev s (sys_close u)"
    by (rule dev_ext_trans [OF upd sys_close_ext], rule dev_ext_trans [OF su(2) sys_close_ext])
  moreover have "mem_write (dev_address d) 0 ?hw = Some (?hw @ drop 6 (dev_address d))"
    using assms(3) hw by (simp add: mem_write_def)
  moreover have "soc = -1 \<or> q = -1 \<Longrightarrow> \<exists>n. sys_ret s n = -1"
    using t u by (auto simp: syscall_def Let_def)
  ultimately show ?thesis
    using t u d assms su(1) by (auto simp: ether_dev_addr_def Let_def ETHER_ADDR_LEN_def)
qed

text \<open>The two drivers open their device by the same procedure with different requests.\<close>

definition ether_dev_open ::
  "(ether_priv \<Rightarrow> dev_request list) \<Rightarrow> nat \<Rightarrow> 'a net_state_scheme \<Rightarrow> (int \<times> 'a net_state_scheme) option" where
  "ether_dev_open rqs dev s = do {
     pv \<leftarrow> device_priv dev s;
     let (fd, s) = syscall s;
     s \<leftarrow> set_priv_fd dev fd s;
     if fd = -1 then Some (-1, s)
     else
       (let (r, s) = setup_calls fd (rqs pv) s
        in if r = -1 then Some (-1, s)
           else do {
             d \<leftarrow> dev_heap s dev;
             addr \<leftarrow> mem_read (dev_address d) 0 ETHER_ADDR_LEN;
             if addr = ETHER_ADDR_ANY
             then do {
               (r, s) \<leftarrow> ether_dev_addr dev s;
               if r = -1 then Some (-1, sys_close s) else Some (0, s)
             }
             else Some (0, s)
           })
   }"

lemma ether_tap_open_dev:
  "ether_tap_open = ether_dev_open (\<lambda>pv. [TUNSETIFF (strncpy16 (pv_name pv)), F_SETOWN_SELF, F_SETFL_ASYNC, F_SETSIG (pv_irq pv)])"
  unfolding fun_eq_iff ether_tap_open_def ether_dev_open_def ether_tap_addr_def by simp

lemma ether_pcap_open_dev:
  "ether_pcap_open = ether_dev_open (\<lambda>pv. [SIOCGIFINDEX (strncpy16 (pv_name pv)), BIND_IFINDEX, SIOCGIFFLAGS,
     SIOCSIFFLAGS_PROMISC, F_SETOWN_SELF, F_SETFL_ASYNC, F_SETSIG (pv_irq pv)])"
  unfolding fun_eq_iff ether_pcap_open_def ether_dev_open_def ether_pcap_addr_def by simp

lemma dev_ext_Some:
  "dev_ext dev s s' \<Longrightarrow> dev_heap s dev = Some d \<Longrightarrow> \<exists>d'. dev_heap s' dev = Some d' \<and> dev_same d d'"
  by (auto simp: dev_ext_def rel_option_iff split: option.splits)

lemma dev_ext_heap:
  assumes "dev_ext dev s s'" "dev_heap s dev = Some d" "dev_priv d \<noteq> None" "length (dev_address d) = 16"
  obtains d' where "dev_heap s' dev = Some d'" "dev_priv d' \<noteq> None" "length (dev_address d') = 16"
  using assms dev_ext_Some [OF assms(1,2)] by (auto simp: dev_same_def)

lemma set_priv_fd_ext:
  assumes "dev_heap s dev = Some d" "dev_priv d = Some pv"
  shows "\<exists>s'. set_priv_fd dev fd s = Some s' \<and> dev_ext dev s s'"
  using assms dev_ext_update [OF assms(1), of "d\<lparr>dev_priv := Some (pv\<lparr>pv_fd := fd\<rparr>)\<rparr>"]
  by (simp add: set_priv_fd_def dev_same_def)

lemma ether_dev_open_ext:
  assumes d: "dev_heap s dev = Some d" "dev_priv d \<noteq> None" "length (dev_address d) = 16"
  shows "\<exists>r s'. ether_dev_open rqs dev s = Some (r, s') \<and> dev_ext dev s s' \<and> ((\<forall>n. sys_ret s n \<noteq> -1) \<longrightarrow> r = 0)"
proof -
  obtain pv where pv: "device_priv dev s = Some pv" using d by (auto simp: device_priv_def)
  obtain fd t where t: "syscall s = (fd, t)" by fastforce
  note st = syscall_ext [OF t, of dev]
  from st d obtain dt where dt: "dev_heap t dev = Some dt" "dev_priv dt \<noteq> None" "length (dev_address dt) = 16"
    by (rule dev_ext_heap)
  then obtain u where u: "set_priv_fd dev fd t = Some u" "dev_ext dev t u"
    using set_priv_fd_ext [of t dev dt] by auto
  note su = dev_ext_trans [OF st u(2)]
  obtain q v where v: "setup_calls fd (rqs pv) u = (q, v)" by fastforce
  note sv = dev_ext_trans [OF su setup_calls_ext [OF v, of dev]]
  from sv d obtain dv where dv: "dev_heap v dev = Some dv" "dev_priv dv \<noteq> None" "length (dev_address dv) = 16"
    by (rule dev_ext_heap)
  obtain r w where w: "ether_dev_addr dev v = Some (r, w)" "dev_ext dev v w" "(\<forall>n. sys_ret v n \<noteq> -1) \<longrightarrow> r = 0"
    using ether_dev_addr_ext [OF dv] by blast
  note sw = dev_ext_trans [OF sv w(2)]
  note sc = dev_ext_trans [OF sw sys_close_ext]
  have ok: "fd \<noteq> -1 \<and> q \<noteq> -1 \<and> r = 0" if "\<forall>n. sys_ret s n \<noteq> -1"
  proof -
    have "sys_ret u = sys_ret s" "sys_ret v = sys_ret s" using su sv by (simp_all add: dev_ext_def)
    then show ?thesis
      using that t v w(3) setup_calls_ok [of u fd "rqs pv"] by (auto simp: syscall_def Let_def)
  qed
  have "ether_dev_open rqs dev s =
     (if fd = -1 then Some (-1, u) else if q = -1 then Some (-1, v)
      else if take 6 (dev_address dv) = ETHER_ADDR_ANY then (if r = -1 then Some (-1, sys_close w) else Some (0, w))
      else Some (0, v))"
    using pv t u v w dv by (simp add: ether_dev_open_def ETHER_ADDR_LEN_def)
  then show ?thesis
    using su sv sw sc ok by (cases "\<forall>n. sys_ret s n \<noteq> -1") auto
qed

lemma ether_dev_close_ext:
  assumes "device_priv dev s = Some pv"
  shows "\<exists>s'. ether_tap_close dev s = Some (0, s') \<and> dev_ext dev s s'"
    "\<exists>s'. ether_pcap_close dev s = Some (0, s') \<and> dev_ext dev s s'"
  using assms by (simp_all add: ether_tap_close_def ether_pcap_close_def)

text \<open>Any entry of the tables, on a registered device.\<close>

lemma ops_open_ext:
  assumes "dev_heap s dev = Some d" "wf_device d" "dev_ops d = Some ops"
  shows "\<exists>r s'. (case ops_open ops of None \<Rightarrow> Some (0, s) | Some f \<Rightarrow> f dev s) = Some (r, s') \<and> dev_ext dev s s' \<and>
    ((\<forall>n. sys_ret s n \<noteq> -1) \<longrightarrow> r = 0)"
  using assms ether_dev_open_ext [of s dev d]
  by (cases ops) (auto simp: ops_open_def ether_tap_open_dev ether_pcap_open_dev wf_device_def NETWORK_DEVICE_ADDR_LEN_def)

lemma ops_close_ext:
  assumes "dev_heap s dev = Some d" "wf_device d" "dev_ops d = Some ops"
  shows "\<exists>s'. (case ops_close ops of None \<Rightarrow> Some (0, s) | Some f \<Rightarrow> f dev s) = Some (0, s') \<and> dev_ext dev s s'"
  using assms ether_dev_close_ext [of dev s]
  by (cases ops) (auto simp: ops_close_def device_priv_def wf_device_def)

lemma set_flags_up:
  assumes "dev_heap s dev = Some d"
  shows "\<exists>s' d'. set_flags dev (\<lambda>fl. fl OR NETWORK_DEVICE_FLAG_UP) s = Some s' \<and> dev_ext dev s s' \<and>
    dev_heap s' dev = Some d' \<and> NETWORK_DEVICE_IS_UP d'"
proof -
  have "(fl OR 1) AND 256 = fl AND (256 :: u16)" "(fl OR 1) AND 1 = (1 :: u16)" for fl :: u16
    by (auto intro!: bit_word_eqI simp: bit_simps)
  then show ?thesis
    using assms dev_ext_update [OF assms, of "d\<lparr>dev_flags := dev_flags d OR 1\<rparr>"]
    by (simp add: set_flags_def dev_same_def NETWORK_DEVICE_FLAG_UP_def NETWORK_DEVICE_FLAG_NEED_ARP_def NETWORK_DEVICE_IS_UP_def)
qed

lemma set_flags_down:
  assumes "dev_heap s dev = Some d"
  shows "\<exists>s' d'. set_flags dev (\<lambda>fl. fl AND NOT NETWORK_DEVICE_FLAG_UP) s = Some s' \<and> dev_ext dev s s' \<and>
    dev_heap s' dev = Some d' \<and> \<not> NETWORK_DEVICE_IS_UP d'"
proof -
  have "(fl AND NOT 1) AND 256 = fl AND (256 :: u16)" "(fl AND NOT 1) AND 1 = (0 :: u16)" for fl :: u16
    by (auto intro!: bit_word_eqI gr0I simp: bit_simps)
  then have "(fl AND -2) AND 256 = fl AND (256 :: u16)" "(fl AND -2) AND 1 = (0 :: u16)" for fl :: u16
    by simp_all
  then show ?thesis
    using assms dev_ext_update [OF assms, of "d\<lparr>dev_flags := dev_flags d AND NOT 1\<rparr>"]
    by (simp add: set_flags_def dev_same_def NETWORK_DEVICE_FLAG_UP_def NETWORK_DEVICE_FLAG_NEED_ARP_def NETWORK_DEVICE_IS_UP_def)
qed


lemma network_device_open_spec:
  assumes wf: "wf_net s" "dev \<in> set (devices s)" and d: "dev_heap s dev = Some d"
  shows "\<exists>r s' d'. network_device_open dev s = Some (r, s') \<and> dev_ext dev s s' \<and> dev_heap s' dev = Some d' \<and>
    (if NETWORK_DEVICE_IS_UP d then r = -1 \<and> s' = s
     else (r = 0 \<and> NETWORK_DEVICE_IS_UP d' \<or> r = -1) \<and> ((\<forall>n. sys_ret s n \<noteq> -1) \<longrightarrow> r = 0))"
proof (cases "NETWORK_DEVICE_IS_UP d")
  case True
  with d show ?thesis by (simp add: network_device_open_def)
next
  case False
  from wf d have wd: "wf_device d" by (auto dest: wf_device_heap)
  then obtain ops where ops: "dev_ops d = Some ops" by (auto simp: wf_device_def split: option.splits)
  from ops_open_ext [OF d wd ops] obtain r t where
    t: "(case ops_open ops of None \<Rightarrow> Some (0, s) | Some f \<Rightarrow> f dev s) = Some (r, t)" "dev_ext dev s t"
      "(\<forall>n. sys_ret s n \<noteq> -1) \<longrightarrow> r = 0" by blast
  obtain e where e: "dev_heap t dev = Some e"
    using dev_ext_Some [OF t(2) d] by blast
  from set_flags_up [OF e] obtain u d' where
    u: "set_flags dev (\<lambda>fl. fl OR NETWORK_DEVICE_FLAG_UP) t = Some u" "dev_ext dev t u"
      "dev_heap u dev = Some d'" "NETWORK_DEVICE_IS_UP d'" by blast
  have "network_device_open dev s = (if r = -1 then Some (-1, t) else Some (0, u))"
    using d False ops t(1) u(1) by (simp add: network_device_open_def)
  then show ?thesis
    using False t(2,3) u(2-) e dev_ext_trans [OF t(2) u(2)] by auto
qed

lemma network_device_close_spec:
  assumes wf: "wf_net s" "dev \<in> set (devices s)" and d: "dev_heap s dev = Some d"
  shows "\<exists>s' d'. network_device_close dev s = Some (if NETWORK_DEVICE_IS_UP d then 0 else -1, s') \<and> dev_ext dev s s' \<and>
    dev_heap s' dev = Some d' \<and> \<not> NETWORK_DEVICE_IS_UP d' \<and> (\<not> NETWORK_DEVICE_IS_UP d \<longrightarrow> s' = s)"
proof (cases "NETWORK_DEVICE_IS_UP d")
  case False
  with d show ?thesis by (simp add: network_device_close_def)
next
  case True
  from wf d have wd: "wf_device d" by (auto dest: wf_device_heap)
  then obtain ops where ops: "dev_ops d = Some ops" by (auto simp: wf_device_def split: option.splits)
  from ops_close_ext [OF d wd ops] obtain t where
    t: "(case ops_close ops of None \<Rightarrow> Some (0, s) | Some f \<Rightarrow> f dev s) = Some (0, t)" "dev_ext dev s t" by blast
  obtain e where e: "dev_heap t dev = Some e"
    using dev_ext_Some [OF t(2) d] by blast
  from set_flags_down [OF e] obtain u d' where
    u: "set_flags dev (\<lambda>fl. fl AND NOT NETWORK_DEVICE_FLAG_UP) t = Some u" "dev_ext dev t u"
      "dev_heap u dev = Some d'" "\<not> NETWORK_DEVICE_IS_UP d'" by blast
  have "network_device_close dev s = Some (0, u)"
    using d True ops t(1) u(1) by (simp add: network_device_close_def)
  then show ?thesis
    using True u(3,4) dev_ext_trans [OF t(2) u(2)] by auto
qed

subsection \<open>Interrupt routine of the drivers\<close>

text \<open>What a frame becomes when a device with hardware address \<open>addr\<close> reads it.\<close>

definition ether_accept :: "nat \<Rightarrow> bytes \<Rightarrow> bytes \<Rightarrow> (u16 \<times> net_queue_entry) option" where
  "ether_accept dev addr frame =
     (let f = take ETHER_FRAME_SIZE_MAX frame
      in case read_ether_hdr f of
           None \<Rightarrow> None
         | Some h \<Rightarrow>
             if addr = eh_dst h \<or> ETHER_ADDR_BROADCAST = eh_dst h
             then Some (ntoh16 (eh_type h), \<lparr>nq_dev = dev, nq_len = length f - 14, nq_data = drop 14 f\<rparr>)
             else None)"

lemma read_ether_hdr_None: "read_ether_hdr f = None \<longleftrightarrow> length f < 14"
  by (auto simp: read_ether_hdr_def ether_consts mem_read_def)

text \<open>What the callbacks of the drivers have in common.\<close>

definition frame_reader ::
  "(nat \<Rightarrow> nat \<Rightarrow> 'a net_state_scheme \<Rightarrow> (int \<times> bytes \<times> 'a net_state_scheme) option) \<Rightarrow> bool" where
  "frame_reader callback \<longleftrightarrow>
     (\<forall>dev s pv f fs n. device_priv dev s = Some pv \<longrightarrow> rx s (pv_fd pv) = f # fs \<longrightarrow>
        callback dev n s =
          (if sys_ret s (sys_n s) = -1 then Some (-1, [], snd (syscall s))
           else Some (if take n f = [] then -1 else int (length (take n f)), take n f,
             (snd (syscall s))\<lparr>rx := (rx s)(pv_fd pv := fs)\<rparr>)))"

lemma ether_readers: "frame_reader ether_tap_read" "frame_reader ether_pcap_read"
  by (auto simp: frame_reader_def ether_tap_read_def ether_pcap_read_def sys_read_def syscall_def Let_def)

lemma ether_poll_helper_eq:
  assumes rd: "frame_reader callback" and pv: "device_priv dev s = Some pv" and d: "dev_heap s dev = Some d" "length (dev_address d) = 16"
    and rx: "rx s (pv_fd pv) = f # fs"
  shows "ether_poll_helper dev callback s =
    (if sys_ret s (sys_n s) = -1 then Some (-1, snd (syscall s))
     else case ether_accept dev (take 6 (dev_address d)) f of
       None \<Rightarrow> Some (-1, (snd (syscall s))\<lparr>rx := (rx s)(pv_fd pv := fs)\<rparr>)
     | Some (t, e) \<Rightarrow> network_input_handler t (nq_data e) (nq_len e) dev ((snd (syscall s))\<lparr>rx := (rx s)(pv_fd pv := fs)\<rparr>))"
proof (cases "sys_ret s (sys_n s) = -1")
  case True
  with rd pv rx have "callback dev 1514 s = Some (-1, [], snd (syscall s))" unfolding frame_reader_def by auto
  with True show ?thesis by (simp add: ether_poll_helper_def ETHER_FRAME_SIZE_MAX_def)
next
  case ok: False
  let ?f = "take 1514 f"
  let ?t = "(snd (syscall s))\<lparr>rx := (rx s)(pv_fd pv := fs)\<rparr>"
  have "callback dev 1514 s = (if sys_ret s (sys_n s) = -1 then Some (-1, [], snd (syscall s))
      else Some (if ?f = [] then -1 else int (length ?f), ?f, ?t))"
    using rd pv rx unfolding frame_reader_def by blast
  with ok have rdr: "callback dev 1514 s = Some (if ?f = [] then -1 else int (length ?f), ?f, ?t)" by simp
  show ?thesis
  proof (cases "length ?f < 14")
    case True
    then have "length f < 14" by (simp add: min_def split: if_splits)
    then show ?thesis
      using rdr ok by (simp add: ether_poll_helper_def ether_accept_def Let_def ETHER_HDR_SIZE_def
          ETHER_FRAME_SIZE_MAX_def read_ether_hdr_None [THEN iffD2])
  next
    case False
    then obtain h where h: "read_ether_hdr ?f = Some h"
      using read_ether_hdr_None [of ?f] by (cases "read_ether_hdr ?f") auto
    have "dev_heap ?t dev = Some d" using d by (simp add: syscall_def Let_def)
    then show ?thesis
      using rdr h d False ok
      by (auto simp: ether_poll_helper_def ether_accept_def Let_def ETHER_HDR_SIZE_def ETHER_FRAME_SIZE_MAX_def ETHER_ADDR_LEN_def)
  qed
qed

lemma ether_accept_len: "ether_accept dev addr f = Some (t, e) \<Longrightarrow> nq_dev e = dev \<and> nq_len e = length (nq_data e)"
  by (auto simp: ether_accept_def Let_def split: option.splits if_splits)

lemma network_input_handler_sys: "network_input_handler t data len dev s = Some (r, s') \<Longrightarrow> sys_n s' = sys_n s"
  by (auto simp: network_input_handler_def memory_alloc_def lqueue_push_def raise_softirq_def raise_signal_def Let_def bind_eq_Some_conv
      split: option.splits if_splits)

lemma ether_poll_step:
  assumes rd: "frame_reader callback" and wf: "wf_net s" "dev \<in> set (devices s)"
    and pv: "device_priv dev s = Some pv" and d: "dev_heap s dev = Some d"
    and rx: "rx s (pv_fd pv) = f # fs" and ok: "sys_ret s (sys_n s) \<noteq> -1"
  shows "\<exists>r s'. ether_poll_helper dev callback s = Some (r, s') \<and>
    net_out (s\<lparr>rx := (rx s)(pv_fd pv := fs)\<rparr>) s' \<and> sys_n s' = Suc (sys_n s) \<and>
    queue_adds (\<lambda>t x. \<exists>e. ether_accept dev (take 6 (dev_address d)) f = Some (t, e) \<and> x = nq_data e) s s' \<and>
    ((\<forall>n. mem_ok s n) \<longrightarrow> (\<forall>t. queue_of t s' = queue_of t s @
       (case ether_accept dev (take 6 (dev_address d)) f of
          Some (t', e) \<Rightarrow> if t' = t \<and> protocol_of t s \<noteq> None then [e] else []
        | None \<Rightarrow> [])))"
proof -
  let ?u = "s\<lparr>rx := (rx s)(pv_fd pv := fs)\<rparr>"
  let ?t = "(snd (syscall s))\<lparr>rx := (rx s)(pv_fd pv := fs)\<rparr>"
  let ?a = "ether_accept dev (take 6 (dev_address d)) f"
  have ut: "net_out ?u ?t"
    by (simp add: net_out_def syscall_def Let_def net_ext_quiet)
  have eq: "devices ?t = devices s" "mem_ok ?t = mem_ok s" "protocols ?t = protocols s" "sys_n ?t = Suc (sys_n s)"
    by (simp_all add: syscall_def Let_def)
  have wft: "wf_net ?t"
    using wf(1) by (rule wf_net_mono) (use wf(1) in \<open>simp_all add: wf_net_def syscall_def Let_def\<close>)
  have q: "queue_of t ?t = queue_of t s" "protocol_of t ?t = protocol_of t s" for t
    using eq(3) by (simp_all only: queue_of_def protocol_of_def)
  have "length (dev_address d) = 16"
    using wf d by (auto simp: wf_device_def NETWORK_DEVICE_ADDR_LEN_def dest: wf_device_heap)
  note poll = ether_poll_helper_eq [OF rd pv d this rx, unfolded if_not_P [OF ok]]
  show ?thesis
  proof (cases ?a)
    case None
    then show ?thesis using poll ut q eq(4) queue_adds_same [OF eq(3)] by simp
  next
    case (Some p)
    then obtain t e where a: "?a = Some (t, e)" by (cases p) auto
    note e = ether_accept_len [OF a]
    have dt: "dev \<in> set (devices ?t)" "nq_len e \<le> length (nq_data e)" using wf(2) eq(1) e by simp_all
    from network_input_handler_out [OF wft this] obtain r s' where
      s': "network_input_handler t (nq_data e) (nq_len e) dev ?t = Some (r, s')" "net_out ?t s'" by blast
    have adds: "queue_adds (\<lambda>t' x. t' = t \<and> x = nq_data e) s s'"
      using queue_adds_from [OF network_input_handler_adds [OF s'(1)] eq(3)] e by simp
    have qs: "queue_of t' s' = queue_of t' s @ (if t = t' \<and> protocol_of t' s \<noteq> None then [e] else [])" if m: "\<forall>n. mem_ok s n" for t'
    proof -
      have "\<forall>n. mem_ok ?t n" using m eq(2) by simp
      from network_input_handler_queues [OF wft dt this, of t] s'(1) e q show ?thesis by (cases e) auto
    qed
    have "ether_poll_helper dev callback s = Some (r, s')" using poll a s'(1) by simp
    moreover have "queue_adds (\<lambda>t x. \<exists>e. ?a = Some (t, e) \<and> x = nq_data e) s s'"
      using adds by (rule queue_adds_mono) (use a in simp)
    ultimately show ?thesis using net_out_trans [OF ut s'(2)] qs a network_input_handler_sys [OF s'(1)] eq(4) by auto
  qed
qed

fun frames_for :: "nat \<Rightarrow> bytes \<Rightarrow> u16 \<Rightarrow> bytes list \<Rightarrow> net_queue_entry list" where
  "frames_for dev addr t [] = []"
| "frames_for dev addr t (f # fs) =
     (case ether_accept dev addr f of
        Some (t', e) \<Rightarrow> if t' = t then e # frames_for dev addr t fs else frames_for dev addr t fs
      | None \<Rightarrow> frames_for dev addr t fs)"

lemma syscall_frame:
  "rx (snd (syscall s)) = rx s" "dev_heap (snd (syscall s)) = dev_heap s" "devices (snd (syscall s)) = devices s"
  "sys_ret (snd (syscall s)) = sys_ret s" "mem_ok (snd (syscall s)) = mem_ok s" "protocols (snd (syscall s)) = protocols s"
  by (simp_all add: syscall_def Let_def)

lemma wf_net_rx [simp]: "wf_net (s\<lparr>rx := r\<rparr>) = wf_net s"
  by (simp add: wf_net_def wf_ifaces_def)

lemma net_out_rx: "net_out s s' \<Longrightarrow> net_out (s\<lparr>rx := r\<rparr>) (s'\<lparr>rx := r\<rparr>)"
  by (simp add: net_out_def net_ext_def softirq_ok_def)

lemma syscall_same: "net_out s (snd (syscall s))" "sys_n (snd (syscall s)) = Suc (sys_n s)"
  by (rule syscall_out [of s "fst (syscall s)"]) (simp_all add: syscall_def Let_def)

text \<open>
  One round of the loop that does not end it: it is interrupted, the read fails, or a frame is taken off
  the descriptor.
\<close>

lemma ether_isr_round [consumes 5, case_names ends fails frame]:
  assumes rd: "frame_reader callback" and wf: "wf_net s" "dev \<in> set (devices s)"
    and d: "dev_heap s dev = Some d" "dev_priv d = Some pv"
  obtains (ends) r where "ether_isr_loop callback (pv_fd pv) dev s = Some (r, snd (syscall s))"
      "sys_ret s (sys_n s) \<noteq> -1 \<Longrightarrow> r = 0 \<and> rx s (pv_fd pv) = []"
  | (fails) t where "ether_isr_loop callback (pv_fd pv) dev s = ether_isr_loop callback (pv_fd pv) dev t" "net_out s t"
      "protocols t = protocols s" "sys_n s < sys_n t" "\<exists>k. sys_n s \<le> k \<and> k < sys_n t \<and> sys_ret s k = -1"
  | (frame) f fs t where "ether_isr_loop callback (pv_fd pv) dev s = ether_isr_loop callback (pv_fd pv) dev t"
      "rx s (pv_fd pv) = f # fs" "net_out (s\<lparr>rx := (rx s)(pv_fd pv := fs)\<rparr>) t" "sys_n t = Suc (Suc (sys_n s))"
      "queue_adds (\<lambda>t x. \<exists>e. ether_accept dev (take 6 (dev_address d)) f = Some (t, e) \<and> x = nq_data e) s t"
      "(\<forall>n. mem_ok s n) \<longrightarrow> (\<forall>y. queue_of y t = queue_of y s @
         (case ether_accept dev (take 6 (dev_address d)) f of
            Some (t', e) \<Rightarrow> if t' = y \<and> protocol_of y s \<noteq> None then [e] else []
          | None \<Rightarrow> []))"
proof -
  let ?t = "snd (syscall s)"
  have poll: "sys_poll (pv_fd pv) s = (if sys_ret s (sys_n s) = -1 then -1 else if rx s (pv_fd pv) = [] then 0 else 1, ?t)"
    by (simp add: sys_poll_def syscall_def Let_def)
  have wft: "wf_net ?t" using wf(1) net_ext_wf [OF net_outD [OF syscall_same(1)]] by blast
  have pt: "dev \<in> set (devices ?t)" "device_priv dev ?t = Some pv" "dev_heap ?t dev = Some d"
    using wf d by (simp_all add: device_priv_def syscall_frame)
  have la: "length (dev_address d) = 16"
    using wf d by (auto simp: wf_device_def NETWORK_DEVICE_ADDR_LEN_def dest: wf_device_heap)
  consider (intr) "sys_ret s (sys_n s) = -1" | (empty) "sys_ret s (sys_n s) \<noteq> -1" "rx s (pv_fd pv) = []"
    | (some) f fs where "sys_ret s (sys_n s) \<noteq> -1" "rx s (pv_fd pv) = f # fs" by (cases "rx s (pv_fd pv)") auto
  then show ?thesis
  proof cases
    case intr
    then have "ether_isr_loop callback (pv_fd pv) dev s =
        (if errno ?t = EINTR then ether_isr_loop callback (pv_fd pv) dev ?t else Some (-1, ?t))"
      using poll by (subst ether_isr_loop.simps) simp
    with intr ends fails [of ?t] syscall_same [of s] syscall_frame(6) [of s] show ?thesis by (cases "errno ?t = EINTR") auto
  next
    case empty
    then have "ether_isr_loop callback (pv_fd pv) dev s = Some (0, ?t)" using poll by (subst ether_isr_loop.simps) simp
    with empty ends show ?thesis by blast
  next
    case some
    have rt: "rx ?t (pv_fd pv) = f # fs" using some by (simp add: syscall_frame)
    have loop: "ether_isr_loop callback (pv_fd pv) dev s =
        Option.bind (ether_poll_helper dev callback ?t) (\<lambda>(_, s). ether_isr_loop callback (pv_fd pv) dev s)"
      using poll some by (subst ether_isr_loop.simps) simp
    show ?thesis
    proof (cases "sys_ret ?t (sys_n ?t) = -1")
      case True
      let ?v = "snd (syscall ?t)"
      have "ether_poll_helper dev callback ?t = Some (-1, ?v)"
        using ether_poll_helper_eq [OF rd pt(2,3) la rt] True by simp
      moreover have "net_out s ?v" using syscall_same(1) [of s] syscall_same(1) [of ?t] by (rule net_out_trans)
      moreover have "\<exists>k. sys_n s \<le> k \<and> k < sys_n ?v \<and> sys_ret s k = -1"
        by (rule exI [of _ "Suc (sys_n s)"]) (use True in \<open>simp add: syscall_same syscall_frame\<close>)
      ultimately show ?thesis
        using loop fails [of ?v] syscall_frame(6) [of s] syscall_frame(6) [of ?t] by (simp add: syscall_same)
    next
      case False
      have q: "queue_of y ?t = queue_of y s" "protocol_of y ?t = protocol_of y s" for y
        by (simp_all only: queue_of_def protocol_of_def syscall_frame)
      from ether_poll_step [OF rd wft pt rt False] obtain r v where
        v: "ether_poll_helper dev callback ?t = Some (r, v)" "net_out (?t\<lparr>rx := (rx ?t)(pv_fd pv := fs)\<rparr>) v" "sys_n v = Suc (sys_n ?t)"
          "queue_adds (\<lambda>t x. \<exists>e. ether_accept dev (take 6 (dev_address d)) f = Some (t, e) \<and> x = nq_data e) ?t v"
          "(\<forall>n. mem_ok ?t n) \<longrightarrow> (\<forall>t. queue_of t v = queue_of t ?t @
             (case ether_accept dev (take 6 (dev_address d)) f of
                Some (t', e) \<Rightarrow> if t' = t \<and> protocol_of t ?t \<noteq> None then [e] else [] | None \<Rightarrow> []))" by blast
      have out: "net_out (s\<lparr>rx := (rx s)(pv_fd pv := fs)\<rparr>) v"
        using net_out_trans [OF net_out_rx [OF syscall_same(1) [of s], of "(rx s)(pv_fd pv := fs)"]] v(2) by (simp add: syscall_frame)
      show ?thesis
        using frame [OF _ some(2) out _ queue_adds_from [OF v(4) syscall_frame(6)] v(5) [unfolded q syscall_frame]] loop v(1,3)
        by (simp add: syscall_same)
    qed
  qed
qed

lemma ether_isr_loop_out:
  assumes rd: "frame_reader callback" and wf: "wf_net s" "dev \<in> set (devices s)"
    and d: "dev_heap s dev = Some d" "dev_priv d = Some pv" and ok: "\<forall>k \<ge> N. sys_ret s k \<noteq> -1"
  defines "a \<equiv> take 6 (dev_address d)" and "fs \<equiv> rx s (pv_fd pv)"
  shows "\<exists>r gs s'. ether_isr_loop callback (pv_fd pv) dev s = Some (r, s') \<and> set gs \<subseteq> set fs \<and>
    net_out (s\<lparr>rx := (rx s)(pv_fd pv := gs)\<rparr>) s' \<and>
    queue_adds (\<lambda>t x. \<exists>f \<in> set fs. \<exists>e. ether_accept dev a f = Some (t, e) \<and> x = nq_data e) s s' \<and>
    ((\<forall>k. sys_ret s k \<noteq> -1) \<longrightarrow> r = 0 \<and> gs = [] \<and>
      ((\<forall>n. mem_ok s n) \<longrightarrow> (\<forall>t. queue_of t s' = queue_of t s @ (if protocol_of t s = None then [] else frames_for dev a t fs))))"
  using wf d ok unfolding fs_def
proof (induction "(N - sys_n s) + length (rx s (pv_fd pv))" arbitrary: s rule: less_induct)
  case less
  let ?P = "\<lambda>t x. \<exists>f \<in> set (rx s (pv_fd pv)). \<exists>e. ether_accept dev a f = Some (t, e) \<and> x = nq_data e"
  from rd less.prems(1-4) show ?case
  proof (cases rule: ether_isr_round)
    case (ends r)
    let ?t = "snd (syscall s)"
    have "net_out (s\<lparr>rx := (rx s)(pv_fd pv := rx s (pv_fd pv))\<rparr>) ?t" using syscall_same(1) [of s] by simp
    moreover have "queue_of t ?t = queue_of t s" for t by (rule queue_of_cong) (simp add: syscall_frame)
    moreover have "queue_adds ?P s ?t" by (rule queue_adds_same) (simp add: syscall_frame)
    ultimately show ?thesis using ends
      by (intro exI [of _ r] exI [of _ "rx s (pv_fd pv)"] exI [of _ ?t]) (simp del: fun_upd_apply)
  next
    case (fails t)
    have same: "devices t = devices s" "dev_heap t = dev_heap s" "rx t = rx s" "sys_ret t = sys_ret s"
      using fails(2) by (auto simp: net_out_def net_ext_def)
    obtain k where k: "sys_n s \<le> k" "k < sys_n t" "sys_ret s k = -1" using fails(5) by blast
    then have "k < N" using less.prems(5) not_le by blast
    with k have "N - sys_n t + length (rx t (pv_fd pv)) < N - sys_n s + length (rx s (pv_fd pv))" using same by simp
    moreover have "wf_net t" using less.prems(1) net_ext_wf [OF net_outD [OF fails(2)]] by blast
    ultimately obtain r gs s' where
      s': "ether_isr_loop callback (pv_fd pv) dev t = Some (r, s')" "set gs \<subseteq> set (rx s (pv_fd pv))"
        "net_out (t\<lparr>rx := (rx t)(pv_fd pv := gs)\<rparr>) s'" "queue_adds ?P t s'"
      using less.hyps [of t] less.prems(2-5) unfolding same by blast
    have "net_out (s\<lparr>rx := (rx s)(pv_fd pv := gs)\<rparr>) s'"
      using net_out_trans [OF net_out_rx [OF fails(2), of "(rx s)(pv_fd pv := gs)"]] s'(3) same by simp
    then show ?thesis using fails(1) s' k(3) queue_adds_from [OF s'(4) fails(3)] by auto
  next
    case (frame f fs t)
    have same: "devices t = devices s" "dev_heap t = dev_heap s" "rx t = (rx s)(pv_fd pv := fs)" "sys_ret t = sys_ret s" "mem_ok t = mem_ok s"
      using frame(3) by (auto simp: net_out_def net_ext_def)
    have "N - sys_n t + length (rx t (pv_fd pv)) < N - sys_n s + length (rx s (pv_fd pv))" using same frame(2,4) by simp
    moreover have "wf_net t" using less.prems(1) net_ext_wf [OF net_outD [OF frame(3)]] by simp
    moreover have prot: "protocol_of y t = protocol_of y s" for y
      using net_ext_protocol_of [OF net_outD [OF frame(3)], of y] by (simp add: protocol_of_def)
    ultimately obtain r gs s' where
      s': "ether_isr_loop callback (pv_fd pv) dev t = Some (r, s')" "set gs \<subseteq> set fs" "net_out (t\<lparr>rx := (rx t)(pv_fd pv := gs)\<rparr>) s'"
        "queue_adds (\<lambda>t x. \<exists>f \<in> set fs. \<exists>e. ether_accept dev a f = Some (t, e) \<and> x = nq_data e) t s'"
        "(\<forall>k. sys_ret s k \<noteq> -1) \<longrightarrow> r = 0 \<and> gs = [] \<and> ((\<forall>n. mem_ok s n) \<longrightarrow>
           (\<forall>y. queue_of y s' = queue_of y t @ (if protocol_of y s = None then [] else frames_for dev a y fs)))"
      using less.hyps [of t] less.prems(2-5) unfolding same prot fun_upd_same by blast
    have "net_out (s\<lparr>rx := (rx s)(pv_fd pv := gs)\<rparr>) s'"
      using net_out_trans [OF net_out_rx [OF frame(3), of "(rx s)(pv_fd pv := gs)"]] s'(3) same by simp
    moreover have "queue_adds ?P s s'"
      by (rule queue_adds_trans [OF queue_adds_mono [OF frame(5)] queue_adds_mono [OF s'(4)]]) (auto simp: a_def frame(2))
    moreover have "queue_of y s' = queue_of y s @ (if protocol_of y s = None then [] else frames_for dev a y (f # fs))"
      if "\<forall>k. sys_ret s k \<noteq> -1" "\<forall>n. mem_ok s n" for y
      using s'(5) frame(6) that by (auto simp: a_def split: option.splits)
    ultimately show ?thesis using frame(1,2) s'(1,2,5) by auto
  qed
qed

lemma ether_isr_out:
  assumes "wf_net s" "dev \<in> set (devices s)" "dev_heap s dev = Some d" "dev_priv d = Some pv" "\<forall>k \<ge> N. sys_ret s k \<noteq> -1"
    "isr \<in> {ether_tap_isr, ether_pcap_isr}"
  shows "\<exists>r gs s'. isr irq dev s = Some (r, s') \<and> set gs \<subseteq> set (rx s (pv_fd pv)) \<and> net_out (s\<lparr>rx := (rx s)(pv_fd pv := gs)\<rparr>) s' \<and>
    queue_adds (\<lambda>t x. \<exists>f \<in> set (rx s (pv_fd pv)). \<exists>e. ether_accept dev (take 6 (dev_address d)) f = Some (t, e) \<and> x = nq_data e) s s' \<and>
    ((\<forall>k. sys_ret s k \<noteq> -1) \<longrightarrow> r = 0 \<and> gs = [] \<and> ((\<forall>n. mem_ok s n) \<longrightarrow> (\<forall>t. queue_of t s' = queue_of t s @
       (if protocol_of t s = None then [] else frames_for dev (take 6 (dev_address d)) t (rx s (pv_fd pv))))))"
proof -
  have priv: "device_priv dev s = Some pv"
    using assms(3,4) by (simp add: device_priv_def)
  have "\<exists>callback. frame_reader callback \<and> isr irq dev s = ether_isr_loop callback (pv_fd pv) dev s"
    using assms(6) priv ether_readers by (auto simp: ether_tap_isr_def ether_pcap_isr_def)
  then obtain callback where cb: "frame_reader callback" "isr irq dev s = ether_isr_loop callback (pv_fd pv) dev s"
    by blast
  from ether_isr_loop_out [OF cb(1) assms(1-5)] cb(2) show ?thesis by simp
qed

subsection \<open>All devices\<close>

definition device_up :: "'a net_state_scheme \<Rightarrow> nat \<Rightarrow> bool" where
  "device_up s dev \<longleftrightarrow> (\<exists>d. dev_heap s dev = Some d \<and> NETWORK_DEVICE_IS_UP d)"

lemma open_devices_spec:
  assumes "wf_net s" "softirq_ok s" "set devs \<subseteq> set (devices s)" "distinct devs" "\<forall>n. sys_ret s n \<noteq> -1"
  shows "\<exists>s'. open_devices devs s = Some s' \<and> wf_net s' \<and> softirq_ok s' \<and> devices s' = devices s \<and>
    protocols s' = protocols s \<and> (\<forall>dev \<in> set devs. device_up s' dev) \<and>
    (\<forall>dev. dev \<notin> set devs \<longrightarrow> dev_heap s' dev = dev_heap s dev)"
  using assms
proof (induction devs arbitrary: s)
  case (Cons dev devs)
  then obtain d where d: "dev_heap s dev = Some d" by (auto dest: wf_device_heap)
  from Cons.prems have dev: "dev \<in> set (devices s)" by simp
  from network_device_open_spec [OF Cons.prems(1) dev d] obtain r t d' where
    t: "network_device_open dev s = Some (r, t)" "dev_ext dev s t" "dev_heap t dev = Some d'"
      "if NETWORK_DEVICE_IS_UP d then r = -1 \<and> t = s
       else (r = 0 \<and> NETWORK_DEVICE_IS_UP d' \<or> r = -1) \<and> ((\<forall>n. sys_ret s n \<noteq> -1) \<longrightarrow> r = 0)" by blast
  have up: "device_up t dev"
    using t(3,4) d Cons.prems(5) by (auto simp: device_up_def split: if_splits)
  have same: "devices t = devices s" "protocols t = protocols s" "sys_ret t = sys_ret s"
    "\<forall>p. p \<noteq> dev \<longrightarrow> dev_heap t p = dev_heap s p"
    using t(2) by (simp_all add: dev_ext_def)
  have "wf_net t" "softirq_ok t" "set devs \<subseteq> set (devices t)" "distinct devs" "\<forall>n. sys_ret t n \<noteq> -1"
    using Cons.prems same dev_ext_wf [OF Cons.prems(1) t(2)] dev_ext_softirq [OF t(2)] by auto
  from Cons.IH [OF this] obtain u where
    u: "open_devices devs t = Some u" "wf_net u" "softirq_ok u" "devices u = devices t" "protocols u = protocols t"
      "\<forall>dev \<in> set devs. device_up u dev" "\<forall>dev. dev \<notin> set devs \<longrightarrow> dev_heap u dev = dev_heap t dev" by blast
  have "device_up u dev"
    using up u(7) Cons.prems(4) by (simp add: device_up_def)
  with t(1) u same show ?case by auto
qed simp

lemma close_devices_spec:
  assumes "wf_net s" "softirq_ok s" "set devs \<subseteq> set (devices s)" "distinct devs"
  shows "\<exists>s'. close_devices devs s = Some s' \<and> wf_net s' \<and> softirq_ok s' \<and> devices s' = devices s \<and>
    protocols s' = protocols s \<and> (\<forall>dev \<in> set devs. \<not> device_up s' dev) \<and>
    (\<forall>dev. dev \<notin> set devs \<longrightarrow> dev_heap s' dev = dev_heap s dev)"
  using assms
proof (induction devs arbitrary: s)
  case (Cons dev devs)
  then obtain d where d: "dev_heap s dev = Some d" by (auto dest: wf_device_heap)
  from Cons.prems have dev: "dev \<in> set (devices s)" by simp
  from network_device_close_spec [OF Cons.prems(1) dev d] obtain t d' where
    t: "network_device_close dev s = Some (if NETWORK_DEVICE_IS_UP d then 0 else -1, t)" "dev_ext dev s t"
      "dev_heap t dev = Some d'" "\<not> NETWORK_DEVICE_IS_UP d'" by blast
  have same: "devices t = devices s" "protocols t = protocols s" "\<forall>p. p \<noteq> dev \<longrightarrow> dev_heap t p = dev_heap s p"
    using t(2) by (simp_all add: dev_ext_def)
  have "wf_net t" "softirq_ok t" "set devs \<subseteq> set (devices t)" "distinct devs"
    using Cons.prems same dev_ext_wf [OF Cons.prems(1) t(2)] dev_ext_softirq [OF t(2)] by auto
  from Cons.IH [OF this] obtain u where
    u: "close_devices devs t = Some u" "wf_net u" "softirq_ok u" "devices u = devices t" "protocols u = protocols t"
      "\<forall>dev \<in> set devs. \<not> device_up u dev" "\<forall>dev. dev \<notin> set devs \<longrightarrow> dev_heap u dev = dev_heap t dev" by blast
  have "\<not> device_up u dev"
    using t(3,4) u(7) Cons.prems(4) by (simp add: device_up_def)
  with t(1) u same show ?case by auto
qed simp

section \<open>Properties\<close>

text \<open>
  C30. With no failing system call, opening all devices brings every one of them up and shutting the
  network down brings every one of them down again; neither step leaves its memory, disturbs a
  queue or breaks the invariants.
\<close>

theorem devices_up_then_down:
  assumes "wf_net s" "softirq_ok s" "\<forall>n. sys_ret s n \<noteq> -1"
  shows "\<exists>s1 s2. open_devices (devices s) s = Some s1 \<and> (\<forall>dev \<in> set (devices s). device_up s1 dev) \<and>
    network_shutdown s1 = Some s2 \<and> (\<forall>dev \<in> set (devices s). \<not> device_up s2 dev) \<and>
    wf_net s1 \<and> wf_net s2 \<and> softirq_ok s2 \<and> protocols s2 = protocols s \<and> devices s2 = devices s"
proof -
  have dist: "distinct (devices s)" using assms(1) by (simp add: wf_net_def)
  from open_devices_spec [OF assms(1,2) _ dist assms(3)] obtain s1 where
    s1: "open_devices (devices s) s = Some s1" "wf_net s1" "softirq_ok s1" "devices s1 = devices s"
      "protocols s1 = protocols s" "\<forall>dev \<in> set (devices s). device_up s1 dev" by blast
  with dist have "distinct (devices s1)" by simp
  from close_devices_spec [OF s1(2,3) _ this] obtain s2 where
    s2: "close_devices (devices s1) s1 = Some s2" "wf_net s2" "softirq_ok s2" "devices s2 = devices s1"
      "protocols s2 = protocols s1" "\<forall>dev \<in> set (devices s1). \<not> device_up s2 dev" by blast
  from s1 s2 show ?thesis
    by (auto simp: network_shutdown_def)
qed

text \<open>A loopback device and a TAP device whose descriptor is 3.\<close>

definition dev_demo :: net_state where
  "dev_demo = net_demo\<lparr>mem_n := 2, devices := [1, 0],
     dev_heap := [0 \<mapsto> loopback_setup zero_device,
       1 \<mapsto> (ether_setup_helper zero_device)\<lparr>dev_address := [2, 0, 0, 0, 0, 1] @ replicate 10 0, dev_ops := Some ether_tap_ops,
             dev_priv := Some \<lparr>pv_name = ''tap0'', pv_fd = 3, pv_irq = 36\<rparr>\<rparr>],
     rx := (\<lambda>_. [])(3 := [ether_frame [2, 0, 0, 0, 0, 1] [2, 0, 0, 0, 0, 2] 0x800 [5, 6],
                       ether_frame [2, 0, 0, 0, 0, 9] [2, 0, 0, 0, 0, 2] 0x800 [7]])\<rparr>"

lemma dev_demo_ok: "wf_net dev_demo" "softirq_ok dev_demo" "\<forall>n. sys_ret dev_demo n \<noteq> -1" "\<forall>n. mem_ok dev_demo n"
  by (simp_all add: dev_demo_def net_demo_def net0_def wf_net_def wf_ifaces_def wf_device_def zero_device_def wf_queue_def
      NETWORK_DEVICE_ADDR_LEN_def lqueue_init_def softirq_ok_def loopback_setup_def ether_setup_helper_def ether_consts
      NETWORK_DEVICE_FLAG_LOOPBACK_def NETWORK_DEVICE_FLAG_NEED_ARP_def less_Suc_eq)

theorem devices_up_then_down_witness:
  "\<exists>s1 s2. open_devices [1, 0] dev_demo = Some s1 \<and> device_up s1 0 \<and> device_up s1 1 \<and>
    network_shutdown s1 = Some s2 \<and> \<not> device_up s2 0 \<and> \<not> device_up s2 1"
proof -
  have devs: "devices dev_demo = [1, 0]" by (simp add: dev_demo_def)
  show ?thesis
    using devices_up_then_down [OF dev_demo_ok(1-3)] unfolding devs by auto
qed

text \<open>
  C17. The interrupt routines of both drivers end, whatever calls fail, as long as system calls do not fail
  for ever, and keep the state well formed; frames that they leave behind were waiting before. If no
  call fails, the descriptor is drained, and with memory each waiting frame for this station is queued for
  its protocol in order of arrival and each other frame is dropped. The software interrupt is pending
  if anything waits.
\<close>

theorem ether_isr_drains:
  assumes "wf_net s" "softirq_ok s" "dev \<in> set (devices s)" "dev_heap s dev = Some d" "dev_priv d = Some pv"
    "\<forall>k \<ge> N. sys_ret s k \<noteq> -1" "isr \<in> {ether_tap_isr, ether_pcap_isr}"
  shows "\<exists>r s'. isr irq dev s = Some (r, s') \<and> wf_net s' \<and> softirq_ok s' \<and> set (rx s' (pv_fd pv)) \<subseteq> set (rx s (pv_fd pv)) \<and>
    ((\<forall>k. sys_ret s k \<noteq> -1) \<longrightarrow> r = 0 \<and> rx s' (pv_fd pv) = [] \<and>
      ((\<forall>n. mem_ok s n) \<longrightarrow> (\<forall>t. queue_of t s' = queue_of t s @
         (if protocol_of t s = None then [] else frames_for dev (take 6 (dev_address d)) t (rx s (pv_fd pv))))))"
proof -
  from ether_isr_out [OF assms(1,3-7), of irq] obtain r gs s' where
    s': "isr irq dev s = Some (r, s')" "set gs \<subseteq> set (rx s (pv_fd pv))" "net_out (s\<lparr>rx := (rx s)(pv_fd pv := gs)\<rparr>) s'"
      "(\<forall>k. sys_ret s k \<noteq> -1) \<longrightarrow> r = 0 \<and> gs = [] \<and> ((\<forall>n. mem_ok s n) \<longrightarrow> (\<forall>t. queue_of t s' = queue_of t s @
         (if protocol_of t s = None then [] else frames_for dev (take 6 (dev_address d)) t (rx s (pv_fd pv)))))" by blast
  have "softirq_ok (s\<lparr>rx := (rx s)(pv_fd pv := gs)\<rparr>)" using assms(2) by (simp add: softirq_ok_def)
  moreover have "rx s' (pv_fd pv) = gs" using net_ext_same(11) [OF net_outD [OF s'(3)]] by simp
  ultimately show ?thesis
    using s' assms(1) net_ext_wf [OF net_outD [OF s'(3)]] net_ext_softirq [OF net_outD [OF s'(3)]] by auto
qed

theorem ether_isr_drains_witness:
  "\<exists>s'. ether_tap_isr 36 1 dev_demo = Some (0, s') \<and> rx s' 3 = [] \<and>
    queue_of 0x800 s' = [\<lparr>nq_dev = 1, nq_len = 46, nq_data = [5, 6] @ replicate 44 0\<rparr>]"
proof -
  let ?d = "(ether_setup_helper zero_device)\<lparr>dev_address := [2, 0, 0, 0, 0, 1] @ replicate 10 0, dev_ops := Some ether_tap_ops,
             dev_priv := Some \<lparr>pv_name = ''tap0'', pv_fd = 3, pv_irq = 36\<rparr>\<rparr>"
  have d: "1 \<in> set (devices dev_demo)" "dev_heap dev_demo 1 = Some ?d" "dev_priv ?d = Some \<lparr>pv_name = ''tap0'', pv_fd = 3, pv_irq = 36\<rparr>"
    by (simp_all add: dev_demo_def)
  have q: "queue_of 0x800 dev_demo = []" "protocol_of 0x800 dev_demo \<noteq> None"
    by (simp_all add: queue_of_def protocol_of_def dev_demo_def net_demo_def lqueue_init_def)
  have h: "read_ether_hdr (take 1514 (ether_frame [2, 0, 0, 0, 0, k] [2, 0, 0, 0, 0, 2] 0x800 p)) =
      Some \<lparr>eh_dst = [2, 0, 0, 0, 0, k], eh_src = [2, 0, 0, 0, 0, 2], eh_type = hton16 0x800\<rparr>"
    if "length p < 46" for k p
    using that read_ether_hdr_frame [of "[2, 0, 0, 0, 0, k]" "[2, 0, 0, 0, 0, 2]" "0x800" p]
      length_ether_frame [of "[2, 0, 0, 0, 0, k]" "[2, 0, 0, 0, 0, 2]" "0x800" p] by simp
  have "frames_for 1 [2, 0, 0, 0, 0, 1] 0x800 (rx dev_demo 3) = [\<lparr>nq_dev = 1, nq_len = 46, nq_data = [5, 6] @ replicate 44 0\<rparr>]"
    by (simp add: dev_demo_def ether_accept_def Let_def ETHER_FRAME_SIZE_MAX_def h ETHER_ADDR_BROADCAST_def)
      (simp add: ether_frame_def)
  with ether_isr_drains [OF dev_demo_ok(1,2) d, of 0 ether_tap_isr 36] dev_demo_ok(3,4) q show ?thesis
    by auto
qed

text \<open>
  Output on a registered device is defined for every length and payload: it is refused without
  effect when the device is down or the data exceed its limit, and otherwise changes nothing but
  counters, the wire and the tails of input queues. On the loopback device the packet is then
  waiting, unchanged, in the queue of its protocol.
\<close>

theorem network_device_output_safe:
  assumes "wf_net s" "dev \<in> set (devices s)" "dev_heap s dev = Some d" "len \<le> length data"
    "dev_ops d \<noteq> Some loopback_ops \<longrightarrow> (\<exists>a. dst = Some a \<and> 6 \<le> length a)"
  shows "\<exists>r s'. network_device_output dev type data len dst s = Some (r, s') \<and> net_out s s' \<and> r \<in> {0, -1} \<and>
    (\<not> NETWORK_DEVICE_IS_UP d \<or> unat (dev_mtu d) < len \<longrightarrow> r = -1 \<and> s' = s) \<and>
    (dev_ops d = Some loopback_ops \<and> NETWORK_DEVICE_IS_UP d \<and> len \<le> unat (dev_mtu d) \<and> (\<forall>n. mem_ok s n) \<longrightarrow>
       r = 0 \<and> (\<forall>t. queue_of t s' = queue_of t s @
         (if t = type \<and> protocol_of type s \<noteq> None
          then [\<lparr>nq_dev = dev, nq_len = len, nq_data = take len data\<rparr>] else [])))"
proof -
  obtain r s' where out: "network_device_output dev type data len dst s = Some (r, s')" "net_out s s'" "r \<in> {0, -1}"
    using network_device_output_out [OF assms(1,2,4), of dst type] assms(3,5) by auto
  moreover have "r = -1 \<and> s' = s" if "\<not> NETWORK_DEVICE_IS_UP d \<or> unat (dev_mtu d) < len"
    using lo_link.output_refused [OF assms(3) that, of type data dst] out(1) by simp
  moreover have "r = 0 \<and> (\<forall>t. queue_of t s' = queue_of t s @
         (if t = type \<and> protocol_of type s \<noteq> None
          then [\<lparr>nq_dev = dev, nq_len = len, nq_data = take len data\<rparr>] else []))"
    if "dev_ops d = Some loopback_ops" "NETWORK_DEVICE_IS_UP d" "len \<le> unat (dev_mtu d)" "\<forall>n. mem_ok s n"
    using network_input_handler_queues [OF assms(1,2,4) that(4), of type] that assms(3) out(1)
    by (auto simp: network_device_output_def ops_transmit_def loopback_transmit_def)
  ultimately show ?thesis by blast
qed

text \<open>The same devices after the loopback device was opened.\<close>

definition lo_demo :: net_state where
  "lo_demo = dev_demo\<lparr>dev_heap := (dev_heap dev_demo)(0 \<mapsto> (loopback_setup zero_device)\<lparr>dev_flags := 0x11\<rparr>)\<rparr>"

lemma lo_demo_open: "network_device_open 0 dev_demo = Some (0, lo_demo)"
  by (simp add: network_device_open_def set_flags_def lo_demo_def dev_demo_def loopback_setup_def zero_device_def
      NETWORK_DEVICE_IS_UP_def NETWORK_DEVICE_FLAG_UP_def NETWORK_DEVICE_FLAG_LOOPBACK_def ops_open_def)

lemma lo_demo_ok: "wf_net lo_demo" "softirq_ok lo_demo" "\<forall>n. mem_ok lo_demo n"
proof -
  have d: "dev_heap dev_demo 0 = Some (loopback_setup zero_device)" "0 \<in> set (devices dev_demo)"
    by (simp_all add: dev_demo_def)
  have ext: "dev_ext 0 dev_demo lo_demo"
    using network_device_open_spec [OF dev_demo_ok(1) d(2,1)] lo_demo_open by auto
  show "wf_net lo_demo" "softirq_ok lo_demo"
    using dev_ext_wf [OF dev_demo_ok(1) ext] dev_ext_softirq [OF ext dev_demo_ok(2)] .
  show "\<forall>n. mem_ok lo_demo n"
    using dev_demo_ok(4) by (simp add: lo_demo_def)
qed

theorem network_device_output_safe_witness:
  "\<exists>s'. network_device_output 0 0x800 [1, 2, 3] 3 None lo_demo = Some (0, s') \<and>
     queue_of 0x800 s' = [\<lparr>nq_dev = 0, nq_len = 3, nq_data = [1, 2, 3]\<rparr>]"
proof -
  let ?d = "(loopback_setup zero_device)\<lparr>dev_flags := 0x11\<rparr>"
  have d: "0 \<in> set (devices lo_demo)" "dev_heap lo_demo 0 = Some ?d"
    by (simp_all add: lo_demo_def dev_demo_def)
  have up: "dev_ops ?d = Some loopback_ops" "NETWORK_DEVICE_IS_UP ?d" "3 \<le> unat (dev_mtu ?d)"
    by (simp_all add: loopback_setup_def NETWORK_DEVICE_IS_UP_def NETWORK_DEVICE_FLAG_UP_def LOOPBACK_MTU_def)
  have "queue_of 0x800 lo_demo = []" "protocol_of 0x800 lo_demo \<noteq> None"
    by (simp_all add: queue_of_def protocol_of_def lo_demo_def dev_demo_def net_demo_def lqueue_init_def)
  with network_device_output_safe [OF lo_demo_ok(1) d, of 3 "[1, 2, 3]" None "0x800"] up lo_demo_ok(3)
  show ?thesis by auto
qed

end
