(* ===== verification/Arp.thy ===== *)
theory Arp
  imports Device
begin

text \<open>
  Address resolution, \<^verbatim>\<open>src/lib/arp.c\<close>: the cache of 32 entries with its search, eviction and
  expiry, the messages, input and resolution. The state extends the network state by the static
  array \<^verbatim>\<open>caches\<close>.

  The functions below run with the mutex held or take it themselves; \<open>arp_input\<close> takes it twice.
  Its two critical sections are definitions of their own (\<open>arp_input_update\<close>, \<open>arp_input_rest\<close>), so
  that what another thread may do between them can be stated.
\<close>

section \<open>Definitions\<close>

subsection \<open>Data\<close>

definition ARP_HRD_ETHER :: u16 where "ARP_HRD_ETHER = 0x0001"
definition ARP_PRO_IP :: u16 where "ARP_PRO_IP = ETHER_TYPE_IP"
definition ARP_OP_REQUEST :: u16 where "ARP_OP_REQUEST = 0x0001"
definition ARP_OP_REPLY :: u16 where "ARP_OP_REPLY = 0x0002"
definition ARP_CACHE_SIZE :: nat where "ARP_CACHE_SIZE = 32"
definition ARP_CACHE_TIMEOUT :: int where "ARP_CACHE_TIMEOUT = 30"
definition IP_ADDRESS_LENGTH :: nat where "IP_ADDRESS_LENGTH = 4"

definition ARP_RESOLVE_ERROR :: int where "ARP_RESOLVE_ERROR = -1"
definition ARP_RESOLVE_INCOMPLETE :: int where "ARP_RESOLVE_INCOMPLETE = 0"
definition ARP_RESOLVE_FOUND :: int where "ARP_RESOLVE_FOUND = 1"

datatype arp_cache_state =
  ARP_CACHE_STATE_FREE | ARP_CACHE_STATE_INCOMPLETE | ARP_CACHE_STATE_RESOLVED | ARP_CACHE_STATE_STATIC

record arp_hdr =
  ar_hrd :: u16
  ar_pro :: u16
  ar_hln :: u8
  ar_pln :: u8
  ar_op :: u16

record arp_ether = arp_hdr +
  ae_sha :: bytes
  ae_spa :: u32
  ae_tha :: bytes
  ae_tpa :: u32

record arp_cache =
  ac_state :: arp_cache_state
  ac_pa :: u32
  ac_ha :: bytes
  ac_timestamp :: timeval

record arp_state = net_state +
  caches :: "arp_cache list"

text \<open>The layout of \<^verbatim>\<open>struct arp_ether\<close>: 28 bytes without padding.\<close>

definition arp_ether_size :: nat where "arp_ether_size = 28"

definition arp_ether_bytes :: "arp_ether \<Rightarrow> bytes" where
  "arp_ether_bytes m =
     store16 (ar_hrd m) @ store16 (ar_pro m) @ [ar_hln m, ar_pln m] @ store16 (ar_op m) @
     ae_sha m @ store32 (ae_spa m) @ ae_tha m @ store32 (ae_tpa m)"

definition read_arp_ether :: "bytes \<Rightarrow> arp_ether option" where
  "read_arp_ether b =
     (if length b < arp_ether_size then None
      else Some \<lparr>ar_hrd = load16 (b ! 0) (b ! 1), ar_pro = load16 (b ! 2) (b ! 3), ar_hln = b ! 4, ar_pln = b ! 5,
        ar_op = load16 (b ! 6) (b ! 7), ae_sha = take 6 (drop 8 b),
        ae_spa = load32 (b ! 14) (b ! 15) (b ! 16) (b ! 17), ae_tha = take 6 (drop 18 b),
        ae_tpa = load32 (b ! 24) (b ! 25) (b ! 26) (b ! 27)\<rparr>)"

definition arp_opcode_ntoa :: "u16 \<Rightarrow> string" where
  "arp_opcode_ntoa opcode =
     (if ntoh16 opcode = ARP_OP_REQUEST then ''Request''
      else if ntoh16 opcode = ARP_OP_REPLY then ''Reply''
      else ''Unknown'')"

subsection \<open>Cache\<close>

text \<open>The loop of \<^verbatim>\<open>arp_cache_alloc\<close>: the current index, the oldest entry so far, the entries ahead.\<close>

fun arp_alloc_scan :: "nat \<Rightarrow> (nat \<times> timeval) option \<Rightarrow> arp_cache list \<Rightarrow> nat option" where
  "arp_alloc_scan i oldest [] = map_option fst oldest"
| "arp_alloc_scan i oldest (entry # entries) =
     (if ac_state entry = ARP_CACHE_STATE_FREE then Some i
      else arp_alloc_scan (i + 1)
        (case oldest of
           None \<Rightarrow> Some (i, ac_timestamp entry)
         | Some (k, t) \<Rightarrow> if timercmp (>) t (ac_timestamp entry) then Some (i, ac_timestamp entry) else oldest)
        entries)"

definition arp_cache_alloc :: "arp_cache list \<Rightarrow> nat option" where
  "arp_cache_alloc cs = arp_alloc_scan 0 None cs"

definition arp_cache_select :: "u32 \<Rightarrow> arp_cache list \<Rightarrow> nat option" where
  "arp_cache_select pa cs = find_slot (\<lambda>entry. ac_state entry \<noteq> ARP_CACHE_STATE_FREE \<and> ac_pa entry = pa) cs"

definition arp_cache_update :: "u32 \<Rightarrow> bytes \<Rightarrow> 'a arp_state_scheme \<Rightarrow> (nat option \<times> 'a arp_state_scheme) option" where
  "arp_cache_update pa ha s =
     (case arp_cache_select pa (caches s) of
        None \<Rightarrow> Some (None, s)
      | Some i \<Rightarrow> do {
          ha6 \<leftarrow> mem_read ha 0 ETHER_ADDR_LEN;
          let (now, s) = gettimeofday s;
          let cache = (caches s ! i)\<lparr>ac_state := ARP_CACHE_STATE_RESOLVED, ac_ha := ha6, ac_timestamp := now\<rparr>;
          Some (Some i, s\<lparr>caches := (caches s)[i := cache]\<rparr>)
        })"

definition arp_cache_insert :: "u32 \<Rightarrow> bytes \<Rightarrow> 'a arp_state_scheme \<Rightarrow> (nat option \<times> 'a arp_state_scheme) option" where
  "arp_cache_insert pa ha s =
     (case arp_cache_alloc (caches s) of
        None \<Rightarrow> Some (None, s)
      | Some i \<Rightarrow> do {
          ha6 \<leftarrow> mem_read ha 0 ETHER_ADDR_LEN;
          let (now, s) = gettimeofday s;
          let cache = \<lparr>ac_state = ARP_CACHE_STATE_RESOLVED, ac_pa = pa, ac_ha = ha6, ac_timestamp = now\<rparr>;
          Some (Some i, s\<lparr>caches := (caches s)[i := cache]\<rparr>)
        })"

definition arp_cache_delete :: "arp_cache \<Rightarrow> arp_cache" where
  "arp_cache_delete cache =
     cache\<lparr>ac_state := ARP_CACHE_STATE_FREE, ac_pa := 0, ac_ha := replicate ETHER_ADDR_LEN 0, ac_timestamp := timerclear\<rparr>"

subsection \<open>Messages\<close>

definition arp_request :: "nat \<Rightarrow> u32 \<Rightarrow> 'a net_state_scheme \<Rightarrow> (int \<times> 'a net_state_scheme) option" where
  "arp_request iface tpa s = do {
     i \<leftarrow> if_heap s iface;
     dev \<leftarrow> ni_dev i;
     d \<leftarrow> dev_heap s dev;
     sha \<leftarrow> mem_read (dev_address d) 0 ETHER_ADDR_LEN;
     let request = \<lparr>ar_hrd = hton16 ARP_HRD_ETHER, ar_pro = hton16 ARP_PRO_IP, ar_hln = of_nat ETHER_ADDR_LEN,
       ar_pln = of_nat IP_ADDRESS_LENGTH, ar_op = hton16 ARP_OP_REQUEST, ae_sha = sha, ae_spa = if_unicast i,
       ae_tha = replicate ETHER_ADDR_LEN 0, ae_tpa = tpa\<rparr>;
     network_device_output dev ETHER_TYPE_ARP (arp_ether_bytes request) arp_ether_size (Some (dev_broadcast d)) s
   }"

definition arp_reply ::
  "nat \<Rightarrow> bytes \<Rightarrow> u32 \<Rightarrow> bytes \<Rightarrow> 'a net_state_scheme \<Rightarrow> (int \<times> 'a net_state_scheme) option" where
  "arp_reply iface tha tpa dst s = do {
     i \<leftarrow> if_heap s iface;
     dev \<leftarrow> ni_dev i;
     d \<leftarrow> dev_heap s dev;
     sha \<leftarrow> mem_read (dev_address d) 0 ETHER_ADDR_LEN;
     tha6 \<leftarrow> mem_read tha 0 ETHER_ADDR_LEN;
     let reply = \<lparr>ar_hrd = hton16 ARP_HRD_ETHER, ar_pro = hton16 ARP_PRO_IP, ar_hln = of_nat ETHER_ADDR_LEN,
       ar_pln = of_nat IP_ADDRESS_LENGTH, ar_op = hton16 ARP_OP_REPLY, ae_sha = sha, ae_spa = if_unicast i,
       ae_tha = tha6, ae_tpa = tpa\<rparr>;
     network_device_output dev ETHER_TYPE_ARP (arp_ether_bytes reply) arp_ether_size (Some dst) s
   }"

definition arp_supported :: "arp_ether \<Rightarrow> bool" where
  "arp_supported msg \<longleftrightarrow>
     \<not> (ntoh16 (ar_hrd msg) \<noteq> ARP_HRD_ETHER \<or> unat (ar_hln msg) \<noteq> ETHER_ADDR_LEN) \<and>
     \<not> (ntoh16 (ar_pro msg) \<noteq> ARP_PRO_IP \<or> unat (ar_pln msg) \<noteq> IP_ADDRESS_LENGTH)"

text \<open>First critical section: the flag \<^verbatim>\<open>merge\<close>.\<close>

definition arp_input_update :: "arp_ether \<Rightarrow> 'a arp_state_scheme \<Rightarrow> (bool \<times> 'a arp_state_scheme) option" where
  "arp_input_update msg s = do {
     (cache, s) \<leftarrow> arp_cache_update (ae_spa msg) (ae_sha msg) s;
     Some (cache \<noteq> None, s)
   }"

definition arp_input_rest :: "arp_ether \<Rightarrow> bool \<Rightarrow> nat \<Rightarrow> 'a arp_state_scheme \<Rightarrow> 'a arp_state_scheme option" where
  "arp_input_rest msg merge dev s = do {
     iface \<leftarrow> network_device_get_interface dev NETWORK_INTERFACE_FAMILY_IP s;
     (case iface of
        None \<Rightarrow> Some s
      | Some ifp \<Rightarrow> do {
          i \<leftarrow> if_heap s ifp;
          if if_unicast i = ae_tpa msg
          then do {
            s \<leftarrow> (if \<not> merge
                 then do { (_, s) \<leftarrow> arp_cache_insert (ae_spa msg) (ae_sha msg) s; Some s }
                 else Some s);
            if ntoh16 (ar_op msg) = ARP_OP_REQUEST
            then do { (_, s) \<leftarrow> arp_reply ifp (ae_sha msg) (ae_spa msg) (ae_sha msg) s; Some s }
            else Some s
          }
          else Some s
        })
   }"

definition arp_input :: "bytes \<Rightarrow> nat \<Rightarrow> nat \<Rightarrow> 'a arp_state_scheme \<Rightarrow> 'a arp_state_scheme option" where
  "arp_input data len dev s =
     (if len < arp_ether_size then Some s
      else do {
        msg \<leftarrow> read_arp_ether data;
        if \<not> arp_supported msg then Some s
        else do {
          _ \<leftarrow> dev_heap s dev;
          (merge, s) \<leftarrow> arp_input_update msg s;
          arp_input_rest msg merge dev s
        }
      })"

text \<open>The result code, the buffer \<^verbatim>\<open>ha\<close> and the state.\<close>

definition arp_resolve ::
  "nat \<Rightarrow> u32 \<Rightarrow> bytes \<Rightarrow> 'a arp_state_scheme \<Rightarrow> (int \<times> bytes \<times> 'a arp_state_scheme) option" where
  "arp_resolve iface pa ha s = do {
     i \<leftarrow> if_heap s iface;
     dev \<leftarrow> ni_dev i;
     d \<leftarrow> dev_heap s dev;
     if dev_type d \<noteq> NETWORK_DEVICE_TYPE_ETHERNET then Some (ARP_RESOLVE_ERROR, ha, s)
     else if ni_family i \<noteq> NETWORK_INTERFACE_FAMILY_IP then Some (ARP_RESOLVE_ERROR, ha, s)
     else case arp_cache_select pa (caches s) of
       None \<Rightarrow>
         (case arp_cache_alloc (caches s) of
            None \<Rightarrow> Some (ARP_RESOLVE_ERROR, ha, s)
          | Some k \<Rightarrow> do {
              let (now, s) = gettimeofday s;
              let cache = (caches s ! k)\<lparr>ac_state := ARP_CACHE_STATE_INCOMPLETE, ac_pa := pa, ac_timestamp := now\<rparr>;
              (_, s) \<leftarrow> arp_request iface pa (s\<lparr>caches := (caches s)[k := cache]\<rparr>);
              Some (ARP_RESOLVE_INCOMPLETE, ha, s)
            })
     | Some k \<Rightarrow>
         if ac_state (caches s ! k) = ARP_CACHE_STATE_INCOMPLETE
         then do {
           (_, s) \<leftarrow> arp_request iface pa s;
           Some (ARP_RESOLVE_INCOMPLETE, ha, s)
         }
         else do {
           ha \<leftarrow> mem_write ha 0 (ac_ha (caches s ! k));
           Some (ARP_RESOLVE_FOUND, ha, s)
         }
   }"

definition arp_expired :: "timeval \<Rightarrow> arp_cache \<Rightarrow> bool" where
  "arp_expired now entry \<longleftrightarrow>
     ac_state entry \<noteq> ARP_CACHE_STATE_FREE \<and> ac_state entry \<noteq> ARP_CACHE_STATE_STATIC \<and>
     tv_sec (timersub now (ac_timestamp entry)) > ARP_CACHE_TIMEOUT"

definition arp_timer :: "'a arp_state_scheme \<Rightarrow> 'a arp_state_scheme" where
  "arp_timer s =
     (let (now, s) = gettimeofday s
      in s\<lparr>caches := map (\<lambda>entry. if arp_expired now entry then arp_cache_delete entry else entry) (caches s)\<rparr>)"

definition arp_init :: "'a net_state_scheme \<Rightarrow> int \<times> 'a net_state_scheme" where
  "arp_init s =
     (let (r, s) = network_protocol_register ''ARP'' NETWORK_PROTOCOL_TYPE_ARP arp_input_handler s
      in if r = -1 then (-1, s)
         else
           (let (r, s) = network_timer_register ''ARP Timer'' (Timeval 1 0) arp_timer_handler s
            in if r = -1 then (-1, s) else (0, s)))"

section \<open>Invariant\<close>

definition arp_used :: "arp_cache \<Rightarrow> bool" where
  "arp_used entry \<longleftrightarrow> ac_state entry \<noteq> ARP_CACHE_STATE_FREE"

text \<open>The cache has its size, hardware addresses have their length, and no address has two entries.\<close>

definition wf_caches :: "arp_cache list \<Rightarrow> bool" where
  "wf_caches cs \<longleftrightarrow>
     length cs = ARP_CACHE_SIZE \<and> (\<forall>entry \<in> set cs. length (ac_ha entry) = ETHER_ADDR_LEN) \<and>
     (\<forall>i < length cs. \<forall>j < length cs. arp_used (cs ! i) \<longrightarrow> arp_used (cs ! j) \<longrightarrow> ac_pa (cs ! i) = ac_pa (cs ! j) \<longrightarrow> i = j)"

text \<open>The cache as a finite map from protocol addresses to entries.\<close>

definition arp_map :: "arp_cache list \<Rightarrow> u32 \<Rightarrow> arp_cache option" where
  "arp_map cs pa = map_option (\<lambda>i. cs ! i) (arp_cache_select pa cs)"

definition wf_arp :: "'a arp_state_scheme \<Rightarrow> bool" where
  "wf_arp s \<longleftrightarrow> wf_net s \<and> wf_caches (caches s)"

section \<open>Lemmas\<close>

subsection \<open>Allocation of a slot\<close>

lemma arp_alloc_scan_oldest:
  "\<exists>k. arp_alloc_scan i (Some (m, t)) es = Some k \<and>
     (k = m \<and> (\<forall>e \<in> set es. arp_used e \<and> t \<le> ac_timestamp e) \<or>
      i \<le> k \<and> k < i + length es \<and>
        (\<not> arp_used (es ! (k - i)) \<and> (\<forall>j < k - i. arp_used (es ! j)) \<or>
         (\<forall>e \<in> set es. arp_used e \<and> ac_timestamp (es ! (k - i)) \<le> ac_timestamp e) \<and>
         ac_timestamp (es ! (k - i)) < t \<and> (\<forall>j < k - i. ac_timestamp (es ! (k - i)) < ac_timestamp (es ! j))))"
proof (induction es arbitrary: i m t)
  case (Cons e es)
  show ?case
  proof (cases "arp_used e")
    case False
    then show ?thesis by (auto simp: arp_used_def)
  next
    case True
    let ?m = "if ac_timestamp e < t then i else m"
    let ?t = "if ac_timestamp e < t then ac_timestamp e else t"
    have eq: "arp_alloc_scan i (Some (m, t)) (e # es) = arp_alloc_scan (Suc i) (Some (?m, ?t)) es"
      using True by (simp add: arp_used_def)
    from Cons.IH [of "Suc i" ?m ?t] obtain k where k: "arp_alloc_scan (Suc i) (Some (?m, ?t)) es = Some k"
      "k = ?m \<and> (\<forall>e \<in> set es. arp_used e \<and> ?t \<le> ac_timestamp e) \<or>
       Suc i \<le> k \<and> k < Suc i + length es \<and>
        (\<not> arp_used (es ! (k - Suc i)) \<and> (\<forall>j < k - Suc i. arp_used (es ! j)) \<or>
         (\<forall>e \<in> set es. arp_used e \<and> ac_timestamp (es ! (k - Suc i)) \<le> ac_timestamp e) \<and>
         ac_timestamp (es ! (k - Suc i)) < ?t \<and> (\<forall>j < k - Suc i. ac_timestamp (es ! (k - Suc i)) < ac_timestamp (es ! j)))"
      by blast
    from k(2) consider (old) "k = ?m" "\<forall>e \<in> set es. arp_used e \<and> ?t \<le> ac_timestamp e"
      | (free) "Suc i \<le> k" "k < Suc i + length es" "\<not> arp_used (es ! (k - Suc i))" "\<forall>j < k - Suc i. arp_used (es ! j)"
      | (new) "Suc i \<le> k" "k < Suc i + length es" "\<forall>e \<in> set es. arp_used e \<and> ac_timestamp (es ! (k - Suc i)) \<le> ac_timestamp e"
        "ac_timestamp (es ! (k - Suc i)) < ?t" "\<forall>j < k - Suc i. ac_timestamp (es ! (k - Suc i)) < ac_timestamp (es ! j)"
      by blast
    then show ?thesis
    proof cases
      case old
      with True show ?thesis unfolding eq k(1) by (auto split: if_splits)
    next
      case free
      then have "k - i = Suc (k - Suc i)" by simp
      with free True show ?thesis unfolding eq k(1)
        by (auto simp: less_Suc_eq_0_disj)
    next
      case new
      then have "k - i = Suc (k - Suc i)" by simp
      with new True show ?thesis unfolding eq k(1)
        by (auto simp: less_Suc_eq_0_disj split: if_splits)
    qed
  qed
qed simp

text \<open>A free slot if there is one, the first; otherwise the first among the oldest.\<close>

lemma arp_cache_alloc_spec:
  assumes "cs \<noteq> []"
  shows "\<exists>k < length cs. arp_cache_alloc cs = Some k \<and>
    (\<not> arp_used (cs ! k) \<and> (\<forall>j < k. arp_used (cs ! j)) \<or>
     (\<forall>e \<in> set cs. arp_used e \<and> ac_timestamp (cs ! k) \<le> ac_timestamp e) \<and>
     (\<forall>j < k. ac_timestamp (cs ! k) < ac_timestamp (cs ! j)))"
proof -
  from assms obtain e es where cs: "cs = e # es" by (cases cs) auto
  show ?thesis
  proof (cases "arp_used e")
    case False
    then show ?thesis by (auto simp: cs arp_cache_alloc_def arp_used_def)
  next
    case True
    then have "arp_cache_alloc cs = arp_alloc_scan 1 (Some (0, ac_timestamp e)) es"
      by (simp add: cs arp_cache_alloc_def arp_used_def)
    with arp_alloc_scan_oldest [of 1 0 "ac_timestamp e" es] obtain k where k: "arp_cache_alloc cs = Some k"
      "k = 0 \<and> (\<forall>x \<in> set es. arp_used x \<and> ac_timestamp e \<le> ac_timestamp x) \<or>
       1 \<le> k \<and> k < 1 + length es \<and>
        (\<not> arp_used (es ! (k - 1)) \<and> (\<forall>j < k - 1. arp_used (es ! j)) \<or>
         (\<forall>x \<in> set es. arp_used x \<and> ac_timestamp (es ! (k - 1)) \<le> ac_timestamp x) \<and>
         ac_timestamp (es ! (k - 1)) < ac_timestamp e \<and> (\<forall>j < k - 1. ac_timestamp (es ! (k - 1)) < ac_timestamp (es ! j)))"
      by auto
    show ?thesis
    proof (cases k)
      case 0
      with k True show ?thesis by (auto simp: cs)
    next
      case (Suc m)
      with k True show ?thesis by (auto simp: cs less_Suc_eq_0_disj)
    qed
  qed
qed

subsection \<open>The cache as a map\<close>

lemma arp_map_Some_iff:
  assumes "wf_caches cs"
  shows "arp_map cs pa = Some e \<longleftrightarrow> (\<exists>i < length cs. cs ! i = e \<and> arp_used e \<and> ac_pa e = pa)"
proof
  assume "arp_map cs pa = Some e"
  then show "\<exists>i < length cs. cs ! i = e \<and> arp_used e \<and> ac_pa e = pa"
    by (auto simp: arp_map_def arp_cache_select_def arp_used_def dest: find_slot_SomeD)
next
  assume "\<exists>i < length cs. cs ! i = e \<and> arp_used e \<and> ac_pa e = pa"
  then obtain i where i: "i < length cs" "cs ! i = e" "arp_used e" "ac_pa e = pa" by blast
  have "\<not> (arp_used (cs ! j) \<and> ac_pa (cs ! j) = pa)" if "j < i" for j
    using assms i that unfolding wf_caches_def by (metis less_trans nat_neq_iff)
  with i have "find_slot (\<lambda>entry. ac_state entry \<noteq> ARP_CACHE_STATE_FREE \<and> ac_pa entry = pa) cs = Some i"
    by (intro find_slotI) (auto simp: arp_used_def)
  with i show "arp_map cs pa = Some e"
    by (simp add: arp_map_def arp_cache_select_def)
qed

lemma arp_map_None_iff: "arp_map cs pa = None \<longleftrightarrow> (\<forall>e \<in> set cs. arp_used e \<longrightarrow> ac_pa e \<noteq> pa)"
  by (auto simp: arp_map_def arp_cache_select_def arp_used_def slot_simps)

lemma arp_select_map: "arp_cache_select pa cs = Some i \<Longrightarrow> arp_map cs pa = Some (cs ! i) \<and> i < length cs"
  by (auto simp: arp_map_def arp_cache_select_def)

lemma arp_map_eqI:
  assumes "wf_caches cs" "\<And>e. m pa = Some e \<longleftrightarrow> (\<exists>i < length cs. cs ! i = e \<and> arp_used e \<and> ac_pa e = pa)"
  shows "arp_map cs pa = m pa"
  using arp_map_Some_iff [OF assms(1)] assms(2) by (metis option.exhaust)

text \<open>Writing an entry into slot \<open>k\<close>, when no other slot has its address.\<close>

lemma wf_caches_write:
  assumes wf: "wf_caches cs" and k: "k < length cs" and ha: "length (ac_ha e) = 6"
    and other: "\<forall>j < length cs. j \<noteq> k \<longrightarrow> arp_used (cs ! j) \<longrightarrow> ac_pa (cs ! j) \<noteq> ac_pa e"
  shows "wf_caches (cs[k := e])"
proof -
  have "\<forall>x \<in> set (cs[k := e]). length (ac_ha x) = 6"
    using wf ha by (auto simp: wf_caches_def ETHER_ADDR_LEN_def dest!: set_update_subset_insert [THEN subsetD])
  then show ?thesis
    using wf k other unfolding wf_caches_def by (auto simp: nth_list_update ETHER_ADDR_LEN_def)
qed

lemma arp_map_write:
  assumes wf: "wf_caches cs" and k: "k < length cs" and e: "arp_used e" "length (ac_ha e) = 6"
    and other: "\<forall>j < length cs. j \<noteq> k \<longrightarrow> arp_used (cs ! j) \<longrightarrow> ac_pa (cs ! j) \<noteq> ac_pa e"
  shows "arp_map (cs[k := e]) pa =
    (if pa = ac_pa e then Some e else if arp_used (cs ! k) \<and> ac_pa (cs ! k) = pa then None else arp_map cs pa)"
proof -
  note wf' = wf_caches_write [OF wf k e(2) other]
  have "arp_map (cs[k := e]) pa = Some x \<longleftrightarrow>
      (if pa = ac_pa e then Some e else if arp_used (cs ! k) \<and> ac_pa (cs ! k) = pa then None else arp_map cs pa) = Some x" for x
  proof -
    have "arp_map (cs[k := e]) pa = Some x \<longleftrightarrow>
        (x = e \<and> ac_pa e = pa) \<or> (\<exists>i < length cs. i \<noteq> k \<and> cs ! i = x \<and> arp_used x \<and> ac_pa x = pa)"
      using k e(1) by (auto simp: arp_map_Some_iff [OF wf'] nth_list_update)
    also have "\<dots> \<longleftrightarrow> (if pa = ac_pa e then Some e else if arp_used (cs ! k) \<and> ac_pa (cs ! k) = pa then None else arp_map cs pa) = Some x"
      using wf k other by (auto simp: arp_map_Some_iff [OF wf] wf_caches_def)
    finally show ?thesis .
  qed
  then show ?thesis by (metis option.exhaust)
qed

subsection \<open>Frames\<close>

text \<open>What ARP output and input may change: the output path below, and the cache, which stays well-formed.\<close>

definition arp_out :: "'a arp_state_scheme \<Rightarrow> 'a arp_state_scheme \<Rightarrow> bool" where
  "arp_out s s' \<longleftrightarrow>
     net_ext s s' \<and> (wf_caches (caches s) \<longrightarrow> wf_caches (caches s')) \<and> arp_state.more s' = arp_state.more s"

lemma net_more_caches: "net_state.more s' = net_state.more s \<Longrightarrow> caches s' = caches s \<and> arp_state.more s' = arp_state.more s"
  by (cases s, cases s') simp

lemma net_out_caches: "net_out s s' \<Longrightarrow> caches s' = caches s \<and> arp_state.more s' = arp_state.more s"
  unfolding net_out_def using net_more_caches by blast

lemma net_out_arp: "net_out s s' \<Longrightarrow> arp_out s s'"
  using net_out_caches [of s s'] by (simp add: arp_out_def net_out_def)

lemma arp_out_refl [simp, intro]: "arp_out s s"
  by (simp add: arp_out_def)

lemma arp_out_trans [trans]: "arp_out s t \<Longrightarrow> arp_out t u \<Longrightarrow> arp_out s u"
  by (auto simp: arp_out_def intro: net_ext_trans)

lemma arp_out_ext: "arp_out s s' \<Longrightarrow> net_ext s s'"
  by (simp add: arp_out_def)

lemma arp_out_wf: "arp_out s s' \<Longrightarrow> wf_arp s \<Longrightarrow> wf_arp s'"
  by (auto simp: arp_out_def wf_arp_def intro: net_ext_wf)

lemma arp_out_caches:
  assumes "wf_caches cs"
  shows "arp_out s (s\<lparr>caches := cs\<rparr>)"
  using assms by (auto simp: arp_out_def intro!: net_ext_quiet)

lemma arp_out_clock:
  assumes "wf_caches cs"
  shows "arp_out s (s\<lparr>clock_n := Suc (clock_n s), caches := cs\<rparr>)"
  using assms by (auto simp: arp_out_def intro!: net_ext_quiet)

subsection \<open>Cache operations on the map\<close>

definition now :: "'a net_state_scheme \<Rightarrow> timeval" where
  "now s = clock s (clock_n s)"

lemma caches_nonempty: "wf_caches cs \<Longrightarrow> cs \<noteq> []"
  by (auto simp: wf_caches_def ARP_CACHE_SIZE_def)

lemma select_others:
  assumes wf: "wf_caches cs" and sel: "arp_cache_select pa cs = Some i"
  shows "\<forall>j < length cs. j \<noteq> i \<longrightarrow> arp_used (cs ! j) \<longrightarrow> ac_pa (cs ! j) \<noteq> pa"
proof (intro allI impI)
  fix j assume "j < length cs" "j \<noteq> i" "arp_used (cs ! j)"
  with wf find_slot_SomeD [OF sel [unfolded arp_cache_select_def]] show "ac_pa (cs ! j) \<noteq> pa"
    unfolding wf_caches_def arp_used_def by blast
qed

lemma arp_cache_update_spec:
  assumes wf: "wf_arp s" and ha: "6 \<le> length ha"
  shows "if arp_map (caches s) pa = None then arp_cache_update pa ha s = Some (None, s)
    else \<exists>i s'. arp_cache_update pa ha s = Some (Some i, s') \<and> arp_out s s' \<and> pending s' = pending s \<and> wire s' = wire s \<and>
      arp_map (caches s') = (arp_map (caches s))(pa \<mapsto> \<lparr>ac_state = ARP_CACHE_STATE_RESOLVED, ac_pa = pa,
        ac_ha = take 6 ha, ac_timestamp = now s\<rparr>)"
proof (cases "arp_cache_select pa (caches s)")
  case None
  then show ?thesis by (simp add: arp_cache_update_def arp_map_def)
next
  case (Some i)
  from wf have wc: "wf_caches (caches s)" by (simp add: wf_arp_def)
  let ?e = "\<lparr>ac_state = ARP_CACHE_STATE_RESOLVED, ac_pa = pa, ac_ha = take 6 ha, ac_timestamp = now s\<rparr>"
  have i: "i < length (caches s)" "arp_used (caches s ! i)" "ac_pa (caches s ! i) = pa"
    using find_slot_SomeD [OF Some [unfolded arp_cache_select_def]] by (auto simp: arp_used_def)
  have e: "arp_used ?e" "length (ac_ha ?e) = 6" using ha by (simp_all add: arp_used_def)
  have oth: "\<forall>j < length (caches s). j \<noteq> i \<longrightarrow> arp_used (caches s ! j) \<longrightarrow> ac_pa (caches s ! j) \<noteq> ac_pa ?e"
    using select_others [OF wc Some] by simp
  let ?s = "s\<lparr>clock_n := Suc (clock_n s), caches := (caches s)[i := ?e]\<rparr>"
  have "(caches s ! i)\<lparr>ac_state := ARP_CACHE_STATE_RESOLVED, ac_ha := take 6 ha, ac_timestamp := now s\<rparr> = ?e"
    using i(3) by simp
  then have eq: "arp_cache_update pa ha s = Some (Some i, ?s)"
    using Some ha by (simp add: arp_cache_update_def gettimeofday_def now_def ETHER_ADDR_LEN_def)
  have "arp_map (caches ?s) = (arp_map (caches s))(pa \<mapsto> ?e)"
    using arp_map_write [OF wc i(1) e oth] i(3) by (auto simp: fun_eq_iff)
  with eq arp_out_clock [OF wf_caches_write [OF wc i(1) e(2) oth], of s] arp_select_map [OF Some] show ?thesis
    by auto
qed

text \<open>The entry that makes room for a new address, if the cache is full.\<close>

definition arp_victim :: "arp_cache list \<Rightarrow> u32 \<Rightarrow> bool" where
  "arp_victim cs pa \<longleftrightarrow>
     (case arp_cache_alloc cs of None \<Rightarrow> False | Some k \<Rightarrow> arp_used (cs ! k) \<and> ac_pa (cs ! k) = pa)"

lemma arp_cache_write_new:
  assumes wf: "wf_caches cs" and free: "arp_map cs (ac_pa e) = None" and e: "arp_used e" "length (ac_ha e) = 6"
    and k: "arp_cache_alloc cs = Some k"
  shows "wf_caches (cs[k := e]) \<and>
    arp_map (cs[k := e]) = (\<lambda>p. if p = ac_pa e then Some e else if arp_victim cs p then None else arp_map cs p)"
proof -
  from arp_cache_alloc_spec [OF caches_nonempty [OF wf]] k have kl: "k < length cs" by auto
  from free have oth: "\<forall>j < length cs. j \<noteq> k \<longrightarrow> arp_used (cs ! j) \<longrightarrow> ac_pa (cs ! j) \<noteq> ac_pa e"
    by (simp add: arp_map_None_iff)
  show ?thesis
    using wf_caches_write [OF wf kl e(2) oth] arp_map_write [OF wf kl e oth] k
    by (auto simp: arp_victim_def fun_eq_iff)
qed

lemma arp_cache_insert_spec:
  assumes wf: "wf_arp s" and ha: "6 \<le> length ha" and free: "arp_map (caches s) pa = None"
  shows "\<exists>k s'. arp_cache_insert pa ha s = Some (Some k, s') \<and> arp_out s s' \<and> pending s' = pending s \<and> wire s' = wire s \<and>
    arp_map (caches s') = (\<lambda>p. if p = pa
      then Some \<lparr>ac_state = ARP_CACHE_STATE_RESOLVED, ac_pa = pa, ac_ha = take 6 ha, ac_timestamp = now s\<rparr>
      else if arp_victim (caches s) p then None else arp_map (caches s) p)"
proof -
  from wf have wc: "wf_caches (caches s)" by (simp add: wf_arp_def)
  then obtain k where k: "arp_cache_alloc (caches s) = Some k"
    using arp_cache_alloc_spec [OF caches_nonempty] by blast
  let ?e = "\<lparr>ac_state = ARP_CACHE_STATE_RESOLVED, ac_pa = pa, ac_ha = take 6 ha, ac_timestamp = now s\<rparr>"
  have "arp_cache_insert pa ha s = Some (Some k, s\<lparr>clock_n := Suc (clock_n s), caches := (caches s)[k := ?e]\<rparr>)"
    using k ha by (simp add: arp_cache_insert_def gettimeofday_def now_def ETHER_ADDR_LEN_def)
  moreover have "wf_caches ((caches s)[k := ?e]) \<and> arp_map ((caches s)[k := ?e]) =
     (\<lambda>p. if p = pa then Some ?e else if arp_victim (caches s) p then None else arp_map (caches s) p)"
    using arp_cache_write_new [OF wc _ _ _ k, of ?e] free ha by (simp add: arp_used_def)
  ultimately show ?thesis
    using arp_out_clock [of _ s] by auto
qed

lemma arp_timer_spec:
  assumes "wf_arp s"
  shows "arp_out s (arp_timer s) \<and> pending (arp_timer s) = pending s \<and> wire (arp_timer s) = wire s \<and>
    arp_map (caches (arp_timer s)) pa =
      (case arp_map (caches s) pa of None \<Rightarrow> None | Some e \<Rightarrow> if arp_expired (now s) e then None else Some e)"
proof -
  from assms have wf: "wf_caches (caches s)" by (simp add: wf_arp_def)
  define f where "f = (\<lambda>entry. if arp_expired (now s) entry then arp_cache_delete entry else entry)"
  have used: "arp_used (f e) \<longleftrightarrow> arp_used e \<and> \<not> arp_expired (now s) e" "arp_used (f e) \<Longrightarrow> f e = e"
    "length (ac_ha e) = 6 \<Longrightarrow> length (ac_ha (f e)) = 6" for e
    by (auto simp: f_def arp_used_def arp_cache_delete_def ETHER_ADDR_LEN_def)
  have wf': "wf_caches (map f (caches s))"
    unfolding wf_caches_def
  proof (intro conjI ballI allI impI)
    show "length (map f (caches s)) = ARP_CACHE_SIZE" using wf by (simp add: wf_caches_def)
    show "length (ac_ha e) = ETHER_ADDR_LEN" if "e \<in> set (map f (caches s))" for e
      using that wf used(3) by (auto simp: wf_caches_def ETHER_ADDR_LEN_def)
    fix i j
    assume "i < length (map f (caches s))" "j < length (map f (caches s))" "arp_used (map f (caches s) ! i)"
      "arp_used (map f (caches s) ! j)" "ac_pa (map f (caches s) ! i) = ac_pa (map f (caches s) ! j)"
    then have "i < length (caches s)" "j < length (caches s)" "arp_used (caches s ! i)" "arp_used (caches s ! j)"
      "ac_pa (caches s ! i) = ac_pa (caches s ! j)" using used(1,2) by auto
    with wf show "i = j" unfolding wf_caches_def by blast
  qed
  have st: "arp_timer s = s\<lparr>clock_n := Suc (clock_n s), caches := map f (caches s)\<rparr>"
    by (simp add: arp_timer_def gettimeofday_def now_def f_def)
  have iff: "arp_map (map f (caches s)) pa = Some e \<longleftrightarrow> arp_map (caches s) pa = Some e \<and> \<not> arp_expired (now s) e" for e
  proof -
    have "(\<exists>i < length (caches s). f (caches s ! i) = e \<and> arp_used e \<and> ac_pa e = pa) \<longleftrightarrow>
        (\<exists>i < length (caches s). caches s ! i = e \<and> arp_used e \<and> ac_pa e = pa) \<and> \<not> arp_expired (now s) e"
      using used(1,2) by (metis f_def)
    then show ?thesis by (simp add: arp_map_Some_iff [OF wf'] arp_map_Some_iff [OF wf] cong: conj_cong)
  qed
  have "arp_map (map f (caches s)) pa =
      (case arp_map (caches s) pa of None \<Rightarrow> None | Some e \<Rightarrow> if arp_expired (now s) e then None else Some e)"
  proof (cases "arp_map (map f (caches s)) pa")
    case None
    with iff show ?thesis by (simp split: option.split)
  next
    case (Some e)
    with iff [of e] show ?thesis by simp
  qed
  then show ?thesis
    using arp_out_clock [OF wf', of s] by (simp add: st)
qed

subsection \<open>Messages\<close>

lemma length_arp_ether_bytes [simp]:
  "length (ae_sha m) = 6 \<Longrightarrow> length (ae_tha m) = 6 \<Longrightarrow> length (arp_ether_bytes m) = 28"
  by (simp add: arp_ether_bytes_def)

lemma list6: "length xs = 6 \<Longrightarrow> \<exists>a b c d e f. xs = [a, b, c, d, e, f]"
  by (auto simp: numeral_eq_Suc length_Suc_conv)

lemma read_arp_ether_bytes [simp]:
  fixes m :: arp_ether
  assumes "length (ae_sha m) = 6" "length (ae_tha m) = 6"
  shows "read_arp_ether (arp_ether_bytes m @ pad) = Some m"
proof -
  from list6 [OF assms(1)] list6 [OF assms(2)] obtain a b c d e f g h i j k l
    where "ae_sha m = [a, b, c, d, e, f]" "ae_tha m = [g, h, i, j, k, l]" by blast
  then show ?thesis
    by (cases m) (simp add: read_arp_ether_def arp_ether_bytes_def arp_ether_size_def)
qed

lemma iface_device:
  assumes "wf_net s" "if_heap s ifp = Some i" "ni_dev i = Some dev"
  obtains d where "dev \<in> set (devices s)" "dev_heap s dev = Some d" "wf_device d"
    "length (dev_address d) = 16" "length (dev_broadcast d) = 16"
  using wf_iface_dev [OF assms] wf_device_heap [OF assms(1), of dev]
  by (auto simp: wf_device_def NETWORK_DEVICE_ADDR_LEN_def)

definition arp_request_msg :: "bytes \<Rightarrow> u32 \<Rightarrow> u32 \<Rightarrow> arp_ether" where
  "arp_request_msg sha spa tpa =
     \<lparr>ar_hrd = hton16 1, ar_pro = hton16 0x800, ar_hln = 6, ar_pln = 4, ar_op = hton16 1,
      ae_sha = sha, ae_spa = spa, ae_tha = replicate 6 0, ae_tpa = tpa\<rparr>"

definition arp_reply_msg :: "bytes \<Rightarrow> u32 \<Rightarrow> bytes \<Rightarrow> u32 \<Rightarrow> arp_ether" where
  "arp_reply_msg sha spa tha tpa =
     \<lparr>ar_hrd = hton16 1, ar_pro = hton16 0x800, ar_hln = 6, ar_pln = 4, ar_op = hton16 2,
      ae_sha = sha, ae_spa = spa, ae_tha = tha, ae_tpa = tpa\<rparr>"

lemmas arp_consts =
  ARP_HRD_ETHER_def ARP_PRO_IP_def ETHER_TYPE_IP_def ETHER_TYPE_ARP_def ARP_OP_REQUEST_def ARP_OP_REPLY_def
  IP_ADDRESS_LENGTH_def ETHER_ADDR_LEN_def arp_ether_size_def

lemma arp_request_eq:
  assumes "if_heap s ifp = Some i" "ni_dev i = Some dev" "dev_heap s dev = Some d" "length (dev_address d) = 16"
  shows "arp_request ifp tpa s =
    network_device_output dev 0x806 (arp_ether_bytes (arp_request_msg (take 6 (dev_address d)) (if_unicast i) tpa)) 28
      (Some (dev_broadcast d)) s"
  using assms by (simp add: arp_request_def arp_request_msg_def arp_consts)

lemma arp_reply_eq:
  assumes "if_heap s ifp = Some i" "ni_dev i = Some dev" "dev_heap s dev = Some d" "length (dev_address d) = 16"
    "length tha = 6"
  shows "arp_reply ifp tha tpa dst s =
    network_device_output dev 0x806 (arp_ether_bytes (arp_reply_msg (take 6 (dev_address d)) (if_unicast i) tha tpa)) 28
      (Some dst) s"
  using assms by (simp add: arp_reply_def arp_reply_msg_def arp_consts)

lemma arp_request_out:
  assumes "wf_net s" "if_heap s ifp = Some i" "ni_dev i = Some dev"
  shows "\<exists>r s'. arp_request ifp tpa s = Some (r, s') \<and> net_out s s'"
proof -
  obtain d where d: "dev \<in> set (devices s)" "dev_heap s dev = Some d" "length (dev_address d) = 16" "length (dev_broadcast d) = 16"
    using iface_device [OF assms] by blast
  show ?thesis
    unfolding arp_request_eq [OF assms(2,3) d(2,3)]
    using network_device_output_out [OF assms(1) d(1), of 28
        "arp_ether_bytes (arp_request_msg (take 6 (dev_address d)) (if_unicast i) tpa)" "Some (dev_broadcast d)" "0x806"] d
    by (auto simp: arp_request_msg_def)
qed

lemma arp_reply_out:
  assumes "wf_net s" "if_heap s ifp = Some i" "ni_dev i = Some dev" "length tha = 6" "length dst = 6"
  shows "\<exists>r s'. arp_reply ifp tha tpa dst s = Some (r, s') \<and> net_out s s'"
proof -
  obtain d where d: "dev \<in> set (devices s)" "dev_heap s dev = Some d" "length (dev_address d) = 16"
    using iface_device [OF assms(1-3)] by blast
  show ?thesis
    unfolding arp_reply_eq [OF assms(2,3) d(2,3) assms(4)]
    using network_device_output_out [OF assms(1) d(1), of 28
        "arp_ether_bytes (arp_reply_msg (take 6 (dev_address d)) (if_unicast i) tha tpa)" "Some dst" "0x806"] d assms(4,5)
    by (auto simp: arp_reply_msg_def)
qed

lemma read_arp_ether_lengths:
  "read_arp_ether b = Some m \<Longrightarrow> length (ae_sha m) = 6 \<and> length (ae_tha m) = 6"
  by (auto simp: read_arp_ether_def arp_ether_size_def split: if_splits)

subsection \<open>Input\<close>

text \<open>What a message teaches the cache; \<open>mine\<close> says that it is addressed to the receiving interface.\<close>

definition arp_learn :: "timeval \<Rightarrow> arp_ether \<Rightarrow> bool \<Rightarrow> arp_cache list \<Rightarrow> u32 \<Rightarrow> arp_cache option" where
  "arp_learn t msg mine cs =
     (let e = \<lparr>ac_state = ARP_CACHE_STATE_RESOLVED, ac_pa = ae_spa msg, ac_ha = ae_sha msg, ac_timestamp = t\<rparr>
      in if arp_map cs (ae_spa msg) \<noteq> None then (arp_map cs)(ae_spa msg \<mapsto> e)
         else if mine then (\<lambda>p. if p = ae_spa msg then Some e else if arp_victim cs p then None else arp_map cs p)
         else arp_map cs)"

lemma arp_learn_known:
  "arp_map cs (ae_spa msg) \<noteq> None \<Longrightarrow> arp_learn t msg True cs = arp_learn t msg mine cs"
  by (simp add: arp_learn_def Let_def)

lemma arp_input_update_spec:
  fixes s :: "'a arp_state_scheme"
  assumes wf: "wf_arp s" and sha: "length (ae_sha msg) = 6"
  shows "\<exists>merge u. arp_input_update msg s = Some (merge, u) \<and> arp_out s u \<and> pending u = pending s \<and> wire u = wire s \<and>
    (merge \<longleftrightarrow> arp_map (caches s) (ae_spa msg) \<noteq> None) \<and> arp_map (caches u) = arp_learn (now s) msg merge (caches s) \<and>
    arp_map (caches u) = arp_learn (now s) msg False (caches s) \<and> (\<not> merge \<longrightarrow> u = s)"
proof -
  have tk: "take 6 (ae_sha msg) = ae_sha msg" "6 \<le> length (ae_sha msg)" using sha by simp_all
  show ?thesis
    using arp_cache_update_spec [OF wf tk(2), of "ae_spa msg"] unfolding tk(1)
    by (cases "arp_map (caches s) (ae_spa msg) = None") (auto simp: arp_input_update_def arp_learn_def Let_def)
qed

text \<open>After the second critical section the sender is known, by the update or by an insertion.\<close>

lemma arp_input_insert_spec:
  fixes s :: "'a arp_state_scheme"
  assumes wf: "wf_arp s" and sha: "length (ae_sha msg) = 6" and u: "arp_input_update msg s = Some (merge, u)"
  shows "\<exists>v. (if \<not> merge then do { (_, s) \<leftarrow> arp_cache_insert (ae_spa msg) (ae_sha msg) u; Some s } else Some u) = Some v \<and>
    arp_out s v \<and> pending v = pending s \<and> wire v = wire s \<and> arp_map (caches v) = arp_learn (now s) msg True (caches s)"
proof (cases merge)
  case True
  then show ?thesis using arp_input_update_spec [OF wf sha] u by auto
next
  case False
  have tk: "take 6 (ae_sha msg) = ae_sha msg" "6 \<le> length (ae_sha msg)" using sha by simp_all
  have "u = s" and new: "arp_map (caches s) (ae_spa msg) = None" using arp_input_update_spec [OF wf sha] u False by auto
  then show ?thesis
    using arp_cache_insert_spec [OF wf tk(2) new] False unfolding tk(1) by (auto simp: arp_learn_def Let_def)
qed

lemma arp_input_spec:
  fixes s :: "'a arp_state_scheme"
  assumes wf: "wf_arp s" and dev: "dev \<in> set (devices s)" and len: "28 \<le> len" "len \<le> length data"
    and msg: "read_arp_ether data = Some msg" and sup: "arp_supported msg"
    and get: "network_device_get_interface dev NETWORK_INTERFACE_FAMILY_IP s = Some r"
  shows "\<exists>t s'. arp_input data len dev s = Some s' \<and> arp_out s t \<and> pending t = pending s \<and> wire t = wire s \<and>
    (case r of
       None \<Rightarrow> s' = t \<and> arp_map (caches t) = arp_learn (now s) msg False (caches s)
     | Some ifp \<Rightarrow> \<exists>i. if_heap s ifp = Some i \<and> ni_dev i = Some dev \<and>
         arp_map (caches t) = arp_learn (now s) msg (if_unicast i = ae_tpa msg) (caches s) \<and>
         (if if_unicast i = ae_tpa msg \<and> ntoh16 (ar_op msg) = ARP_OP_REQUEST
          then \<exists>q. arp_reply ifp (ae_sha msg) (ae_spa msg) (ae_sha msg) t = Some (q, s') \<and> net_out t s'
          else s' = t))"
proof -
  from wf have wn: "wf_net s" by (simp add: wf_arp_def)
  from read_arp_ether_lengths [OF msg] have sha: "length (ae_sha msg) = 6" by simp
  obtain d where d: "dev_heap s dev = Some d" using wf_device_heap [OF wn dev] by blast
  obtain merge u where u: "arp_input_update msg s = Some (merge, u)" "arp_out s u" "pending u = pending s" "wire u = wire s"
    "arp_map (caches u) = arp_learn (now s) msg False (caches s)"
    using arp_input_update_spec [OF wf sha] by blast
  have eq: "if_heap u = if_heap s" "dev_heap u = dev_heap s" using net_ext_same [OF arp_out_ext [OF u(2)]] by simp_all
  have inp: "arp_input data len dev s = arp_input_rest msg merge dev u"
    using len msg sup d u(1) by (simp add: arp_input_def arp_ether_size_def)
  have get': "network_device_get_interface dev NETWORK_INTERFACE_FAMILY_IP u = Some r"
    using get eq by (simp add: network_device_get_interface_def)
  show ?thesis
  proof (cases r)
    case None
    have "arp_input_rest msg merge dev u = Some u" using get' None by (simp add: arp_input_rest_def)
    then show ?thesis using inp None u(2-5) by auto
  next
    case (Some ifp)
    obtain i where i: "if_heap s ifp = Some i" "ni_dev i = Some dev"
      using network_device_get_interface_spec [OF wn dev, of NETWORK_INTERFACE_FAMILY_IP] get Some by auto
    show ?thesis
    proof (cases "if_unicast i = ae_tpa msg")
      case False
      have "arp_input_rest msg merge dev u = Some u" using get' Some i eq False by (simp add: arp_input_rest_def)
      then show ?thesis using inp Some i False u(2-5) by auto
    next
      case True
      obtain v where v: "(if \<not> merge then do { (_, s) \<leftarrow> arp_cache_insert (ae_spa msg) (ae_sha msg) u; Some s } else Some u) = Some v"
        "arp_out s v" "pending v = pending s" "wire v = wire s" "arp_map (caches v) = arp_learn (now s) msg True (caches s)"
        using arp_input_insert_spec [OF wf sha u(1)] by blast
      have wv: "wf_net v" using arp_out_wf [OF v(2) wf] by (simp add: wf_arp_def)
      have iv: "if_heap v ifp = Some i" using net_ext_same [OF arp_out_ext [OF v(2)]] i by simp
      obtain q w where w: "arp_reply ifp (ae_sha msg) (ae_spa msg) (ae_sha msg) v = Some (q, w)" "net_out v w"
        using arp_reply_out [OF wv iv i(2) sha sha] by blast
      have "arp_input_rest msg merge dev u = (if ntoh16 (ar_op msg) = ARP_OP_REQUEST then Some w else Some v)"
        using get' Some i eq True v(1) w(1) by (simp add: arp_input_rest_def)
      then show ?thesis using inp Some i True v w by auto
    qed
  qed
qed

text \<open>On any bytes whatever, input is defined and keeps the invariants.\<close>

lemma arp_input_out:
  assumes wf: "wf_arp s" and dev: "dev \<in> set (devices s)" and len: "len \<le> length data"
  shows "\<exists>s'. arp_input data len dev s = Some s' \<and> arp_out s s'"
proof (cases "len < 28")
  case True
  then show ?thesis by (simp add: arp_input_def arp_ether_size_def)
next
  case False
  with len obtain msg where msg: "read_arp_ether data = Some msg"
    by (simp add: read_arp_ether_def arp_ether_size_def)
  show ?thesis
  proof (cases "arp_supported msg")
    case False
    with \<open>\<not> len < 28\<close> msg show ?thesis by (simp add: arp_input_def arp_ether_size_def)
  next
    case True
    from wf have "wf_net s" by (simp add: wf_arp_def)
    then obtain r where r: "network_device_get_interface dev NETWORK_INTERFACE_FAMILY_IP s = Some r"
      using network_device_get_interface_spec dev by blast
    from False have "28 \<le> len" by simp
    from arp_input_spec [OF wf dev this len msg True r] show ?thesis
      by (cases r) (auto split: if_splits intro: arp_out_trans net_out_arp)
  qed
qed

subsection \<open>Resolution\<close>

lemma arp_resolve_new:
  assumes "if_heap s ifp = Some i" "ni_dev i = Some dev" "dev_heap s dev = Some d"
    and "dev_type d = NETWORK_DEVICE_TYPE_ETHERNET" "ni_family i = NETWORK_INTERFACE_FAMILY_IP"
    and "arp_cache_select pa (caches s) = None" "arp_cache_alloc (caches s) = Some k"
    and "arp_request ifp pa (s\<lparr>clock_n := Suc (clock_n s), caches := (caches s)[k :=
      (caches s ! k)\<lparr>ac_state := ARP_CACHE_STATE_INCOMPLETE, ac_pa := pa, ac_timestamp := now s\<rparr>]\<rparr>) = Some (q, s')"
  shows "arp_resolve ifp pa ha s = Some (ARP_RESOLVE_INCOMPLETE, ha, s')"
  using assms by (simp add: arp_resolve_def gettimeofday_def now_def)

lemma arp_resolve_spec:
  fixes s :: "'a arp_state_scheme"
  assumes wf: "wf_arp s" and i: "if_heap s ifp = Some i" "ni_dev i = Some dev" "dev_heap s dev = Some d" and ha: "6 \<le> length ha"
  shows "\<exists>r ha' s'. arp_resolve ifp pa ha s = Some (r, ha', s') \<and> arp_out s s' \<and> length ha' = length ha \<and>
    (if dev_type d \<noteq> NETWORK_DEVICE_TYPE_ETHERNET \<or> ni_family i \<noteq> NETWORK_INTERFACE_FAMILY_IP
     then r = ARP_RESOLVE_ERROR \<and> s' = s
     else case arp_map (caches s) pa of
       None \<Rightarrow> r = ARP_RESOLVE_INCOMPLETE \<and>
         (\<exists>e t q. ac_state e = ARP_CACHE_STATE_INCOMPLETE \<and> ac_pa e = pa \<and> ac_timestamp e = now s \<and>
            arp_map (caches t) = (\<lambda>p. if p = pa then Some e else if arp_victim (caches s) p then None else arp_map (caches s) p) \<and>
            wire t = wire s \<and> arp_out s t \<and> arp_request ifp pa t = Some (q, s') \<and> net_out t s')
     | Some e \<Rightarrow>
         if ac_state e = ARP_CACHE_STATE_INCOMPLETE
         then r = ARP_RESOLVE_INCOMPLETE \<and> (\<exists>q. arp_request ifp pa s = Some (q, s') \<and> net_out s s')
         else r = ARP_RESOLVE_FOUND \<and> s' = s \<and> ha' = ac_ha e @ drop 6 ha)"
proof (cases "dev_type d \<noteq> NETWORK_DEVICE_TYPE_ETHERNET \<or> ni_family i \<noteq> NETWORK_INTERFACE_FAMILY_IP")
  case True
  with i show ?thesis by (auto simp: arp_resolve_def)
next
  case eth: False
  from wf have wn: "wf_net s" and wc: "wf_caches (caches s)" by (simp_all add: wf_arp_def)
  show ?thesis
  proof (cases "arp_cache_select pa (caches s)")
    case None
    from wc obtain k where k: "arp_cache_alloc (caches s) = Some k" "k < length (caches s)"
      using arp_cache_alloc_spec [OF caches_nonempty] by blast
    let ?e = "(caches s ! k)\<lparr>ac_state := ARP_CACHE_STATE_INCOMPLETE, ac_pa := pa, ac_timestamp := now s\<rparr>"
    let ?t = "s\<lparr>clock_n := Suc (clock_n s), caches := (caches s)[k := ?e]\<rparr>"
    have free: "arp_map (caches s) pa = None" using None by (simp add: arp_map_def)
    have e: "arp_used ?e" "length (ac_ha ?e) = 6" "ac_pa ?e = pa"
      using wc k(2) by (auto simp: arp_used_def wf_caches_def ETHER_ADDR_LEN_def)
    have map: "wf_caches (caches ?t) \<and> arp_map (caches ?t) =
        (\<lambda>p. if p = pa then Some ?e else if arp_victim (caches s) p then None else arp_map (caches s) p)"
      using arp_cache_write_new [OF wc _ e(1,2) k(1)] free by simp
    then have out: "arp_out s ?t" using arp_out_clock [of "(caches s)[k := ?e]" s] by simp
    have "wf_net ?t" using arp_out_wf [OF out wf] by (simp add: wf_arp_def)
    then obtain q s' where req: "arp_request ifp pa ?t = Some (q, s')" "net_out ?t s'"
      using arp_request_out [of ?t ifp i dev pa] i by auto
    have eq: "arp_resolve ifp pa ha s = Some (ARP_RESOLVE_INCOMPLETE, ha, s')"
      using arp_resolve_new [OF i _ _ None k(1) req(1)] eth by simp
    have ex: "\<exists>e t q. ac_state e = ARP_CACHE_STATE_INCOMPLETE \<and> ac_pa e = pa \<and> ac_timestamp e = now s \<and>
        arp_map (caches t) = (\<lambda>p. if p = pa then Some e else if arp_victim (caches s) p then None else arp_map (caches s) p) \<and>
        wire t = wire s \<and> arp_out s t \<and> arp_request ifp pa t = Some (q, s') \<and> net_out t s'"
      by (rule exI [of _ ?e], rule exI [of _ ?t], rule exI [of _ q]) (use map out req in simp)
    show ?thesis
      by (rule exI [of _ ARP_RESOLVE_INCOMPLETE], rule exI [of _ ha], rule exI [of _ s'])
        (use eq eth free ex arp_out_trans [OF out net_out_arp [OF req(2)]] in simp)
  next
    case (Some k)
    then have e: "arp_map (caches s) pa = Some (caches s ! k)" "k < length (caches s)" by (simp_all add: arp_select_map)
    show ?thesis
    proof (cases "ac_state (caches s ! k) = ARP_CACHE_STATE_INCOMPLETE")
      case True
      obtain q s' where req: "arp_request ifp pa s = Some (q, s')" "net_out s s'"
        using arp_request_out [OF wn i(1,2)] by blast
      with i eth Some True e net_out_arp [OF req(2)] show ?thesis
        by (simp add: arp_resolve_def)
    next
      case False
      have "length (ac_ha (caches s ! k)) = 6"
        using wc e(2) by (simp add: wf_caches_def ETHER_ADDR_LEN_def)
      with i eth Some False e ha show ?thesis
        by (simp add: arp_resolve_def mem_write_def)
    qed
  qed
qed

subsection \<open>Sequences of events\<close>

text \<open>What may happen to ARP: a message of any bytes arrives, an address is resolved, the timer runs.\<close>

datatype arp_event = Arp_Input bytes nat | Arp_Resolve nat u32 | Arp_Timer

definition arp_step :: "arp_event \<Rightarrow> 'a arp_state_scheme \<Rightarrow> 'a arp_state_scheme option" where
  "arp_step ev s =
     (case ev of
        Arp_Input data dev \<Rightarrow> arp_input data (length data) dev s
      | Arp_Resolve ifp pa \<Rightarrow> map_option (\<lambda>(_, _, s). s) (arp_resolve ifp pa (replicate 16 0) s)
      | Arp_Timer \<Rightarrow> Some (arp_timer s))"

fun arp_run :: "arp_event list \<Rightarrow> 'a arp_state_scheme \<Rightarrow> 'a arp_state_scheme option" where
  "arp_run [] s = Some s"
| "arp_run (ev # evs) s = do { s \<leftarrow> arp_step ev s; arp_run evs s }"

text \<open>Events that name registered devices and interfaces.\<close>

definition arp_event_ok :: "'a net_state_scheme \<Rightarrow> arp_event \<Rightarrow> bool" where
  "arp_event_ok s ev \<longleftrightarrow>
     (case ev of
        Arp_Input _ dev \<Rightarrow> dev \<in> set (devices s)
      | Arp_Resolve ifp _ \<Rightarrow> (\<exists>i dev. if_heap s ifp = Some i \<and> ni_dev i = Some dev)
      | Arp_Timer \<Rightarrow> True)"

lemma arp_step_out:
  assumes wf: "wf_arp s" and ok: "arp_event_ok s ev"
  shows "\<exists>s'. arp_step ev s = Some s' \<and> arp_out s s'"
proof (cases ev)
  case (Arp_Input data dev)
  with ok arp_input_out [OF wf, of dev "length data" data] show ?thesis
    by (simp add: arp_step_def arp_event_ok_def)
next
  case (Arp_Resolve ifp pa)
  with ok obtain i dev where i: "if_heap s ifp = Some i" "ni_dev i = Some dev" by (auto simp: arp_event_ok_def)
  moreover obtain d where d: "dev_heap s dev = Some d"
    using iface_device [OF _ i] wf by (auto simp: wf_arp_def)
  ultimately show ?thesis
    using arp_resolve_spec [OF wf i d, of "replicate 16 0" pa] Arp_Resolve by (auto simp: arp_step_def)
next
  case Arp_Timer
  with arp_timer_spec [OF wf] show ?thesis by (simp add: arp_step_def)
qed

lemma arp_event_ok_ext: "net_ext s s' \<Longrightarrow> arp_event_ok s' ev = arp_event_ok s ev"
  by (simp add: arp_event_ok_def net_ext_same split: arp_event.splits)

lemma arp_run_out:
  assumes "wf_arp s" "\<forall>ev \<in> set evs. arp_event_ok s ev"
  shows "\<exists>s'. arp_run evs s = Some s' \<and> arp_out s s'"
  using assms
proof (induction evs arbitrary: s)
  case (Cons ev evs)
  then obtain t where t: "arp_step ev s = Some t" "arp_out s t"
    using arp_step_out by (metis list.set_intros(1))
  have "wf_arp t" using t(2) Cons.prems(1) by (rule arp_out_wf)
  moreover have "\<forall>ev \<in> set evs. arp_event_ok t ev"
    using Cons.prems(2) arp_event_ok_ext [OF arp_out_ext [OF t(2)]] by simp
  ultimately obtain u where "arp_run evs t = Some u" "arp_out t u"
    using Cons.IH by blast
  with t arp_out_trans show ?case by auto
qed simp

section \<open>Properties\<close>


text \<open>An Ethernet device with an IP interface, up, and an empty cache.\<close>

definition arp_free :: arp_cache where
  "arp_free = \<lparr>ac_state = ARP_CACHE_STATE_FREE, ac_pa = 0, ac_ha = replicate 6 0, ac_timestamp = Timeval 0 0\<rparr>"

definition arp_host :: "u8 \<Rightarrow> u32 \<Rightarrow> (nat \<Rightarrow> timeval) \<Rightarrow> arp_state" where
  "arp_host k ip clk =
     \<lparr>mem_ok = (\<lambda>_. True), mem_n = 2, clock = clk, clock_n = 0,
      sys_ret = (\<lambda>_. 2000), sys_errno = (\<lambda>_. 0), sys_data = (\<lambda>_. []), sys_n = 0, errno = 0,
      requests = [], wire = [], rx = (\<lambda>_. []), pending = [], sigmask = [], irq_vec = [],
      dev_heap = [0 \<mapsto> (ether_setup_helper zero_device)\<lparr>dev_interfaces := [1], dev_address := [2, 0, 0, 0, 0, k] @ replicate 10 0,
         dev_flags := 0x121, dev_ops := Some ether_tap_ops,
         dev_priv := Some \<lparr>pv_name = ''tap0'', pv_fd = 3, pv_irq = 36\<rparr>\<rparr>],
      if_heap = [1 \<mapsto> \<lparr>ni_dev = Some 0, ni_family = 1, if_unicast = ip, if_netmask = 0xffffff, if_broadcast = ip OR 0xff000000\<rparr>],
      devices = [0], next_index = 1,
      protocols = [\<lparr>np_name = ''ARP'', np_type = 0x806, np_queue = lqueue_init, np_handler = arp_input_handler\<rparr>],
      timers = [], events = [], caches = replicate 32 arp_free\<rparr>"

lemma arp_host_ok: "wf_arp (arp_host k ip clk)"
proof -
  have "wf_net (arp_host k ip clk)"
    by (simp add: arp_host_def wf_net_def wf_ifaces_def wf_device_def zero_device_def wf_queue_def
      NETWORK_DEVICE_ADDR_LEN_def lqueue_init_def ether_setup_helper_def ether_consts)
  moreover have "wf_caches (caches (arp_host k ip clk))"
    by (simp add: arp_host_def wf_caches_def ARP_CACHE_SIZE_def arp_free_def ETHER_ADDR_LEN_def arp_used_def)
  ultimately show ?thesis by (simp add: wf_arp_def)
qed


text \<open>
  C26. A supported ARP message from any sender: if the sender is known, its entry is refreshed with
  the hardware address of the message; if not and the message asks for the address of the receiving
  interface, the sender gets an entry, evicting the oldest one when the cache is full; otherwise the
  cache is unchanged. No other entry changes, and whatever else happens leaves the cache alone.
\<close>

theorem arp_input_learns:
  assumes "wf_arp s" "dev \<in> set (devices s)" "28 \<le> length data" "read_arp_ether data = Some msg" "arp_supported msg"
    "network_device_get_interface dev NETWORK_INTERFACE_FAMILY_IP s = Some (Some ifp)" "if_heap s ifp = Some i"
  shows "\<exists>s' e. arp_input data (length data) dev s = Some s' \<and>
    e = \<lparr>ac_state = ARP_CACHE_STATE_RESOLVED, ac_pa = ae_spa msg, ac_ha = ae_sha msg, ac_timestamp = clock s (clock_n s)\<rparr> \<and>
    arp_map (caches s') =
      (if arp_map (caches s) (ae_spa msg) \<noteq> None then (arp_map (caches s))(ae_spa msg \<mapsto> e)
       else if if_unicast i = ae_tpa msg
       then (\<lambda>p. if p = ae_spa msg then Some e else if arp_victim (caches s) p then None else arp_map (caches s) p)
       else arp_map (caches s))"
proof -
  from arp_input_spec [OF assms(1-3) order_refl assms(4-6)] assms(7)
  have "\<exists>t s'. arp_input data (length data) dev s = Some s' \<and> (net_out t s' \<or> s' = t) \<and>
      arp_map (caches t) = arp_learn (now s) msg (if_unicast i = ae_tpa msg) (caches s)"
    by (fastforce split: if_splits)
  then obtain t s' where
    t: "arp_input data (length data) dev s = Some s'" "net_out t s' \<or> s' = t"
      "arp_map (caches t) = arp_learn (now s) msg (if_unicast i = ae_tpa msg) (caches s)" by blast
  then have "caches s' = caches t" by (auto dest: net_out_caches)
  with t show ?thesis
    by (auto simp: arp_learn_def Let_def now_def)
qed

theorem arp_input_learns_witness:
  "\<exists>s' e. arp_input (arp_ether_bytes (arp_request_msg [2, 0, 0, 0, 0, 9] 0x090000c0 0x010000c0)) 28 0
       (arp_host 1 0x010000c0 (\<lambda>n. Timeval (int n) 0)) = Some s' \<and>
     arp_map (caches s') 0x090000c0 = Some e \<and> ac_ha e = [2, 0, 0, 0, 0, 9]"
proof -
  let ?s = "arp_host 1 0x010000c0 (\<lambda>n. Timeval (int n) 0)"
  let ?m = "arp_request_msg [2, 0, 0, 0, 0, 9] 0x090000c0 0x010000c0"
  have m: "length (arp_ether_bytes ?m) = 28" "read_arp_ether (arp_ether_bytes ?m) = Some ?m" "arp_supported ?m"
    using read_arp_ether_bytes [of ?m "[]"]
    by (simp_all add: arp_request_msg_def arp_supported_def arp_consts)
  have i: "network_device_get_interface 0 NETWORK_INTERFACE_FAMILY_IP ?s = Some (Some 1)"
    "if_heap ?s 1 = Some \<lparr>ni_dev = Some 0, ni_family = 1, if_unicast = 0x010000c0, if_netmask = 0xffffff, if_broadcast = 0x010000c0 OR 0xff000000\<rparr>"
    "0 \<in> set (devices ?s)"
    by (simp_all add: network_device_get_interface_def arp_host_def NETWORK_INTERFACE_FAMILY_IP_def ether_setup_helper_def)
  from arp_input_learns [OF arp_host_ok i(3) _ m(2,3) i(1,2)] m(1) show ?thesis
    by (auto simp: arp_request_msg_def split: if_splits)
qed



text \<open>
  C28. The timer forgets exactly the entries that are not static and at least 31 seconds old (the
  comparison of whole seconds with the limit of 30 is strict), and changes no other entry.
\<close>

theorem arp_timer_expires:
  assumes "wf_arp s" "timeval_norm (clock s (clock_n s))" "\<forall>e \<in> set (caches s). timeval_norm (ac_timestamp e)"
  shows "wf_arp (arp_timer s) \<and>
    arp_map (caches (arp_timer s)) pa =
      (case arp_map (caches s) pa of
         None \<Rightarrow> None
       | Some e \<Rightarrow>
           if ac_state e \<noteq> ARP_CACHE_STATE_STATIC \<and> micros (clock s (clock_n s)) - micros (ac_timestamp e) \<ge> 31000000
           then None else Some e)"
proof -
  have "arp_expired (now s) e \<longleftrightarrow>
      ac_state e \<noteq> ARP_CACHE_STATE_STATIC \<and> micros (clock s (clock_n s)) - micros (ac_timestamp e) \<ge> 31000000"
    if "arp_map (caches s) pa = Some e" for e
  proof -
    from that have e: "e \<in> set (caches s)" "arp_used e"
      using arp_map_Some_iff [of "caches s" pa e] assms(1) by (auto simp: wf_arp_def)
    with assms have n: "timeval_norm (timersub (now s) (ac_timestamp e))"
      by (simp add: timersub_norm now_def)
    have m: "micros (timersub (now s) (ac_timestamp e)) = micros (now s) - micros (ac_timestamp e)"
      by (rule micros_timersub)
    have "tv_sec (timersub (now s) (ac_timestamp e)) > 30 \<longleftrightarrow> micros (now s) - micros (ac_timestamp e) \<ge> 31000000"
      using n m by (auto simp: micros_def timeval_norm_def)
    with e(2) show ?thesis by (auto simp: arp_expired_def arp_used_def ARP_CACHE_TIMEOUT_def now_def)
  qed
  moreover have "wf_arp (arp_timer s)"
    using arp_timer_spec [OF assms(1)] arp_out_wf assms(1) by blast
  ultimately show ?thesis
    using arp_timer_spec [OF assms(1), of pa] by (simp split: option.splits)
qed

text \<open>The host above with two entries, time stamps 0 and 5.\<close>

definition arp_two :: "(nat \<Rightarrow> timeval) \<Rightarrow> arp_state" where
  "arp_two clk = (arp_host 1 0x010000c0 clk)\<lparr>caches :=
     \<lparr>ac_state = ARP_CACHE_STATE_RESOLVED, ac_pa = 7, ac_ha = replicate 6 7, ac_timestamp = Timeval 0 0\<rparr> #
     \<lparr>ac_state = ARP_CACHE_STATE_RESOLVED, ac_pa = 8, ac_ha = replicate 6 8, ac_timestamp = Timeval 5 0\<rparr> #
     replicate 30 arp_free\<rparr>"

lemma arp_two_ok: "wf_arp (arp_two clk)"
proof -
  have "wf_net (arp_two clk)"
    by (rule wf_net_mono [of "arp_host 1 0x010000c0 clk"])
      (use arp_host_ok [of 1 "0x010000c0" clk] in \<open>simp_all add: wf_arp_def wf_net_def arp_two_def\<close>)
  moreover have "wf_caches (caches (arp_two clk))"
    by (auto simp: arp_two_def wf_caches_def ARP_CACHE_SIZE_def arp_free_def ETHER_ADDR_LEN_def arp_used_def nth_Cons
        split: nat.splits)
  ultimately show ?thesis by (simp add: wf_arp_def)
qed

lemma arp_two_map: "arp_map (caches (arp_two clk)) 7 =
    Some \<lparr>ac_state = ARP_CACHE_STATE_RESOLVED, ac_pa = 7, ac_ha = replicate 6 7, ac_timestamp = Timeval 0 0\<rparr>"
  "arp_map (caches (arp_two clk)) 8 =
    Some \<lparr>ac_state = ARP_CACHE_STATE_RESOLVED, ac_pa = 8, ac_ha = replicate 6 8, ac_timestamp = Timeval 5 0\<rparr>"
  by (simp_all add: arp_map_def arp_cache_select_def arp_two_def)

theorem arp_timer_expires_witness:
  "let s' = arp_timer (arp_two (\<lambda>_. Timeval 31 0))
   in arp_map (caches s') 7 = None \<and> arp_map (caches s') 8 \<noteq> None"
proof -
  let ?s = "arp_two (\<lambda>_. Timeval 31 0)"
  have "clock ?s (clock_n ?s) = Timeval 31 0" "\<forall>e \<in> set (caches ?s). timeval_norm (ac_timestamp e)"
    by (simp_all add: arp_two_def arp_host_def arp_free_def timeval_norm_def)
  with arp_timer_expires [OF arp_two_ok, of "\<lambda>_. Timeval 31 0" 7] arp_timer_expires [OF arp_two_ok, of "\<lambda>_. Timeval 31 0" 8]
  show ?thesis by (simp add: arp_two_map timeval_norm_def micros_def Let_def)
qed

text \<open>
  The slot for a new entry: the first free one, and only if there is none the one with the least
  time stamp, the first of these; some slot is always found.
\<close>

theorem arp_cache_alloc_lru:
  assumes "wf_caches cs"
  shows "\<exists>k < 32. arp_cache_alloc cs = Some k \<and>
    (if \<exists>j < 32. \<not> arp_used (cs ! j)
     then \<not> arp_used (cs ! k) \<and> (\<forall>j < k. arp_used (cs ! j))
     else (\<forall>j < 32. ac_timestamp (cs ! k) \<le> ac_timestamp (cs ! j)) \<and> (\<forall>j < k. ac_timestamp (cs ! k) < ac_timestamp (cs ! j)))"
proof -
  have len: "length cs = 32" using assms by (simp add: wf_caches_def ARP_CACHE_SIZE_def)
  from arp_cache_alloc_spec [OF caches_nonempty [OF assms]] obtain k where k: "k < 32" "arp_cache_alloc cs = Some k"
    "\<not> arp_used (cs ! k) \<and> (\<forall>j < k. arp_used (cs ! j)) \<or>
     (\<forall>e \<in> set cs. arp_used e \<and> ac_timestamp (cs ! k) \<le> ac_timestamp e) \<and>
     (\<forall>j < k. ac_timestamp (cs ! k) < ac_timestamp (cs ! j))"
    unfolding len by blast
  then show ?thesis using len nth_mem [of _ cs] by fastforce
qed

theorem arp_cache_alloc_lru_witness:
  "arp_cache_alloc (caches (arp_two (\<lambda>_. Timeval 31 0))) = Some 2"
proof -
  let ?cs = "caches (arp_two (\<lambda>_. Timeval 31 0))"
  have "wf_caches ?cs" using arp_two_ok by (simp add: wf_arp_def)
  from arp_cache_alloc_lru [OF this] obtain k where k: "arp_cache_alloc ?cs = Some k" "\<not> arp_used (?cs ! k)" "\<forall>j < k. arp_used (?cs ! j)"
  proof -
    have "\<not> arp_used (?cs ! 2)" by (simp add: arp_two_def arp_free_def arp_used_def)
    then have ex: "\<exists>j < 32. \<not> arp_used (?cs ! j)" by (intro exI [of _ 2]) simp
    show ?thesis
      using arp_cache_alloc_lru [OF \<open>wf_caches ?cs\<close>] that unfolding if_P [OF ex] by blast
  qed
  have free: "\<not> arp_used (?cs ! 2)" "arp_used (?cs ! 0)" "arp_used (?cs ! 1)"
    by (simp_all add: arp_two_def arp_free_def arp_used_def)
  have "k \<noteq> 0" "k \<noteq> 1" "\<not> 2 < k"
    using k(2,3) free by metis+
  with k(1) show ?thesis by (cases "k = 2") auto
qed

lemma arp_duplicates:
  assumes "i < 32" "j < 32" "i \<noteq> j" "arp_used (cs ! i)" "arp_used (cs ! j)" "ac_pa (cs ! i) = ac_pa (cs ! j)"
  shows "\<not> wf_caches cs"
  using assms by (auto simp: wf_caches_def ARP_CACHE_SIZE_def)

text \<open>
  C39. The two critical sections of \<^verbatim>\<open>arp_input\<close> are not one: if another thread resolves the sender's
  address between them, the sender ends up with two entries, an incomplete one in front of the
  complete one, and the next resolution still answers \<^verbatim>\<open>INCOMPLETE\<close> although the address was learnt.
\<close>

theorem arp_input_race:
  "let s = arp_host 1 0x010000c0 (\<lambda>n. Timeval (int n) 0);
       msg = arp_reply_msg [2, 0, 0, 0, 0, 2] 0x020000c0 [2, 0, 0, 0, 0, 1] 0x010000c0
   in \<exists>s1 s2 ha s3.
     arp_input_update msg s = Some (False, s1) \<and>
     arp_resolve 1 0x020000c0 (replicate 16 0) s1 = Some (ARP_RESOLVE_INCOMPLETE, ha, s2) \<and>
     arp_input_rest msg False 0 s2 = Some s3 \<and>
     \<not> wf_caches (caches s3) \<and>
     ac_pa (caches s3 ! 0) = 0x020000c0 \<and> ac_state (caches s3 ! 0) = ARP_CACHE_STATE_INCOMPLETE \<and>
     ac_pa (caches s3 ! 1) = 0x020000c0 \<and> ac_state (caches s3 ! 1) = ARP_CACHE_STATE_RESOLVED \<and>
     (\<exists>ha s4. arp_resolve 1 0x020000c0 (replicate 16 0) s3 = Some (ARP_RESOLVE_INCOMPLETE, ha, s4))"
proof -
  let ?s = "arp_host 1 0x010000c0 (\<lambda>n. Timeval (int n) 0)"
  let ?m = "arp_reply_msg [2, 0, 0, 0, 0, 2] 0x020000c0 [2, 0, 0, 0, 0, 1] 0x010000c0"
  let ?i = "\<lparr>ni_dev = Some 0, ni_family = 1, if_unicast = 0x010000c0, if_netmask = 0xffffff, if_broadcast = 0x010000c0 OR 0xff000000\<rparr>"
  let ?inc = "arp_free\<lparr>ac_state := ARP_CACHE_STATE_INCOMPLETE, ac_pa := 0x020000c0, ac_timestamp := Timeval 0 0\<rparr>"
  let ?t = "?s\<lparr>clock_n := 1, caches := ?inc # replicate 31 arp_free\<rparr>"
  have c32: "replicate 32 arp_free = arp_free # replicate 31 arp_free" "replicate 31 arp_free = arp_free # replicate 30 arp_free"
    by (simp_all add: numeral_eq_Suc)
  have h: "if_heap ?s 1 = Some ?i" "caches ?s = replicate 32 arp_free" "devices ?s = [0]"
    "\<exists>d. dev_heap ?s 0 = Some d \<and> dev_type d = NETWORK_DEVICE_TYPE_ETHERNET \<and> dev_interfaces d = [1]"
    by (simp_all add: arp_host_def ether_setup_helper_def)
  have sel: "arp_cache_select p (caches ?s) = None" for p
    unfolding arp_cache_select_def h(2) find_slot_None by (simp add: arp_free_def)
  have upd: "arp_input_update ?m ?s = Some (False, ?s)"
    by (simp add: arp_input_update_def arp_cache_update_def sel)
  have "wf_net ?t"
    by (rule wf_net_mono [of ?s]) (use arp_host_ok [of 1 "0x010000c0" "\<lambda>n. Timeval (int n) 0"] in \<open>simp_all add: wf_arp_def wf_net_def\<close>)
  moreover have "if_heap ?t 1 = Some ?i" using h(1) by simp
  ultimately obtain q s2 where s2: "arp_request 1 0x020000c0 ?t = Some (q, s2)" "net_out ?t s2"
    using arp_request_out [of ?t 1 ?i 0 "0x020000c0"] by auto
  have c2: "caches s2 = ?inc # arp_free # replicate 30 arp_free"
    using net_out_caches [OF s2(2)] c32(2) by simp
  have w2: "wf_net s2" using \<open>wf_net ?t\<close> s2(2) by (auto dest!: net_outD intro: net_ext_wf)
  have e2: "if_heap s2 = if_heap ?s" "dev_heap s2 = dev_heap ?s"
    using net_ext_same [OF net_outD [OF s2(2)]] by simp_all
  have res: "arp_resolve 1 0x020000c0 (replicate 16 0) ?s = Some (ARP_RESOLVE_INCOMPLETE, replicate 16 0, s2)"
  proof -
    obtain d where d: "dev_heap ?s 0 = Some d" "dev_type d = NETWORK_DEVICE_TYPE_ETHERNET" using h(4) by blast
    have "arp_cache_alloc (caches ?s) = Some 0" unfolding h(2) c32(1) by (simp add: arp_cache_alloc_def) (simp add: arp_free_def)
    moreover have "?t = ?s\<lparr>clock_n := Suc (clock_n ?s), caches := (caches ?s)[0 := (caches ?s ! 0)
        \<lparr>ac_state := ARP_CACHE_STATE_INCOMPLETE, ac_pa := 0x020000c0, ac_timestamp := now ?s\<rparr>]\<rparr>"
      unfolding h(2) c32(1) by (simp add: arp_host_def now_def)
    ultimately show ?thesis
      using arp_resolve_new [OF h(1) _ d(1,2) _ sel, of 0] s2(1) by (simp add: NETWORK_INTERFACE_FAMILY_IP_def)
  qed
  let ?new = "\<lparr>ac_state = ARP_CACHE_STATE_RESOLVED, ac_pa = 0x020000c0, ac_ha = [2, 0, 0, 0, 0, 2], ac_timestamp = now s2\<rparr>"
  let ?s3 = "s2\<lparr>clock_n := Suc (clock_n s2), caches := ?inc # ?new # replicate 30 arp_free\<rparr>"
  have "arp_cache_alloc (caches s2) = Some 1"
    by (simp add: arp_cache_alloc_def c2) (simp add: arp_free_def)
  then have ins: "arp_cache_insert 0x020000c0 [2, 0, 0, 0, 0, 2] s2 = Some (Some 1, ?s3)"
    by (simp add: arp_cache_insert_def ETHER_ADDR_LEN_def gettimeofday_def now_def c2)
  have rest: "arp_input_rest ?m False 0 s2 = Some ?s3"
    using h e2 ins by (auto simp: arp_input_rest_def network_device_get_interface_def NETWORK_INTERFACE_FAMILY_IP_def
        arp_reply_msg_def arp_consts)
  have "wf_net ?s3"
    by (rule wf_net_mono [of s2]) (use w2 in \<open>simp_all add: wf_net_def\<close>)
  moreover have "if_heap ?s3 1 = Some ?i" using h(1) e2(1) by simp
  ultimately obtain q' s4 where s4: "arp_request 1 0x020000c0 ?s3 = Some (q', s4)"
    using arp_request_out [of ?s3 1 ?i 0 "0x020000c0"] by auto
  have again: "arp_resolve 1 0x020000c0 (replicate 16 0) ?s3 = Some (ARP_RESOLVE_INCOMPLETE, replicate 16 0, s4)"
    using h e2 s4 by (auto simp: arp_resolve_def NETWORK_INTERFACE_FAMILY_IP_def arp_cache_select_def)
  have "\<not> wf_caches (caches ?s3)" by (rule arp_duplicates [of 0 1]) (simp_all add: arp_used_def)
  with upd res rest again show ?thesis
    unfolding Let_def
    by (intro exI [of _ ?s] exI [of _ s2] exI [of _ "replicate 16 0"] exI [of _ ?s3]) auto
qed

subsection \<open>Two stations\<close>

lemma ether_accept_frame:
  assumes "length dst = 6" "length src = 6" "length p \<le> 1500"
  shows "ether_accept dev addr (ether_frame dst src t p) =
    (if addr = dst \<or> ETHER_ADDR_BROADCAST = dst
     then Some (t, \<lparr>nq_dev = dev, nq_len = max 46 (length p), nq_data = p @ replicate (46 - length p) 0\<rparr>) else None)"
proof -
  have "length (ether_frame dst src t p) \<le> 1514" using assms by (simp add: length_ether_frame)
  then have "take 1514 (ether_frame dst src t p) = ether_frame dst src t p" by simp
  with assms show ?thesis
    by (simp add: ether_accept_def Let_def ETHER_FRAME_SIZE_MAX_def read_ether_hdr_frame drop_ether_frame length_ether_frame)
qed

text \<open>An open Ethernet device with an IP interface, on a kernel that takes whole frames.\<close>

definition station :: "'a arp_state_scheme \<Rightarrow> nat \<Rightarrow> nat \<Rightarrow> bytes \<Rightarrow> u32 \<Rightarrow> int \<Rightarrow> bool" where
  "station s dev ifp addr ip fd \<longleftrightarrow>
     wf_arp s \<and> dev \<in> set (devices s) \<and> (\<forall>n. 1514 \<le> sys_ret s n) \<and>
     (\<exists>d pv i. dev_heap s dev = Some d \<and> dev_priv d = Some pv \<and> pv_fd pv = fd \<and>
        (dev_ops d = Some ether_tap_ops \<or> dev_ops d = Some ether_pcap_ops) \<and> NETWORK_DEVICE_IS_UP d \<and>
        dev_mtu d = 1500 \<and> take 6 (dev_address d) = addr \<and> take 6 (dev_broadcast d) = ETHER_ADDR_BROADCAST \<and>
        if_heap s ifp = Some i \<and> ni_dev i = Some dev \<and> ni_family i = NETWORK_INTERFACE_FAMILY_IP \<and> if_unicast i = ip)"

lemma station_out:
  assumes "station s dev ifp addr ip fd" "arp_out s s'"
  shows "station s' dev ifp addr ip fd"
proof -
  from assms have "wf_arp s'" by (auto simp: station_def dest: arp_out_wf)
  moreover from assms(2) have "devices s' = devices s" "dev_heap s' = dev_heap s" "if_heap s' = if_heap s" "sys_ret s' = sys_ret s"
    by (simp_all add: arp_out_def net_ext_def)
  ultimately show ?thesis using assms(1) by (simp add: station_def)
qed

lemma station_addr: "station s dev ifp addr ip fd \<Longrightarrow> length addr = 6"
  unfolding station_def wf_arp_def by (auto dest!: wf_device_heap simp: wf_device_def NETWORK_DEVICE_ADDR_LEN_def)

lemma station_iface:
  assumes "station s dev ifp addr ip fd"
  shows "network_device_get_interface dev NETWORK_INTERFACE_FAMILY_IP s = Some (Some ifp)"
proof -
  from assms obtain i where "wf_net s" "if_heap s ifp = Some i" "ni_dev i = Some dev" "ni_family i = NETWORK_INTERFACE_FAMILY_IP"
    by (auto simp: station_def wf_arp_def)
  with network_device_get_interface_complete [of s ifp i dev] show ?thesis by simp
qed

lemma station_request:
  assumes "station s dev ifp addr ip fd"
  shows "\<exists>s'. arp_request ifp tpa s = Some (0, s') \<and> net_out s s' \<and>
    wire s' = (fd, ether_frame ETHER_ADDR_BROADCAST addr 0x806 (arp_ether_bytes (arp_request_msg addr ip tpa))) # wire s"
proof -
  from assms obtain d pv i where st: "wf_net s" "dev \<in> set (devices s)" "\<forall>n. 1514 \<le> sys_ret s n"
    "dev_heap s dev = Some d" "dev_priv d = Some pv" "pv_fd pv = fd"
    "dev_ops d = Some ether_tap_ops \<or> dev_ops d = Some ether_pcap_ops" "NETWORK_DEVICE_IS_UP d"
    "dev_mtu d = 1500" "take 6 (dev_address d) = addr" "take 6 (dev_broadcast d) = ETHER_ADDR_BROADCAST"
    "if_heap s ifp = Some i" "ni_dev i = Some dev" "if_unicast i = ip"
    by (auto simp: station_def wf_arp_def)
  have len: "length (dev_address d) = 16" "length (dev_broadcast d) = 16"
    using st(1,2,4) by (auto dest!: wf_device_heap simp: wf_device_def NETWORK_DEVICE_ADDR_LEN_def)
  let ?m = "arp_ether_bytes (arp_request_msg addr ip tpa)"
  have m: "length ?m = 28" using station_addr [OF assms] by (simp add: arp_request_msg_def)
  have eq: "arp_request ifp tpa s = network_device_output dev 0x806 ?m 28 (Some (dev_broadcast d)) s"
    using arp_request_eq [OF st(12,13,4) len(1), of tpa] st(10,14) by simp
  show ?thesis
    unfolding eq using ether_output_wire [OF st(1,2,4,5,7,8), of 28 ?m "dev_broadcast d" "0x806"] st m len by simp
qed

lemma station_reply:
  assumes "station s dev ifp addr ip fd" "length tha = 6"
  shows "\<exists>s'. arp_reply ifp tha tpa tha s = Some (0, s') \<and> net_out s s' \<and>
    wire s' = (fd, ether_frame tha addr 0x806 (arp_ether_bytes (arp_reply_msg addr ip tha tpa))) # wire s"
proof -
  from assms obtain d pv i where st: "wf_net s" "dev \<in> set (devices s)" "\<forall>n. 1514 \<le> sys_ret s n"
    "dev_heap s dev = Some d" "dev_priv d = Some pv" "pv_fd pv = fd"
    "dev_ops d = Some ether_tap_ops \<or> dev_ops d = Some ether_pcap_ops" "NETWORK_DEVICE_IS_UP d"
    "dev_mtu d = 1500" "take 6 (dev_address d) = addr" "if_heap s ifp = Some i" "ni_dev i = Some dev" "if_unicast i = ip"
    by (auto simp: station_def wf_arp_def)
  have len: "length (dev_address d) = 16"
    using st(1,2,4) by (auto dest!: wf_device_heap simp: wf_device_def NETWORK_DEVICE_ADDR_LEN_def)
  let ?m = "arp_ether_bytes (arp_reply_msg addr ip tha tpa)"
  have m: "length ?m = 28" using station_addr [OF assms(1)] assms(2) by (simp add: arp_reply_msg_def)
  have eq: "arp_reply ifp tha tpa tha s = network_device_output dev 0x806 ?m 28 (Some tha) s"
    using arp_reply_eq [OF st(11,12,4) len assms(2), of tpa tha] st(10,13) by simp
  show ?thesis
    unfolding eq using ether_output_wire [OF st(1,2,4,5,7,8), of 28 ?m tha "0x806"] st m assms(2) by simp
qed

text \<open>A station that receives a request for its address answers it and knows the sender; a reply only teaches.\<close>

lemma station_gets_request:
  assumes st: "station s dev ifp addr ip fd" and sha: "length sha = 6"
  shows "\<exists>s' e. arp_input (arp_ether_bytes (arp_request_msg sha spa ip) @ pad) (28 + length pad) dev s = Some s' \<and>
    wire s' = (fd, ether_frame sha addr 0x806 (arp_ether_bytes (arp_reply_msg addr ip sha spa))) # wire s \<and>
    arp_map (caches s') spa = Some e \<and> ac_state e = ARP_CACHE_STATE_RESOLVED \<and> ac_ha e = sha"
proof -
  let ?m = "arp_request_msg sha spa ip"
  from st have wf: "wf_arp s" "dev \<in> set (devices s)" by (simp_all add: station_def)
  have m: "read_arp_ether (arp_ether_bytes ?m @ pad) = Some ?m" "arp_supported ?m" "length (arp_ether_bytes ?m) = 28"
    using sha by (auto simp: arp_request_msg_def arp_supported_def arp_consts)
  have "28 \<le> 28 + length pad" "28 + length pad \<le> length (arp_ether_bytes ?m @ pad)" using m(3) by simp_all
  from arp_input_spec [OF wf this m(1,2) station_iface [OF st]] st obtain t s' q where t:
    "arp_input (arp_ether_bytes ?m @ pad) (28 + length pad) dev s = Some s'" "arp_out s t" "wire t = wire s"
    "arp_map (caches t) = arp_learn (now s) ?m True (caches s)"
    "arp_reply ifp sha spa sha t = Some (q, s')" "net_out t s'"
    by (auto simp: station_def arp_request_msg_def ARP_OP_REQUEST_def)
  have "station t dev ifp addr ip fd" using st t(2) by (rule station_out)
  from station_reply [OF this sha, of spa] t(5) have "wire s' = (fd, ether_frame sha addr 0x806
      (arp_ether_bytes (arp_reply_msg addr ip sha spa))) # wire s" using t(3) by simp
  moreover have "caches s' = caches t" using net_out_caches [OF t(6)] by simp
  ultimately show ?thesis
    using t(1,4) by (auto simp: arp_learn_def Let_def arp_request_msg_def split: if_splits)
qed

lemma station_gets_reply:
  assumes st: "station s dev ifp addr ip fd" and sha: "length sha = 6" "length tha = 6"
  shows "\<exists>s' e. arp_input (arp_ether_bytes (arp_reply_msg sha spa tha ip) @ pad) (28 + length pad) dev s = Some s' \<and>
    station s' dev ifp addr ip fd \<and> wire s' = wire s \<and>
    arp_map (caches s') spa = Some e \<and> ac_state e = ARP_CACHE_STATE_RESOLVED \<and> ac_ha e = sha"
proof -
  let ?m = "arp_reply_msg sha spa tha ip"
  from st have wf: "wf_arp s" "dev \<in> set (devices s)" by (simp_all add: station_def)
  have m: "read_arp_ether (arp_ether_bytes ?m @ pad) = Some ?m" "arp_supported ?m" "length (arp_ether_bytes ?m) = 28"
    using sha by (auto simp: arp_reply_msg_def arp_supported_def arp_consts)
  have "28 \<le> 28 + length pad" "28 + length pad \<le> length (arp_ether_bytes ?m @ pad)" using m(3) by simp_all
  from arp_input_spec [OF wf this m(1,2) station_iface [OF st]] st obtain t where t:
    "arp_input (arp_ether_bytes ?m @ pad) (28 + length pad) dev s = Some t" "arp_out s t" "wire t = wire s"
    "arp_map (caches t) = arp_learn (now s) ?m True (caches s)"
    by (auto simp: station_def arp_reply_msg_def ARP_OP_REQUEST_def)
  moreover have "station t dev ifp addr ip fd" using st t(2) by (rule station_out)
  ultimately show ?thesis
    by (auto simp: arp_learn_def Let_def arp_reply_msg_def split: if_splits)
qed

lemma station_resolves:
  assumes st: "station s dev ifp addr ip fd" and e: "arp_map (caches s) pa = Some e" "ac_state e = ARP_CACHE_STATE_RESOLVED"
  shows "arp_resolve ifp pa (replicate 16 0) s = Some (ARP_RESOLVE_FOUND, ac_ha e @ replicate 10 0, s)"
proof -
  from st obtain d i where d: "wf_arp s" "wf_net s" "dev \<in> set (devices s)" "dev_heap s dev = Some d"
    "dev_ops d = Some ether_tap_ops \<or> dev_ops d = Some ether_pcap_ops" "if_heap s ifp = Some i" "ni_dev i = Some dev"
    "ni_family i = NETWORK_INTERFACE_FAMILY_IP" by (auto simp: station_def wf_arp_def)
  have "dev_type d = NETWORK_DEVICE_TYPE_ETHERNET"
    using d(2-5) by (auto dest!: wf_device_heap simp: wf_device_def)
  with arp_resolve_spec [OF d(1,6,7,4), of "replicate 16 0" pa] d(8) e show ?thesis by auto
qed

lemma station_asks:
  assumes st: "station s dev ifp addr ip fd" and e: "arp_map (caches s) pa = None"
  shows "\<exists>ha s'. arp_resolve ifp pa (replicate 16 0) s = Some (ARP_RESOLVE_INCOMPLETE, ha, s') \<and> station s' dev ifp addr ip fd \<and>
    wire s' = (fd, ether_frame ETHER_ADDR_BROADCAST addr 0x806 (arp_ether_bytes (arp_request_msg addr ip pa))) # wire s"
proof -
  from st obtain d i where d: "wf_arp s" "wf_net s" "dev \<in> set (devices s)" "dev_heap s dev = Some d"
    "dev_ops d = Some ether_tap_ops \<or> dev_ops d = Some ether_pcap_ops" "if_heap s ifp = Some i" "ni_dev i = Some dev"
    "ni_family i = NETWORK_INTERFACE_FAMILY_IP" by (auto simp: station_def wf_arp_def)
  have "dev_type d = NETWORK_DEVICE_TYPE_ETHERNET"
    using d(2-5) by (auto dest!: wf_device_heap simp: wf_device_def)
  with arp_resolve_spec [OF d(1,6,7,4), of "replicate 16 0" pa] d(8) e obtain ha t s' q where t:
    "arp_resolve ifp pa (replicate 16 0) s = Some (ARP_RESOLVE_INCOMPLETE, ha, s')" "arp_out s s'"
    "wire t = wire s" "arp_out s t" "arp_request ifp pa t = Some (q, s')" by auto
  have "station t dev ifp addr ip fd" "station s' dev ifp addr ip fd"
    using station_out [OF st] t(2,4) by simp_all
  with station_request [of t dev ifp addr ip fd pa] t show ?thesis by auto
qed

text \<open>
  C20. Address resolution works end to end: a station asks for an address it does not know; the frame
  it puts on the wire is accepted by the station that has the address, whose answer, put on its
  wire, is accepted by the first; both then know each other, and the first resolves the address
  to the other's hardware address.
\<close>

theorem arp_handshake:
  assumes A: "station sA devA ifA addrA ipA fdA" and B: "station sB devB ifB addrB ipB fdB"
    and unknown: "arp_map (caches sA) ipB = None"
  shows "\<exists>ha sA1 f1 e1 sB1 f2 e2 sA2 c.
    arp_resolve ifA ipB (replicate 16 0) sA = Some (ARP_RESOLVE_INCOMPLETE, ha, sA1) \<and> wire sA1 = (fdA, f1) # wire sA \<and>
    ether_accept devB addrB f1 = Some (0x806, e1) \<and>
    arp_input (nq_data e1) (nq_len e1) devB sB = Some sB1 \<and> wire sB1 = (fdB, f2) # wire sB \<and>
    arp_map (caches sB1) ipA = Some c \<and> ac_state c = ARP_CACHE_STATE_RESOLVED \<and> ac_ha c = addrA \<and>
    ether_accept devA addrA f2 = Some (0x806, e2) \<and>
    arp_input (nq_data e2) (nq_len e2) devA sA1 = Some sA2 \<and>
    arp_resolve ifA ipB (replicate 16 0) sA2 = Some (ARP_RESOLVE_FOUND, addrB @ replicate 10 0, sA2)"
proof -
  note la = station_addr [OF A] and lb = station_addr [OF B]
  let ?req = "arp_ether_bytes (arp_request_msg addrA ipA ipB)"
  let ?rep = "arp_ether_bytes (arp_reply_msg addrB ipB addrA ipA)"
  let ?f1 = "ether_frame ETHER_ADDR_BROADCAST addrA 0x806 ?req"
  let ?f2 = "ether_frame addrA addrB 0x806 ?rep"
  have l: "length ?req = 28" "length ?rep = 28"
    using la lb by (simp_all add: arp_request_msg_def arp_reply_msg_def)
  obtain ha sA1 where a1: "arp_resolve ifA ipB (replicate 16 0) sA = Some (ARP_RESOLVE_INCOMPLETE, ha, sA1)"
    "station sA1 devA ifA addrA ipA fdA" "wire sA1 = (fdA, ?f1) # wire sA"
    using station_asks [OF A unknown] by blast
  have acc: "ether_accept devB addrB ?f1 = Some (0x806, \<lparr>nq_dev = devB, nq_len = 46, nq_data = ?req @ replicate 18 0\<rparr>)"
    "ether_accept devA addrA ?f2 = Some (0x806, \<lparr>nq_dev = devA, nq_len = 46, nq_data = ?rep @ replicate 18 0\<rparr>)"
    using la lb l by (simp_all add: ether_accept_frame ETHER_ADDR_BROADCAST_def)
  obtain sB1 c where b: "arp_input (?req @ replicate 18 0) 46 devB sB = Some sB1" "wire sB1 = (fdB, ?f2) # wire sB"
    "arp_map (caches sB1) ipA = Some c" "ac_state c = ARP_CACHE_STATE_RESOLVED" "ac_ha c = addrA"
    using station_gets_request [OF B la, of ipA "replicate 18 0"] by auto
  obtain sA2 e where a2: "arp_input (?rep @ replicate 18 0) 46 devA sA1 = Some sA2" "station sA2 devA ifA addrA ipA fdA"
    "arp_map (caches sA2) ipB = Some e" "ac_state e = ARP_CACHE_STATE_RESOLVED" "ac_ha e = addrB"
    using station_gets_reply [OF a1(2) lb la, of ipB "replicate 18 0"] by auto
  have "arp_resolve ifA ipB (replicate 16 0) sA2 = Some (ARP_RESOLVE_FOUND, addrB @ replicate 10 0, sA2)"
    using station_resolves [OF a2(2-4)] a2(5) by simp
  with a1 acc b a2 show ?thesis by fastforce
qed

lemma arp_host_station: "station (arp_host k ip clk) 0 1 [2, 0, 0, 0, 0, k] ip 3"
  by (auto simp: station_def arp_host_ok) (auto simp: arp_host_def ether_setup_helper_def ether_consts zero_device_def
      NETWORK_DEVICE_IS_UP_def NETWORK_DEVICE_FLAG_UP_def NETWORK_INTERFACE_FAMILY_IP_def)

theorem arp_handshake_witness:
  "\<exists>ha sA1 sA2. arp_resolve 1 0x020000c0 (replicate 16 0) (arp_host 1 0x010000c0 (\<lambda>n. Timeval (int n) 0)) =
      Some (ARP_RESOLVE_INCOMPLETE, ha, sA1) \<and>
    arp_resolve 1 0x020000c0 (replicate 16 0) sA2 =
      Some (ARP_RESOLVE_FOUND, [2, 0, 0, 0, 0, 2] @ replicate 10 0, sA2 :: arp_state)"
proof -
  have "arp_map (caches (arp_host 1 0x010000c0 (\<lambda>n. Timeval (int n) 0))) 0x020000c0 = None"
    by (simp add: arp_map_None_iff arp_host_def arp_free_def arp_used_def)
  from arp_handshake [OF arp_host_station arp_host_station [of 2 "0x020000c0" "\<lambda>n. Timeval (int n) 0"] this]
  show ?thesis by blast
qed

end
