(* ===== verification/Ip.thy ===== *)
theory Ip
  imports Arp
begin

text \<open>
  The IP layer, \<^verbatim>\<open>src/lib/ip.c\<close> from \<^verbatim>\<open>ip_route_add\<close> on (address texts are in \<^verbatim>\<open>Addr_Text\<close>):
  routes and interfaces, packet output with header checksum and next-hop resolution, packet input
  with its checks, and the table of transport protocols. The state extends the ARP state by the
  static variables of the file and the counter of \<^verbatim>\<open>ip_generate_id\<close>.

  \<^verbatim>\<open>ip_input\<close> calls the transport protocols through function pointers; the function that performs
  these calls is an argument of the model and is supplied where the stack is put together.
\<close>

section \<open>Definitions\<close>

subsection \<open>Data\<close>

definition IPV4 :: nat where "IPV4 = 4"
definition MIN_IP_HEADER_SIZE :: nat where "MIN_IP_HEADER_SIZE = 20"
definition MAX_IP_PACKET_SIZE :: nat where "MAX_IP_PACKET_SIZE = 65535"
definition MAX_IP_PAYLOAD_SIZE :: nat where "MAX_IP_PAYLOAD_SIZE = MAX_IP_PACKET_SIZE - MIN_IP_HEADER_SIZE"

definition ICMP_PROTOCOL :: u8 where "ICMP_PROTOCOL = 0x01"
definition UDP_PROTOCOL :: u8 where "UDP_PROTOCOL = 0x11"

definition IP_ADDR_ANY :: u32 where "IP_ADDR_ANY = 0x00000000"
definition IP_ADDR_BROADCAST :: u32 where "IP_ADDR_BROADCAST = 0xffffffff"

datatype ip_handler = icmp_input_handler | udp_input_handler

record ip_protocol =
  ipp_name :: string
  ipp_type :: u8
  ipp_handler :: ip_handler

record ip_route =
  rt_network :: u32
  rt_netmask :: u32
  rt_nexthop :: u32
  rt_iface :: nat

record ip_hdr =
  ih_vhl :: u8
  ih_tos :: u8
  ih_total :: u16
  ih_id :: u16
  ih_offset :: u16
  ih_ttl :: u8
  ih_protocol :: u8
  ih_sum :: u16
  ih_src :: u32
  ih_dst :: u32

record ip_state = arp_state +
  ip_ifaces :: "nat list"
  ip_protocols :: "ip_protocol list"
  ip_routes :: "ip_route list"
  ip_id :: u16

definition ip_hdr_bytes :: "ip_hdr \<Rightarrow> bytes" where
  "ip_hdr_bytes h =
     [ih_vhl h, ih_tos h] @ store16 (ih_total h) @ store16 (ih_id h) @ store16 (ih_offset h) @
     [ih_ttl h, ih_protocol h] @ store16 (ih_sum h) @ store32 (ih_src h) @ store32 (ih_dst h)"

definition read_ip_hdr :: "bytes \<Rightarrow> ip_hdr option" where
  "read_ip_hdr b =
     (if length b < MIN_IP_HEADER_SIZE then None
      else Some \<lparr>ih_vhl = b ! 0, ih_tos = b ! 1, ih_total = load16 (b ! 2) (b ! 3), ih_id = load16 (b ! 4) (b ! 5),
        ih_offset = load16 (b ! 6) (b ! 7), ih_ttl = b ! 8, ih_protocol = b ! 9, ih_sum = load16 (b ! 10) (b ! 11),
        ih_src = load32 (b ! 12) (b ! 13) (b ! 14) (b ! 15), ih_dst = load32 (b ! 16) (b ! 17) (b ! 18) (b ! 19)\<rparr>)"

subsection \<open>Routes\<close>

definition ip_route_add ::
  "u32 \<Rightarrow> u32 \<Rightarrow> u32 \<Rightarrow> nat \<Rightarrow> 'a ip_state_scheme \<Rightarrow> (ip_route option \<times> 'a ip_state_scheme) option" where
  "ip_route_add network netmask nexthop iface s =
     (case memory_alloc s of
        (None, s) \<Rightarrow> Some (None, s)
      | (Some _, s) \<Rightarrow> do {
          let route = \<lparr>rt_network = network, rt_netmask = netmask, rt_nexthop = nexthop, rt_iface = iface\<rparr>;
          let s = s\<lparr>ip_routes := route # ip_routes s\<rparr>;
          i \<leftarrow> if_heap s iface;
          dev \<leftarrow> ni_dev i;
          _ \<leftarrow> dev_heap s dev;
          Some (Some route, s)
        })"

fun ip_route_scan :: "u32 \<Rightarrow> ip_route option \<Rightarrow> ip_route list \<Rightarrow> ip_route option" where
  "ip_route_scan dst candidate [] = candidate"
| "ip_route_scan dst candidate (route # routes) =
     ip_route_scan dst
       (if dst AND rt_netmask route = rt_network route \<and>
           (case candidate of None \<Rightarrow> True | Some c \<Rightarrow> ntoh32 (rt_netmask c) < ntoh32 (rt_netmask route))
        then Some route else candidate)
       routes"

definition ip_route_lookup :: "u32 \<Rightarrow> ip_route list \<Rightarrow> ip_route option" where
  "ip_route_lookup dst routes = ip_route_scan dst None routes"

definition ip_set_default_gateway :: "nat \<Rightarrow> string \<Rightarrow> 'a ip_state_scheme \<Rightarrow> (int \<times> 'a ip_state_scheme) option" where
  "ip_set_default_gateway iface gateway s =
     (let (r, gw) = ip_string_to_address gateway 0
      in if r = -1 then Some (-1, s)
         else do {
           (route, s) \<leftarrow> ip_route_add IP_ADDR_ANY IP_ADDR_ANY gw iface s;
           Some (if route = None then -1 else 0, s)
         })"

definition ip_get_interface :: "u32 \<Rightarrow> 'a ip_state_scheme \<Rightarrow> nat option" where
  "ip_get_interface dst s = map_option rt_iface (ip_route_lookup dst (ip_routes s))"

subsection \<open>Interfaces\<close>

definition ip_allocate_interface :: "string \<Rightarrow> string \<Rightarrow> 'a net_state_scheme \<Rightarrow> nat option \<times> 'a net_state_scheme" where
  "ip_allocate_interface unicast netmask s =
     (case memory_alloc s of
        (None, s) \<Rightarrow> (None, s)
      | (Some iface, s) \<Rightarrow>
          (let (r1, u) = ip_string_to_address unicast 0
           in if r1 = -1 then (None, s)
              else
                (let (r2, m) = ip_string_to_address netmask 0
                 in if r2 = -1 then (None, s)
                    else
                      (Some iface, s\<lparr>if_heap := (if_heap s)(iface \<mapsto>
                         \<lparr>ni_dev = None, ni_family = NETWORK_INTERFACE_FAMILY_IP, if_unicast = u, if_netmask = m,
                          if_broadcast = (u AND m) OR NOT m\<rparr>)\<rparr>))))"

definition ip_register_interface :: "nat \<Rightarrow> nat \<Rightarrow> 'a ip_state_scheme \<Rightarrow> (int \<times> 'a ip_state_scheme) option" where
  "ip_register_interface dev iface s = do {
     (r, s) \<leftarrow> network_device_add_interface dev iface s;
     if r = -1 then Some (-1, s)
     else do {
       i \<leftarrow> if_heap s iface;
       (route, s) \<leftarrow> ip_route_add (if_unicast i AND if_netmask i) (if_netmask i) IP_ADDR_ANY iface s;
       if route = None then Some (-1, s)
       else Some (0, s\<lparr>ip_ifaces := iface # ip_ifaces s\<rparr>)
     }
   }"

fun ip_iface_find :: "(nat \<rightharpoonup> IP_INTERFACE) \<Rightarrow> nat list \<Rightarrow> u32 \<Rightarrow> nat option option" where
  "ip_iface_find m [] addr = Some None"
| "ip_iface_find m (entry # es) addr =
     (case m entry of
        None \<Rightarrow> None
      | Some i \<Rightarrow> if if_unicast i = addr then Some (Some entry) else ip_iface_find m es addr)"

definition ip_select_interface :: "u32 \<Rightarrow> 'a ip_state_scheme \<Rightarrow> nat option option" where
  "ip_select_interface addr s = ip_iface_find (if_heap s) (ip_ifaces s) addr"

subsection \<open>Input\<close>

definition ip_input ::
  "(ip_handler \<Rightarrow> bytes \<Rightarrow> nat \<Rightarrow> u32 \<Rightarrow> u32 \<Rightarrow> nat \<Rightarrow> 'a ip_state_scheme \<Rightarrow> 'a ip_state_scheme option) \<Rightarrow>
   bytes \<Rightarrow> nat \<Rightarrow> nat \<Rightarrow> 'a ip_state_scheme \<Rightarrow> 'a ip_state_scheme option" where
  "ip_input call data len dev s =
     (if len < MIN_IP_HEADER_SIZE then Some s
      else do {
        iface \<leftarrow> network_device_get_interface dev NETWORK_INTERFACE_FAMILY_IP s;
        (case iface of
           None \<Rightarrow> Some s
         | Some ifp \<Rightarrow> do {
             hdr \<leftarrow> read_ip_hdr data;
             let v = unat (drop_bit 4 (ih_vhl hdr));
             let hlen = 4 * unat (ih_vhl hdr AND 0x0f);
             let tot = unat (ntoh16 (ih_total hdr));
             if v \<noteq> IPV4 \<or> hlen > len \<or> tot > len then Some s
             else do {
               sm \<leftarrow> cksum16 data (of_nat hlen) 0;
               if sm \<noteq> 0 then Some s
               else do {
                 i \<leftarrow> if_heap s ifp;
                 let offset = ntoh16 (ih_offset hdr);
                 if offset AND 0x2000 \<noteq> 0 \<or> offset AND 0x1fff \<noteq> 0 \<or>
                    (ih_dst hdr \<noteq> if_unicast i \<and> ih_dst hdr \<noteq> if_broadcast i \<and> ih_dst hdr \<noteq> IP_ADDR_BROADCAST)
                 then Some s
                 else case find_slot (\<lambda>proto. ipp_type proto = ih_protocol hdr) (ip_protocols s) of
                   None \<Rightarrow> Some s
                 | Some k \<Rightarrow>
                     call (ipp_handler (ip_protocols s ! k)) (drop hlen data) (size_t_of_int (int tot - int hlen))
                       (ih_src hdr) (ih_dst hdr) ifp s
               }
             }
           })
      })"

subsection \<open>Output\<close>

definition ip_output_device :: "nat \<Rightarrow> bytes \<Rightarrow> nat \<Rightarrow> u32 \<Rightarrow> 'a arp_state_scheme \<Rightarrow> (int \<times> 'a arp_state_scheme) option" where
  "ip_output_device iface data len dst s = do {
     i \<leftarrow> if_heap s iface;
     dev \<leftarrow> ni_dev i;
     d \<leftarrow> dev_heap s dev;
     let hwaddr = replicate NETWORK_DEVICE_ADDR_LEN 0;
     if dev_flags d AND NETWORK_DEVICE_FLAG_NEED_ARP \<noteq> 0
     then
       if dst = if_broadcast i \<or> dst = IP_ADDR_BROADCAST
       then do {
         b \<leftarrow> mem_read (dev_broadcast d) 0 (unat (dev_address_len d));
         hwaddr \<leftarrow> mem_write hwaddr 0 b;
         network_device_output dev NETWORK_PROTOCOL_TYPE_IP data len (Some hwaddr) s
       }
       else do {
         (ret, hwaddr, s) \<leftarrow> arp_resolve iface dst hwaddr s;
         if ret \<noteq> ARP_RESOLVE_FOUND then Some (ret, s)
         else network_device_output dev NETWORK_PROTOCOL_TYPE_IP data len (Some hwaddr) s
       }
     else network_device_output dev NETWORK_PROTOCOL_TYPE_IP data len (Some hwaddr) s
   }"

text \<open>The header before its checksum is filled in.\<close>

definition ip_hdr_blank :: "u8 \<Rightarrow> u16 \<Rightarrow> u32 \<Rightarrow> u32 \<Rightarrow> u16 \<Rightarrow> u16 \<Rightarrow> ip_hdr" where
  "ip_hdr_blank protocol tot src dst ident offset =
     \<lparr>ih_vhl = of_nat (IPV4 * 16 + MIN_IP_HEADER_SIZE div 4), ih_tos = 0, ih_total = hton16 tot, ih_id = hton16 ident,
      ih_offset = hton16 offset, ih_ttl = 0xff, ih_protocol = protocol, ih_sum = 0, ih_src = src, ih_dst = dst\<rparr>"

definition ip_output_core ::
  "nat \<Rightarrow> u8 \<Rightarrow> bytes \<Rightarrow> nat \<Rightarrow> u32 \<Rightarrow> u32 \<Rightarrow> u32 \<Rightarrow> u16 \<Rightarrow> u16 \<Rightarrow> 'a arp_state_scheme \<Rightarrow> (int \<times> 'a arp_state_scheme) option" where
  "ip_output_core iface protocol data len src dst nexthop ident offset s = do {
     let tot = (of_nat (MIN_IP_HEADER_SIZE + len) :: u16);
     let hdr = ip_hdr_blank protocol tot src dst ident offset;
     sm \<leftarrow> cksum16 (ip_hdr_bytes hdr) (of_nat MIN_IP_HEADER_SIZE) 0;
     payload \<leftarrow> mem_read data 0 len;
     if MIN_IP_HEADER_SIZE + len > MAX_IP_PACKET_SIZE then None
     else do {
       i \<leftarrow> if_heap s iface;
       dev \<leftarrow> ni_dev i;
       _ \<leftarrow> dev_heap s dev;
       ip_output_device iface (ip_hdr_bytes (hdr\<lparr>ih_sum := sm\<rparr>) @ payload) (unat tot) nexthop s
     }
   }"

definition ip_generate_id :: "'a ip_state_scheme \<Rightarrow> u16 \<times> 'a ip_state_scheme" where
  "ip_generate_id s = (ip_id s, s\<lparr>ip_id := ip_id s + 1\<rparr>)"

definition ip_send_packet ::
  "u8 \<Rightarrow> bytes \<Rightarrow> nat \<Rightarrow> u32 \<Rightarrow> u32 \<Rightarrow> 'a ip_state_scheme \<Rightarrow> (int \<times> 'a ip_state_scheme) option" where
  "ip_send_packet protocol data len src dst s =
     (if src = IP_ADDR_ANY \<and> dst = IP_ADDR_BROADCAST then Some (-1, s)
      else case ip_route_lookup dst (ip_routes s) of
        None \<Rightarrow> Some (-1, s)
      | Some route \<Rightarrow> do {
          let iface = rt_iface route;
          i \<leftarrow> if_heap s iface;
          if src \<noteq> IP_ADDR_ANY \<and> src \<noteq> if_unicast i then Some (-1, s)
          else do {
            let nexthop = (if rt_nexthop route \<noteq> IP_ADDR_ANY then rt_nexthop route else dst);
            dev \<leftarrow> ni_dev i;
            d \<leftarrow> dev_heap s dev;
            if unat (dev_mtu d) < (MIN_IP_HEADER_SIZE + len) mod 2 ^ 64 then Some (-1, s)
            else do {
              let (ident, s) = ip_generate_id s;
              (r, s) \<leftarrow> ip_output_core iface protocol data len (if_unicast i) dst nexthop ident 0 s;
              Some (if r = -1 then -1 else int len, s)
            }
          }
        })"

subsection \<open>Transport protocols\<close>

definition ip_register_protocol :: "string \<Rightarrow> u8 \<Rightarrow> ip_handler \<Rightarrow> 'a ip_state_scheme \<Rightarrow> int \<times> 'a ip_state_scheme" where
  "ip_register_protocol name type handler s =
     (if find_slot (\<lambda>entry. ipp_type entry = type) (ip_protocols s) \<noteq> None then (-1, s)
      else case memory_alloc s of
        (None, s) \<Rightarrow> (-1, s)
      | (Some _, s) \<Rightarrow>
          (0, s\<lparr>ip_protocols := \<lparr>ipp_name = strncpy16 name, ipp_type = type, ipp_handler = handler\<rparr> # ip_protocols s\<rparr>))"

definition ip_get_protocol_name :: "u8 \<Rightarrow> 'a ip_state_scheme \<Rightarrow> string" where
  "ip_get_protocol_name type s =
     (case find_slot (\<lambda>entry. ipp_type entry = type) (ip_protocols s) of
        Some k \<Rightarrow> ipp_name (ip_protocols s ! k)
      | None \<Rightarrow> ''UNKNOWN'')"

definition ip_initialize :: "'a net_state_scheme \<Rightarrow> int \<times> 'a net_state_scheme" where
  "ip_initialize s =
     (let (r, s) = network_protocol_register ''IP'' NETWORK_PROTOCOL_TYPE_IP ip_input_handler s
      in if r = -1 then (-1, s) else (0, s))"

section \<open>Invariant and frames\<close>

definition iface_ready :: "'a net_state_scheme \<Rightarrow> nat \<Rightarrow> bool" where
  "iface_ready s ifp \<longleftrightarrow>
     (\<exists>i dev. if_heap s ifp = Some i \<and> ni_dev i = Some dev \<and> ni_family i = NETWORK_INTERFACE_FAMILY_IP)"

text \<open>Routes and the list of interfaces name registered IP interfaces; a transport protocol is registered once.\<close>

definition wf_ip :: "'a ip_state_scheme \<Rightarrow> bool" where
  "wf_ip s \<longleftrightarrow>
     wf_arp s \<and> (\<forall>route \<in> set (ip_routes s). iface_ready s (rt_iface route)) \<and>
     (\<forall>ifp \<in> set (ip_ifaces s). iface_ready s ifp) \<and> distinct (map ipp_type (ip_protocols s))"

text \<open>What IP output may change.\<close>

definition ip_out :: "'a ip_state_scheme \<Rightarrow> 'a ip_state_scheme \<Rightarrow> bool" where
  "ip_out s s' \<longleftrightarrow>
     net_ext s s' \<and> (wf_caches (caches s) \<longrightarrow> wf_caches (caches s')) \<and> ip_ifaces s' = ip_ifaces s \<and>
     ip_protocols s' = ip_protocols s \<and> ip_routes s' = ip_routes s \<and> ip_state.more s' = ip_state.more s"

section \<open>Lemmas\<close>

lemma ip_out_refl [simp, intro]: "ip_out s s"
  by (simp add: ip_out_def)

lemma ip_out_trans [trans]: "ip_out s t \<Longrightarrow> ip_out t u \<Longrightarrow> ip_out s u"
  by (auto simp: ip_out_def intro: net_ext_trans)

lemma arp_more_ip:
  "arp_state.more s' = arp_state.more s \<Longrightarrow> ip_ifaces s' = ip_ifaces s \<and> ip_protocols s' = ip_protocols s \<and>
   ip_routes s' = ip_routes s \<and> ip_id s' = ip_id s \<and> ip_state.more s' = ip_state.more s"
  by (cases s, cases s') simp

lemma arp_out_ip: "arp_out s s' \<Longrightarrow> ip_out s s'"
  using arp_more_ip [of s' s] by (simp add: arp_out_def ip_out_def)

lemma ip_out_ext: "ip_out s s' \<Longrightarrow> net_ext s s'"
  by (simp add: ip_out_def)

lemma ip_out_wf:
  assumes "ip_out s s'" "wf_ip s"
  shows "wf_ip s'"
proof -
  have "if_heap s' = if_heap s" using net_ext_same [OF ip_out_ext [OF assms(1)]] by simp
  then have "iface_ready s' = iface_ready s" by (simp add: iface_ready_def fun_eq_iff)
  with assms show ?thesis by (auto simp: ip_out_def wf_ip_def wf_arp_def intro: net_ext_wf)
qed

lemma iface_ready_device:
  assumes "wf_net s" "iface_ready s ifp"
  obtains i dev d where "if_heap s ifp = Some i" "ni_dev i = Some dev" "ni_family i = NETWORK_INTERFACE_FAMILY_IP"
    "dev \<in> set (devices s)" "dev_heap s dev = Some d" "wf_device d"
  using assms iface_device [OF assms(1)] unfolding iface_ready_def by metis

subsection \<open>The header\<close>

lemma unat_of_nat_u16: "k < 65536 \<Longrightarrow> unat (of_nat k :: u16) = k"
  by (simp add: unsigned_of_nat take_bit_eq_mod)

lemma length_ip_hdr_bytes [simp]: "length (ip_hdr_bytes h) = 20"
  by (simp add: ip_hdr_bytes_def)

lemma read_ip_hdr_bytes [simp]:
  fixes h :: ip_hdr
  shows "read_ip_hdr (ip_hdr_bytes h @ rest) = Some h"
  by (cases h) (simp add: read_ip_hdr_def ip_hdr_bytes_def MIN_IP_HEADER_SIZE_def)

text \<open>The IP header is a checksummed message: its checksum field can be filled and the result verifies.\<close>

interpretation iph: checksummed "\<lambda>c (h :: ip_hdr). ip_hdr_bytes (h\<lparr>ih_sum := c\<rparr>)" "\<lambda>_. 20" "\<lambda>_. 0" "\<lambda>_. True"
  by unfold_locales (simp_all add: ip_hdr_bytes_def unat_load16)

lemma ip_hdr_filled:
  fixes h :: ip_hdr
  assumes "ih_sum h = 0"
  shows "\<exists>c. cksum16 (ip_hdr_bytes h) 20 0 = Some c \<and> cksum16 (ip_hdr_bytes (h\<lparr>ih_sum := c\<rparr>)) 20 0 = Some 0"
proof -
  have h: "h\<lparr>ih_sum := 0\<rparr> = h" using assms by simp
  then show ?thesis
    using iph.fill_exists [of h] iph.filled_verifies [of h] by auto
qed

lemma cksum16_prefix:
  assumes "unat count \<le> length xs"
  shows "cksum16 (xs @ ys) count 0 = cksum16 xs count 0"
proof -
  obtain c d where "cksum16 (xs @ ys) count 0 = Some c" "unat c = 65535 - carry_fold (sum16 (take (unat count) xs))"
    "cksum16 xs count 0 = Some d" "unat d = 65535 - carry_fold (sum16 (take (unat count) xs))"
    using cksum16_value [of count "xs @ ys" 0 LittleEndian] cksum16_value [of count xs 0 LittleEndian] assms by auto
  then show ?thesis by (metis word_unat_eq_iff)
qed

text \<open>The packet \<open>ip_output_core\<close> builds.\<close>

definition ip_packet :: "u8 \<Rightarrow> bytes \<Rightarrow> u32 \<Rightarrow> u32 \<Rightarrow> u16 \<Rightarrow> u16 \<Rightarrow> bytes" where
  "ip_packet protocol payload src dst ident offset =
     (let h = ip_hdr_blank protocol (of_nat (20 + length payload)) src dst ident offset
      in ip_hdr_bytes (h\<lparr>ih_sum := the (cksum16 (ip_hdr_bytes h) 20 0)\<rparr>) @ payload)"

lemma length_ip_packet [simp]: "length (ip_packet protocol payload src dst ident offset) = 20 + length payload"
  by (simp add: ip_packet_def Let_def)

lemma ip_packet_checksum:
  "cksum16 (ip_packet protocol payload src dst ident offset) 20 0 = Some 0"
proof -
  let ?h = "ip_hdr_blank protocol (of_nat (20 + length payload)) src dst ident offset"
  have "ih_sum ?h = 0" by (simp add: ip_hdr_blank_def)
  from ip_hdr_filled [OF this] show ?thesis
    by (auto simp: ip_packet_def Let_def cksum16_prefix)
qed

lemma ip_output_core_eq:
  assumes "len \<le> length data" "20 + len \<le> 65535" "if_heap s ifp = Some i" "ni_dev i = Some dev" "dev_heap s dev = Some d"
  shows "ip_output_core ifp protocol data len src dst nexthop ident offset s =
    ip_output_device ifp (ip_packet protocol (take len data) src dst ident offset) (20 + len) nexthop s"
proof -
  let ?h = "ip_hdr_blank protocol (of_nat (20 + len)) src dst ident offset"
  have "ih_sum ?h = 0" by (simp add: ip_hdr_blank_def)
  then obtain c where "cksum16 (ip_hdr_bytes ?h) 20 0 = Some c" using ip_hdr_filled by blast
  moreover have "unat (of_nat (20 + len) :: u16) = 20 + len"
    using assms(2) by (intro unat_of_nat_u16) simp
  ultimately show ?thesis
    using assms by (simp add: ip_output_core_def ip_packet_def Let_def MIN_IP_HEADER_SIZE_def MAX_IP_PACKET_SIZE_def min_def)
qed

subsection \<open>Route lookup\<close>

definition route_matches :: "u32 \<Rightarrow> ip_route \<Rightarrow> bool" where
  "route_matches dst route \<longleftrightarrow> dst AND rt_netmask route = rt_network route"

text \<open>The first of the elements with the greatest value.\<close>

definition first_max :: "('a \<Rightarrow> 'b :: linorder) \<Rightarrow> 'a list \<Rightarrow> 'a option" where
  "first_max f xs = find (\<lambda>x. \<forall>y \<in> set xs. f y \<le> f x) xs"

lemma first_max_Nil [simp]: "first_max f [] = None"
  by (simp add: first_max_def)

lemma first_max_exists:
  assumes "xs \<noteq> []"
  shows "\<exists>x \<in> set xs. \<forall>y \<in> set xs. f y \<le> (f x :: 'b :: linorder)"
proof -
  have "Max (f ` set xs) \<in> f ` set xs" using assms by (intro Max_in) auto
  then obtain x where x: "x \<in> set xs" "Max (f ` set xs) = f x" by auto
  have "f y \<le> f x" if "y \<in> set xs" for y
    using that Max_ge [of "f ` set xs" "f y"] x(2) by simp
  with x(1) show ?thesis by blast
qed

lemma first_max_Some: "first_max f xs = Some c \<Longrightarrow> c \<in> set xs \<and> (\<forall>y \<in> set xs. f y \<le> f c)"
  by (auto simp: first_max_def find_Some_iff)

lemma first_max_Cons:
  "first_max f (x # xs) = (case first_max f xs of None \<Rightarrow> Some x | Some c \<Rightarrow> if f x < f c then Some c else Some x)"
proof (cases "xs = []")
  case True
  then show ?thesis by (simp add: first_max_def)
next
  case False
  then obtain c where c: "first_max f xs = Some c"
    using first_max_exists [of xs f] by (fastforce simp: first_max_def find_None_iff)
  note cx = first_max_Some [OF c]
  show ?thesis
  proof (cases "f x < f c")
    case False
    with cx have "\<forall>y \<in> set (x # xs). f y \<le> f x" by auto
    with False c show ?thesis by (simp add: first_max_def)
  next
    case True
    then have nx: "\<not> (\<forall>y \<in> set (x # xs). f y \<le> f x)" using cx by (auto simp: not_le)
    have "find (\<lambda>r. \<forall>y \<in> set (x # xs). f y \<le> f r) xs = find (\<lambda>r. \<forall>y \<in> set xs. f y \<le> f r) xs"
    proof (rule find_cong)
      fix r assume "r \<in> set xs"
      show "(\<forall>y \<in> set (x # xs). f y \<le> f r) = (\<forall>y \<in> set xs. f y \<le> f r)"
        using True cx by (auto intro: order_trans [OF less_imp_le [OF True]])
    qed simp
    with nx have "first_max f (x # xs) = first_max f xs" unfolding first_max_def by auto
    with c True show ?thesis by simp
  qed
qed

lemma ip_route_scan_spec:
  "ip_route_scan dst c routes =
     (let best = first_max (\<lambda>r. ntoh32 (rt_netmask r)) (filter (route_matches dst) routes)
      in case c of
        None \<Rightarrow> best
      | Some r \<Rightarrow>
          (case best of
             None \<Rightarrow> Some r
           | Some r' \<Rightarrow> if ntoh32 (rt_netmask r) < ntoh32 (rt_netmask r') then Some r' else Some r))"
proof (induction routes arbitrary: c)
  case Nil
  then show ?case by (simp split: option.split)
next
  case (Cons route routes)
  show ?case
    by (simp only: ip_route_scan.simps Cons.IH)
      (auto simp: Let_def first_max_Cons route_matches_def split: option.splits)
qed

lemma ip_route_lookup_spec:
  "ip_route_lookup dst routes = first_max (\<lambda>r. ntoh32 (rt_netmask r)) (filter (route_matches dst) routes)"
  by (simp add: ip_route_lookup_def ip_route_scan_spec Let_def)

lemma ip_route_lookup_in: "ip_route_lookup dst routes = Some route \<Longrightarrow> route \<in> set routes \<and> route_matches dst route"
  using first_max_Some by (fastforce simp: ip_route_lookup_spec)

subsection \<open>Output\<close>

lemma ip_output_device_out:
  assumes wf: "wf_arp s" and rdy: "iface_ready s ifp" and len: "len \<le> length data"
  shows "\<exists>r s'. ip_output_device ifp data len dst s = Some (r, s') \<and> arp_out s s' \<and> r \<in> {-1, 0}"
proof -
  from wf have wn: "wf_net s" by (simp add: wf_arp_def)
  obtain i dev d where i: "if_heap s ifp = Some i" "ni_dev i = Some dev" "ni_family i = NETWORK_INTERFACE_FAMILY_IP"
    "dev \<in> set (devices s)" "dev_heap s dev = Some d" "wf_device d"
    using iface_ready_device [OF wn rdy] .
  have lb: "length (dev_broadcast d) = 16" using i(6) by (simp add: wf_device_def NETWORK_DEVICE_ADDR_LEN_def)
  have out: "\<exists>r u. network_device_output dev t data len (Some hw) s' = Some (r, u) \<and> arp_out s u \<and> r \<in> {-1, 0}"
    if "length hw = 16" "arp_out s s'" for hw t s'
  proof -
    have "wf_net s'" "dev \<in> set (devices s')"
      using arp_out_wf [OF that(2) wf] net_ext_same [OF arp_out_ext [OF that(2)]] i(4) by (simp_all add: wf_arp_def)
    from network_device_output_out [OF this len, of "Some hw" t] that(1) obtain r u where
      "network_device_output dev t data len (Some hw) s' = Some (r, u)" "net_out s' u" "r \<in> {0, -1}" by auto
    with arp_out_trans [OF that(2) net_out_arp] show ?thesis by blast
  qed
  show ?thesis
  proof (cases "dev_flags d AND NETWORK_DEVICE_FLAG_NEED_ARP = 0")
    case True
    with i out [of "replicate 16 0" s] show ?thesis
      by (simp add: ip_output_device_def NETWORK_DEVICE_ADDR_LEN_def)
  next
    case arp: False
    show ?thesis
    proof (cases "dst = if_broadcast i \<or> dst = IP_ADDR_BROADCAST")
      case True
      let ?b = "take (unat (dev_address_len d)) (dev_broadcast d)"
      have b: "unat (dev_address_len d) \<le> 16" using i(6) by (simp add: wf_device_def NETWORK_DEVICE_ADDR_LEN_def)
      then have "mem_write (replicate 16 0) 0 ?b = Some (?b @ drop (unat (dev_address_len d)) (replicate 16 0))"
        using lb by (simp add: mem_write_def min_def)
      with i arp True b lb out [of "?b @ drop (unat (dev_address_len d)) (replicate 16 0)" s] show ?thesis
        by (simp add: ip_output_device_def NETWORK_DEVICE_ADDR_LEN_def min_def)
    next
      case False
      from arp_resolve_spec [OF wf i(1,2,5), of "replicate 16 0" dst] obtain r ha s' where
        r: "arp_resolve ifp dst (replicate 16 0) s = Some (r, ha, s')" "arp_out s s'" "length ha = 16"
          "r \<in> {ARP_RESOLVE_ERROR, ARP_RESOLVE_INCOMPLETE, ARP_RESOLVE_FOUND}"
        by (fastforce split: if_splits option.splits)
      with i arp False out [of ha s'] show ?thesis
        by (auto simp: ip_output_device_def NETWORK_DEVICE_ADDR_LEN_def ARP_RESOLVE_ERROR_def ARP_RESOLVE_INCOMPLETE_def
            ARP_RESOLVE_FOUND_def)
    qed
  qed
qed

lemma ip_id_out: "ip_out s (s\<lparr>ip_id := k\<rparr>)"
  by (auto simp: ip_out_def intro!: net_ext_quiet)

lemma iface_ready_ext: "net_ext s s' \<Longrightarrow> iface_ready s' ifp = iface_ready s ifp"
  by (simp add: iface_ready_def net_ext_same)

text \<open>All branches of \<open>ip_send_packet\<close>.\<close>

lemma ip_send_packet_spec:
  fixes s :: "'a ip_state_scheme"
  assumes wf: "wf_ip s" and len: "len \<le> length data" "20 + length data < 2 ^ 64"
  shows "\<exists>r s'. ip_send_packet protocol data len src dst s = Some (r, s') \<and> ip_out s s' \<and>
    (if src = IP_ADDR_ANY \<and> dst = IP_ADDR_BROADCAST then r = -1 \<and> s' = s
     else case ip_route_lookup dst (ip_routes s) of
       None \<Rightarrow> r = -1 \<and> s' = s
     | Some route \<Rightarrow> \<exists>i dev d. if_heap s (rt_iface route) = Some i \<and> ni_dev i = Some dev \<and> dev_heap s dev = Some d \<and>
         (if (src \<noteq> IP_ADDR_ANY \<and> src \<noteq> if_unicast i) \<or> unat (dev_mtu d) < 20 + len then r = -1 \<and> s' = s
          else \<exists>r0. ip_output_device (rt_iface route)
              (ip_packet protocol (take len data) (if_unicast i) dst (ip_id s) 0) (20 + len)
              (if rt_nexthop route \<noteq> IP_ADDR_ANY then rt_nexthop route else dst) (s\<lparr>ip_id := ip_id s + 1\<rparr>) = Some (r0, s') \<and>
            r0 \<in> {-1, 0} \<and> r = (if r0 = -1 then -1 else int len)))"
proof (cases "src = IP_ADDR_ANY \<and> dst = IP_ADDR_BROADCAST")
  case True
  then show ?thesis by (auto simp: ip_send_packet_def)
next
  case any: False
  show ?thesis
  proof (cases "ip_route_lookup dst (ip_routes s)")
    case None
    with any show ?thesis by (auto simp: ip_send_packet_def)
  next
    case (Some route)
    have wa: "wf_arp s" and wn: "wf_net s" using wf by (simp_all add: wf_ip_def wf_arp_def)
    have rdy: "iface_ready s (rt_iface route)"
      using ip_route_lookup_in [OF Some] wf by (simp add: wf_ip_def)
    obtain i dev d where i: "if_heap s (rt_iface route) = Some i" "ni_dev i = Some dev" "dev_heap s dev = Some d"
      using iface_ready_device [OF wn rdy] by metis
    have wrap: "(20 + len) mod 2 ^ 64 = 20 + len" using len by simp
    show ?thesis
    proof (cases "(src \<noteq> IP_ADDR_ANY \<and> src \<noteq> if_unicast i) \<or> unat (dev_mtu d) < 20 + len")
      case True
      then have "ip_send_packet protocol data len src dst s = Some (-1, s)"
        using any Some i wrap by (auto simp: ip_send_packet_def MIN_IP_HEADER_SIZE_def)
      with any Some i True show ?thesis by auto
    next
      case False
      let ?t = "s\<lparr>ip_id := ip_id s + 1\<rparr>"
      let ?nh = "if rt_nexthop route \<noteq> IP_ADDR_ANY then rt_nexthop route else dst"
      let ?p = "ip_packet protocol (take len data) (if_unicast i) dst (ip_id s) 0"
      have wt: "wf_arp ?t" "iface_ready ?t (rt_iface route)"
        using ip_out_wf [OF ip_id_out wf] rdy by (simp_all add: wf_ip_def iface_ready_def)
      have "20 + len \<le> length ?p" using len(1) by (simp add: min_def)
      from ip_output_device_out [OF wt this] obtain r0 s' where
        out: "ip_output_device (rt_iface route) ?p (20 + len) ?nh ?t = Some (r0, s')" "arp_out ?t s'" "r0 \<in> {-1, 0}" by blast
      have "20 + len \<le> 65535" using False unat_u16_bound [of "dev_mtu d"] by simp
      then have core: "ip_output_core (rt_iface route) protocol data len (if_unicast i) dst ?nh (ip_id s) 0 ?t = Some (r0, s')"
        using ip_output_core_eq [of len data ?t "rt_iface route" i dev d] len i out(1) by simp
      have "ip_send_packet protocol data len src dst s = Some (if r0 = -1 then -1 else int len, s')"
        using any Some i wrap False core by (auto simp: ip_send_packet_def ip_generate_id_def MIN_IP_HEADER_SIZE_def)
      moreover have "ip_out s s'"
        using ip_out_trans [OF ip_id_out arp_out_ip [OF out(2)]] .
      ultimately show ?thesis
        using any Some i False out by auto
    qed
  qed
qed

lemma ip_send_packet_out:
  assumes "wf_ip s" "len \<le> length data" "20 + length data < 2 ^ 64"
  shows "\<exists>r s'. ip_send_packet protocol data len src dst s = Some (r, s') \<and> ip_out s s' \<and> r \<in> {-1, int len}"
  using ip_send_packet_spec [OF assms, of protocol src dst] by (fastforce split: if_splits option.splits)

subsection \<open>Input\<close>

lemma ip_packet_hdr:
  "read_ip_hdr (ip_packet protocol payload src dst ident offset @ pad) =
     Some ((ip_hdr_blank protocol (of_nat (20 + length payload)) src dst ident offset)
       \<lparr>ih_sum := the (cksum16 (ip_hdr_bytes (ip_hdr_blank protocol (of_nat (20 + length payload)) src dst ident offset)) 20 0)\<rparr>)"
  unfolding ip_packet_def Let_def append_assoc by (rule read_ip_hdr_bytes)

text \<open>A packet built by the output side passes all checks of the input side.\<close>

lemma ip_input_packet:
  assumes get: "network_device_get_interface dev NETWORK_INTERFACE_FAMILY_IP s = Some (Some ifp)" "if_heap s ifp = Some i"
    and dst: "dst \<in> {if_unicast i, if_broadcast i, IP_ADDR_BROADCAST}"
    and proto: "find_slot (\<lambda>p. ipp_type p = protocol) (ip_protocols s) = Some k"
    and len: "20 + length payload \<le> 65535"
  shows "ip_input call (ip_packet protocol payload src dst ident 0 @ pad) (20 + length payload + length pad) dev s =
    call (ipp_handler (ip_protocols s ! k)) (payload @ pad) (length payload) src dst ifp s"
proof -
  let ?d = "ip_packet protocol payload src dst ident 0 @ pad"
  have "unat (of_nat (20 + length payload) :: u16) = 20 + length payload"
    using len by (intro unat_of_nat_u16) simp
  moreover have "cksum16 ?d 20 0 = Some 0"
    using ip_packet_checksum [of protocol payload src dst ident 0] by (simp add: cksum16_prefix)
  moreover have "drop 20 ?d = payload @ pad"
    by (simp add: ip_packet_def Let_def)
  moreover have "size_t_of_int (int (20 + length payload) - int 20) = length payload"
    using len by simp
  ultimately show ?thesis
    using get dst proto len
    by (auto simp: ip_input_def MIN_IP_HEADER_SIZE_def ip_packet_hdr ip_hdr_blank_def IPV4_def Let_def)
qed

subsection \<open>Configuration\<close>

lemma network_device_add_interface_frame:
  assumes "network_device_add_interface dev iface s = Some (r, s')"
  shows "mem_ok s' = mem_ok s \<and> mem_n s' = mem_n s \<and> sys_ret s' = sys_ret s \<and> pending s' = pending s \<and>
    irq_vec s' = irq_vec s \<and> timers s' = timers s \<and> events s' = events s \<and> sigmask s' = sigmask s \<and>
    protocols s' = protocols s \<and> devices s' = devices s \<and> net_state.more s' = net_state.more s"
  using assms by (auto simp: network_device_add_interface_def Let_def split: if_splits option.splits bind_splits)

lemma net_more_ip:
  assumes "net_state.more s' = net_state.more s"
  shows "caches s' = caches s \<and> ip_ifaces s' = ip_ifaces s \<and> ip_protocols s' = ip_protocols s \<and> ip_routes s' = ip_routes s \<and>
    ip_id s' = ip_id s \<and> ip_state.more s' = ip_state.more s"
  using assms by (cases s, cases s') simp

lemma wf_net_mem: "wf_net s \<Longrightarrow> mem_n s \<le> n \<Longrightarrow> wf_net (s\<lparr>mem_n := n\<rparr>)"
  by (rule wf_net_mono [of s]) (simp_all add: wf_net_def)

lemma wf_ip_mem: "wf_ip s \<Longrightarrow> mem_n s \<le> n \<Longrightarrow> wf_ip (s\<lparr>mem_n := n\<rparr>)"
  using wf_net_mem [of s n] by (simp add: wf_ip_def wf_arp_def iface_ready_def)

text \<open>The invariant does not depend on the routes beyond what it says of them.\<close>

lemma wf_net_routes: "wf_net (s\<lparr>ip_routes := rs, ip_ifaces := is, ip_protocols := ps\<rparr>) = wf_net s"
proof
  show "wf_net (s\<lparr>ip_routes := rs, ip_ifaces := is, ip_protocols := ps\<rparr>)" if "wf_net s"
    using that by (rule wf_net_mono) (use that in \<open>simp_all add: wf_net_def\<close>)
  show "wf_net s" if wf: "wf_net (s\<lparr>ip_routes := rs, ip_ifaces := is, ip_protocols := ps\<rparr>)"
    using wf by (rule wf_net_mono) (use wf in \<open>simp_all add: wf_net_def\<close>)
qed

lemma wf_ip_tables:
  assumes "wf_ip s" "\<forall>route \<in> set rs. iface_ready s (rt_iface route)" "\<forall>ifp \<in> set is. iface_ready s ifp"
    "distinct (map ipp_type ps)"
  shows "wf_ip (s\<lparr>ip_routes := rs, ip_ifaces := is, ip_protocols := ps\<rparr>)"
  using assms by (simp add: wf_ip_def wf_arp_def wf_net_routes iface_ready_def)

lemma ip_route_add_wf:
  assumes wf: "wf_ip s" and rdy: "iface_ready s iface"
  shows "\<exists>r s'. ip_route_add network netmask nexthop iface s = Some (r, s') \<and> wf_ip s' \<and>
    (if mem_ok s (mem_n s)
     then \<exists>route. r = Some route \<and> rt_network route = network \<and> rt_netmask route = netmask \<and> rt_nexthop route = nexthop \<and>
       rt_iface route = iface \<and> s' = s\<lparr>mem_n := Suc (mem_n s), ip_routes := route # ip_routes s\<rparr>
     else r = None \<and> s' = s\<lparr>mem_n := Suc (mem_n s)\<rparr>)"
proof -
  have wn: "wf_net s" using wf by (simp add: wf_ip_def wf_arp_def)
  obtain i dev d where i: "if_heap s iface = Some i" "ni_dev i = Some dev" "dev_heap s dev = Some d"
    using iface_ready_device [OF wn rdy] by metis
  let ?route = "\<lparr>rt_network = network, rt_netmask = netmask, rt_nexthop = nexthop, rt_iface = iface\<rparr>"
  let ?s = "s\<lparr>mem_n := Suc (mem_n s)\<rparr>"
  have w: "wf_ip ?s" using wf_ip_mem [OF wf] by simp
  moreover have "wf_ip (?s\<lparr>ip_routes := ?route # ip_routes s\<rparr>)"
  proof -
    have "wf_ip (?s\<lparr>ip_routes := ?route # ip_routes s, ip_ifaces := ip_ifaces s, ip_protocols := ip_protocols s\<rparr>)"
      using w rdy by (intro wf_ip_tables) (auto simp: wf_ip_def iface_ready_def)
    then show ?thesis by simp
  qed
  ultimately show ?thesis
    using i by (simp add: ip_route_add_def memory_alloc_def Let_def)
qed

lemma ip_register_interface_wf:
  fixes s :: "'a ip_state_scheme"
  assumes wf: "wf_ip s" and dev: "dev \<in> set (devices s)"
    and f: "if_heap s iface = Some f" "ni_dev f = None" "ni_family f = NETWORK_INTERFACE_FAMILY_IP"
  shows "\<exists>r s'. ip_register_interface dev iface s = Some (r, s') \<and> wf_ip s' \<and> devices s' = devices s \<and> r \<in> {0, -1} \<and>
    (r = 0 \<longrightarrow> if_heap s' = (if_heap s)(iface \<mapsto> f\<lparr>ni_dev := Some dev\<rparr>) \<and> ip_ifaces s' = iface # ip_ifaces s \<and>
       ip_routes s' = \<lparr>rt_network = if_unicast f AND if_netmask f, rt_netmask = if_netmask f, rt_nexthop = IP_ADDR_ANY,
         rt_iface = iface\<rparr> # ip_routes s) \<and>
    (mem_ok s (mem_n s) \<and> network_device_get_interface dev NETWORK_INTERFACE_FAMILY_IP s = Some None \<longrightarrow> r = 0)"
proof -
  have wn: "wf_net s" using wf by (simp add: wf_ip_def wf_arp_def)
  from network_device_add_interface_wf [OF wn dev f(1,2)] f(3) obtain r t where
    t: "network_device_add_interface dev iface s = Some (r, t)" "wf_net t"
    and rt: "r = 0 \<and> if_heap t = (if_heap s)(iface \<mapsto> f\<lparr>ni_dev := Some dev\<rparr>) \<or>
      r = -1 \<and> t = s \<and> network_device_get_interface dev NETWORK_INTERFACE_FAMILY_IP s \<noteq> Some None" by auto
  note fr = network_device_add_interface_frame [OF t(1)]
  have same: "caches t = caches s" "ip_ifaces t = ip_ifaces s" "ip_protocols t = ip_protocols s" "ip_routes t = ip_routes s"
    using net_more_ip [of t s] fr by blast+
  from rt show ?thesis
  proof (elim disjE conjE)
    assume "r = -1" "t = s" "network_device_get_interface dev NETWORK_INTERFACE_FAMILY_IP s \<noteq> Some None"
    with t wf show ?thesis by (simp add: ip_register_interface_def)
  next
    assume r: "r = 0" and h: "if_heap t = (if_heap s)(iface \<mapsto> f\<lparr>ni_dev := Some dev\<rparr>)"
    have up: "iface_ready s ifp \<Longrightarrow> iface_ready t ifp" for ifp
      using f h by (auto simp: iface_ready_def)
    have rdy: "iface_ready t iface" using f h by (simp add: iface_ready_def)
    have wt: "wf_ip t" using wf t(2) up same by (auto simp: wf_ip_def wf_arp_def)
    from ip_route_add_wf [OF wt rdy, of "if_unicast f AND if_netmask f" "if_netmask f" IP_ADDR_ANY] obtain q u where
      q: "ip_route_add (if_unicast f AND if_netmask f) (if_netmask f) IP_ADDR_ANY iface t = Some (q, u)" "wf_ip u"
      and qu: "if mem_ok t (mem_n t)
        then q = Some \<lparr>rt_network = if_unicast f AND if_netmask f, rt_netmask = if_netmask f, rt_nexthop = IP_ADDR_ANY, rt_iface = iface\<rparr> \<and>
          u = t\<lparr>mem_n := Suc (mem_n t), ip_routes := \<lparr>rt_network = if_unicast f AND if_netmask f, rt_netmask = if_netmask f,
            rt_nexthop = IP_ADDR_ANY, rt_iface = iface\<rparr> # ip_routes t\<rparr>
        else q = None \<and> u = t\<lparr>mem_n := Suc (mem_n t)\<rparr>"
      by (fastforce split: if_splits)
    have "iface_ready u ifp = iface_ready t ifp" for ifp
      using qu by (auto simp: iface_ready_def split: if_splits)
    then have "wf_ip (u\<lparr>ip_routes := ip_routes u, ip_ifaces := iface # ip_ifaces u, ip_protocols := ip_protocols u\<rparr>)"
      using q(2) rdy by (intro wf_ip_tables) (auto simp: wf_ip_def)
    with t r h q qu fr same show ?thesis
      by (auto simp: ip_register_interface_def split: if_splits)
  qed
qed

lemma wf_ifaces_alloc:
  fixes s :: "'a net_state_scheme"
  assumes wf: "wf_ifaces s" and fresh: "if_heap s n = None" and f: "ni_dev f = None"
  shows "wf_ifaces (s\<lparr>if_heap := (if_heap s)(n \<mapsto> f)\<rparr>)"
proof -
  have out: "n \<notin> set (dev_interfaces d)" if "p \<in> set (devices s)" "dev_heap s p = Some d" for p d
    using wf fresh that unfolding wf_ifaces_def by fastforce
  have fam: "map (\<lambda>i. map_option ni_family (((if_heap s)(n \<mapsto> f)) i)) xs = map (\<lambda>i. map_option ni_family (if_heap s i)) xs"
    if "n \<notin> set xs" for xs
    using that by auto
  show ?thesis
    unfolding wf_ifaces_def
  proof (intro conjI ballI allI impI)
    fix p d assume p: "p \<in> set (devices (s\<lparr>if_heap := (if_heap s)(n \<mapsto> f)\<rparr>))"
      "dev_heap (s\<lparr>if_heap := (if_heap s)(n \<mapsto> f)\<rparr>) p = Some d"
    then have d: "distinct (dev_interfaces d)" "distinct (map (\<lambda>i. map_option ni_family (if_heap s i)) (dev_interfaces d))"
      using wf by (simp_all add: wf_ifaces_def)
    have h: "if_heap (s\<lparr>if_heap := (if_heap s)(n \<mapsto> f)\<rparr>) = (if_heap s)(n \<mapsto> f)" by simp
    show "distinct (dev_interfaces d)"
      "distinct (map (\<lambda>i. map_option ni_family (if_heap (s\<lparr>if_heap := (if_heap s)(n \<mapsto> f)\<rparr>) i)) (dev_interfaces d))"
      using d unfolding h by (simp, subst fam) (use out [of p d] p in simp_all)
    show "\<exists>g. if_heap (s\<lparr>if_heap := (if_heap s)(n \<mapsto> f)\<rparr>) i = Some g \<and> ni_dev g = Some p" if "i \<in> set (dev_interfaces d)" for i
      using wf p out [of p d] that by (auto simp: wf_ifaces_def)
  next
    fix i g p assume "if_heap (s\<lparr>if_heap := (if_heap s)(n \<mapsto> f)\<rparr>) i = Some g" "ni_dev g = Some p"
    then have "if_heap s i = Some g" using f by (auto split: if_splits)
    with wf \<open>ni_dev g = Some p\<close> show "p \<in> set (devices (s\<lparr>if_heap := (if_heap s)(n \<mapsto> f)\<rparr>))"
      "\<And>d. dev_heap (s\<lparr>if_heap := (if_heap s)(n \<mapsto> f)\<rparr>) p = Some d \<Longrightarrow> i \<in> set (dev_interfaces d)"
      by (simp_all add: wf_ifaces_def)
  qed
qed

lemma ip_allocate_interface_wf:
  fixes s :: "'a ip_state_scheme"
  assumes wf: "wf_ip s" and a: "ip_allocate_interface unicast netmask s = (r, s')"
  shows "wf_ip s' \<and> (\<forall>iface. r = Some iface \<longrightarrow> iface \<notin> dom (if_heap s) \<and>
    (\<exists>u m. snd (ip_string_to_address unicast 0) = u \<and> snd (ip_string_to_address netmask 0) = m \<and>
      s' = s\<lparr>mem_n := Suc (mem_n s), if_heap := (if_heap s)(iface \<mapsto>
        \<lparr>ni_dev = None, ni_family = NETWORK_INTERFACE_FAMILY_IP, if_unicast = u, if_netmask = m, if_broadcast = (u AND m) OR NOT m\<rparr>)\<rparr>))"
proof -
  have wn: "wf_net s" using wf by (simp add: wf_ip_def wf_arp_def)
  have fresh: "if_heap s (mem_n s) = None" using wn by (auto simp: wf_net_def)
  have m: "wf_ip (s\<lparr>mem_n := Suc (mem_n s)\<rparr>)" using wf_ip_mem [OF wf] by simp
  have new: "wf_ip (s\<lparr>mem_n := Suc (mem_n s), if_heap := (if_heap s)(mem_n s \<mapsto> f)\<rparr>)" if "ni_dev f = None" for f :: IP_INTERFACE
  proof -
    have "wf_ifaces (s\<lparr>mem_n := Suc (mem_n s), if_heap := (if_heap s)(mem_n s \<mapsto> f)\<rparr>)"
      using wf_ifaces_alloc [of "s\<lparr>mem_n := Suc (mem_n s)\<rparr>" "mem_n s" f] m fresh that
      by (simp add: wf_ip_def wf_arp_def wf_net_def)
    then have "wf_net (s\<lparr>mem_n := Suc (mem_n s), if_heap := (if_heap s)(mem_n s \<mapsto> f)\<rparr>)"
      using wn unfolding wf_net_def by (auto simp: less_Suc_eq)
    then show ?thesis using wf fresh by (auto simp: wf_ip_def wf_arp_def iface_ready_def)
  qed
  show ?thesis
    using a fresh new m
    by (auto simp: ip_allocate_interface_def memory_alloc_def Let_def split_beta split: if_splits)
qed

subsection \<open>The table of transport protocols\<close>

definition ip_protocol_of :: "u8 \<Rightarrow> 'a ip_state_scheme \<Rightarrow> (string \<times> ip_handler) option" where
  "ip_protocol_of type s =
     map_option (\<lambda>k. (ipp_name (ip_protocols s ! k), ipp_handler (ip_protocols s ! k)))
       (find_slot (\<lambda>p. ipp_type p = type) (ip_protocols s))"

lemma ip_register_protocol_cases:
  obtains (taken) "ip_protocol_of type s \<noteq> None" "ip_register_protocol name type h s = (-1, s)"
  | (nomem) "ip_protocol_of type s = None" "ip_register_protocol name type h s = (-1, s\<lparr>mem_n := Suc (mem_n s)\<rparr>)"
  | (added) "ip_protocol_of type s = None" "ip_register_protocol name type h s =
      (0, s\<lparr>mem_n := Suc (mem_n s), ip_protocols := \<lparr>ipp_name = strncpy16 name, ipp_type = type, ipp_handler = h\<rparr> # ip_protocols s\<rparr>)"
proof (cases "find_slot (\<lambda>p. ipp_type p = type) (ip_protocols s)")
  case None
  show thesis
  proof (cases "mem_ok s (mem_n s)")
    case True
    with None show thesis by (intro added) (simp_all add: ip_register_protocol_def memory_alloc_def ip_protocol_of_def)
  next
    case False
    with None show thesis by (intro nomem) (simp_all add: ip_register_protocol_def memory_alloc_def ip_protocol_of_def)
  qed
next
  case (Some k)
  then show thesis by (intro taken) (simp_all add: ip_register_protocol_def ip_protocol_of_def)
qed

lemma ip_protocol_of_Cons:
  "ip_protocol_of k (s\<lparr>mem_n := n, ip_protocols := p # ip_protocols s\<rparr>) =
     (if ipp_type p = k then Some (ipp_name p, ipp_handler p) else ip_protocol_of k s)"
  by (simp add: ip_protocol_of_def option.map_comp comp_def)

lemma ip_protocol_of_mem [simp]: "ip_protocol_of k (s\<lparr>mem_n := n\<rparr>) = ip_protocol_of k s"
  by (simp add: ip_protocol_of_def)

lemma ip_register_protocol_look:
  assumes "ip_register_protocol name type h s = (r, s')"
  shows "r = 0 \<and> ip_protocol_of type s = None \<and>
      (\<forall>k. ip_protocol_of k s' = (if k = type then Some (strncpy16 name, h) else ip_protocol_of k s)) \<or>
    r = -1 \<and> (\<forall>k. ip_protocol_of k s' = ip_protocol_of k s) \<and> (ip_protocol_of type s \<noteq> None \<longrightarrow> s' = s)"
  using assms by (cases rule: ip_register_protocol_cases [of type s name h]) (auto simp: ip_protocol_of_Cons)

interpretation ipp: registry "\<lambda>(name, type, h). ip_register_protocol name type h" "\<lambda>(name, type, h). type"
  "\<lambda>(name, type, h). (strncpy16 name, h)" ip_protocol_of
proof (unfold_locales, goal_cases)
  case (1 v s s')
  then show ?case by (auto split: prod.splits dest!: ip_register_protocol_look)
next
  case (2 v s r s' k')
  then show ?case by (auto split: prod.splits dest!: ip_register_protocol_look)
next
  case (3 v s)
  obtain name k h where v: "v = (name, k, h)" by (cases v) auto
  obtain r s' where "ip_register_protocol name k h s = (r, s')" by fastforce
  with 3 show ?case unfolding v using ip_register_protocol_look by fastforce
next
  case (4 v s r s')
  then show ?case by (auto split: prod.splits dest!: ip_register_protocol_look)
qed

lemma ip_register_protocol_wf:
  assumes wf: "wf_ip s"
  shows "wf_ip (snd (ip_register_protocol name type h s))"
proof (rule ip_register_protocol_cases [of type s name h])
  assume "ip_register_protocol name type h s = (-1, s)"
  with wf show ?thesis by simp
next
  assume "ip_register_protocol name type h s = (-1, s\<lparr>mem_n := Suc (mem_n s)\<rparr>)"
  with wf_ip_mem [OF wf] show ?thesis by simp
next
  let ?p = "\<lparr>ipp_name = strncpy16 name, ipp_type = type, ipp_handler = h\<rparr>"
  let ?s = "s\<lparr>mem_n := Suc (mem_n s)\<rparr>"
  assume n: "ip_protocol_of type s = None"
    and r: "ip_register_protocol name type h s = (0, s\<lparr>mem_n := Suc (mem_n s), ip_protocols := ?p # ip_protocols s\<rparr>)"
  have "type \<notin> ipp_type ` set (ip_protocols s)" using n by (auto simp: ip_protocol_of_def slot_simps)
  then have "wf_ip (?s\<lparr>ip_routes := ip_routes ?s, ip_ifaces := ip_ifaces ?s, ip_protocols := ?p # ip_protocols ?s\<rparr>)"
    using wf_ip_mem [OF wf, of "Suc (mem_n s)"] by (intro wf_ip_tables) (auto simp: wf_ip_def)
  with r show ?thesis by simp
qed

text \<open>Exactly the packets that pass every check of \<open>ip_input\<close> reach a transport protocol.\<close>

lemma ip_input_cases:
  assumes wf: "wf_net s" and dev: "dev \<in> set (devices s)" and len: "len \<le> length data"
  obtains (drop) "\<And>call. ip_input call data len dev s = Some s"
  | (deliver) ifp i hdr k where
      "network_device_get_interface dev NETWORK_INTERFACE_FAMILY_IP s = Some (Some ifp)" "if_heap s ifp = Some i"
      "20 \<le> len" "read_ip_hdr data = Some hdr" "unat (drop_bit 4 (ih_vhl hdr)) = 4"
      "4 * unat (ih_vhl hdr AND 0x0f) \<le> len" "unat (ntoh16 (ih_total hdr)) \<le> len"
      "cksum16 data (of_nat (4 * unat (ih_vhl hdr AND 0x0f))) 0 = Some 0"
      "ntoh16 (ih_offset hdr) AND 0x2000 = 0" "ntoh16 (ih_offset hdr) AND 0x1fff = 0"
      "ih_dst hdr \<in> {if_unicast i, if_broadcast i, IP_ADDR_BROADCAST}"
      "find_slot (\<lambda>p. ipp_type p = ih_protocol hdr) (ip_protocols s) = Some k"
      "\<And>call. ip_input call data len dev s =
         call (ipp_handler (ip_protocols s ! k)) (List.drop (4 * unat (ih_vhl hdr AND 0x0f)) data)
           (size_t_of_int (int (unat (ntoh16 (ih_total hdr))) - int (4 * unat (ih_vhl hdr AND 0x0f)))) (ih_src hdr) (ih_dst hdr) ifp s"
proof (cases "len < 20")
  case True
  then show thesis by (intro drop) (simp add: ip_input_def MIN_IP_HEADER_SIZE_def)
next
  case l20: False
  obtain r where r: "network_device_get_interface dev NETWORK_INTERFACE_FAMILY_IP s = Some r"
    and ri: "\<And>ifp. r = Some ifp \<Longrightarrow> \<exists>i. if_heap s ifp = Some i"
    using network_device_get_interface_spec [OF wf dev, of NETWORK_INTERFACE_FAMILY_IP] by auto
  show thesis
  proof (cases r)
    case None
    with r l20 show thesis by (intro drop) (simp add: ip_input_def MIN_IP_HEADER_SIZE_def)
  next
    case (Some ifp)
    with ri obtain i where i: "if_heap s ifp = Some i" by auto
    obtain hdr where hdr: "read_ip_hdr data = Some hdr"
      using l20 len by (simp add: read_ip_hdr_def MIN_IP_HEADER_SIZE_def)
    let ?hlen = "4 * unat (ih_vhl hdr AND 0x0f)"
    let ?tot = "unat (ntoh16 (ih_total hdr))"
    let ?off = "ntoh16 (ih_offset hdr)"
    let ?chk = "unat (drop_bit 4 (ih_vhl hdr)) \<noteq> IPV4 \<or> ?hlen > len \<or> ?tot > len"
    let ?chk2 = "?off AND 0x2000 \<noteq> 0 \<or> ?off AND 0x1fff \<noteq> 0 \<or>
      (ih_dst hdr \<noteq> if_unicast i \<and> ih_dst hdr \<noteq> if_broadcast i \<and> ih_dst hdr \<noteq> IP_ADDR_BROADCAST)"
    have "unat (ih_vhl hdr AND 0x0f) \<le> 15"
      using word_and_le1 [of "ih_vhl hdr" "0x0f"] by (simp add: word_le_nat_alt)
    then have "unat (of_nat ?hlen :: u16) = ?hlen" by (intro unat_of_nat_u16) simp
    then have cs: "\<not> ?chk \<Longrightarrow> \<exists>c. cksum16 data (of_nat ?hlen) 0 = Some c"
      using cksum16_value [of "of_nat ?hlen" data 0 LittleEndian] len by auto
    have eq: "ip_input call data len dev s =
      (if ?chk then Some s
       else do {
         sm \<leftarrow> cksum16 data (of_nat ?hlen) 0;
         if sm \<noteq> 0 then Some s
         else if ?chk2 then Some s
         else case find_slot (\<lambda>proto. ipp_type proto = ih_protocol hdr) (ip_protocols s) of
           None \<Rightarrow> Some s
         | Some k \<Rightarrow> call (ipp_handler (ip_protocols s ! k)) (List.drop ?hlen data) (size_t_of_int (int ?tot - int ?hlen))
             (ih_src hdr) (ih_dst hdr) ifp s})" for call
      using l20 r Some i hdr by (simp add: ip_input_def MIN_IP_HEADER_SIZE_def Let_def cong: if_cong)
    show thesis
    proof (cases "?chk \<or> cksum16 data (of_nat ?hlen) 0 \<noteq> Some 0 \<or> ?chk2 \<or>
        find_slot (\<lambda>proto. ipp_type proto = ih_protocol hdr) (ip_protocols s) = None")
      case True
      then have "ip_input call data len dev s = Some s" for call
        unfolding eq using cs by (auto simp del: not_less)
      then show thesis by (rule drop)
    next
      case False
      then obtain k where k: "find_slot (\<lambda>proto. ipp_type proto = ih_protocol hdr) (ip_protocols s) = Some k" by auto
      show thesis
        by (rule deliver [OF _ i _ hdr _ _ _ _ _ _ _ k])
          (use False k r Some l20 in \<open>simp_all add: eq IPV4_def, (auto simp: not_less)?\<close>)
    qed
  qed
qed

lemma size_t_diff: "b \<le> a \<Longrightarrow> a < 2 ^ 64 \<Longrightarrow> size_t_of_int (int a - int b) = a - b"
  by (simp add: size_t_of_int_def of_nat_diff [symmetric] del: of_nat_diff)

subsection \<open>What IP input relies on: the transport protocols\<close>

text \<open>A header of at least five words, covered by the total length; \<open>ip_input\<close> does not check this.\<close>

definition ip_lengths_ok :: "bytes \<Rightarrow> bool" where
  "ip_lengths_ok data \<longleftrightarrow>
     (case read_ip_hdr data of
        None \<Rightarrow> True
      | Some hdr \<Rightarrow> 20 \<le> 4 * unat (ih_vhl hdr AND 0x0f) \<and> 4 * unat (ih_vhl hdr AND 0x0f) \<le> unat (ntoh16 (ih_total hdr)))"

text \<open>
  The contract of the transport protocols: called on a ready interface with a buffer of at least the
  given length, a handler ends without undefined behaviour and the change of state is within \<open>upd\<close>.
\<close>

locale transport =
  fixes call :: "ip_handler \<Rightarrow> bytes \<Rightarrow> nat \<Rightarrow> u32 \<Rightarrow> u32 \<Rightarrow> nat \<Rightarrow> 'a ip_state_scheme \<Rightarrow> 'a ip_state_scheme option"
    and good :: "'a ip_state_scheme \<Rightarrow> bool" and upd :: "'a ip_state_scheme \<Rightarrow> 'a ip_state_scheme \<Rightarrow> bool"
  assumes good_wf: "good s \<Longrightarrow> wf_ip s"
    and upd_refl: "upd s s"
    and call_safe: "good s \<Longrightarrow> iface_ready s ifp \<Longrightarrow> len \<le> length data \<Longrightarrow> len \<le> MAX_IP_PAYLOAD_SIZE \<Longrightarrow>
      \<exists>s'. call h data len src dst ifp s = Some s' \<and> upd s s'"
begin

lemma ip_input_safe:
  assumes s: "good s" and dev: "dev \<in> set (devices s)" and len: "len \<le> length data" and ok: "ip_lengths_ok data"
  shows "\<exists>s'. ip_input call data len dev s = Some s' \<and> upd s s'"
proof -
  have wf: "wf_net s" using good_wf [OF s] by (simp add: wf_ip_def wf_arp_def)
  show ?thesis
  proof (cases rule: ip_input_cases [OF wf dev len])
    case 1
    then show ?thesis using upd_refl by blast
  next
    case (2 ifp i hdr k)
    let ?hlen = "4 * unat (ih_vhl hdr AND 0x0f)"
    let ?tot = "unat (ntoh16 (ih_total hdr))"
    have h: "20 \<le> ?hlen" "?hlen \<le> ?tot" using ok 2(4) by (simp_all add: ip_lengths_ok_def)
    have t: "?tot \<le> 65535" by (rule unat_u16_bound)
    from h t have "size_t_of_int (int ?tot - int ?hlen) = ?tot - ?hlen"
      by (intro size_t_diff) simp_all
    moreover have "iface_ready s ifp"
      using network_device_get_interface_spec [OF wf dev, of NETWORK_INTERFACE_FAMILY_IP] 2(1,2) by (auto simp: iface_ready_def)
    moreover have "?tot - ?hlen \<le> length (drop ?hlen data)" using 2(7) len by simp
    ultimately show ?thesis
      using call_safe [OF s, of ifp "?tot - ?hlen" "drop ?hlen data"] h t 2(13)
      by (auto simp: MAX_IP_PAYLOAD_SIZE_def MAX_IP_PACKET_SIZE_def MIN_IP_HEADER_SIZE_def)
  qed
qed

end

subsection \<open>Prefixes\<close>

definition prefix_mask :: "nat \<Rightarrow> u32" where
  "prefix_mask n = of_nat (2 ^ 32 - 2 ^ (32 - n))"

lemma prefix_mask_mono:
  assumes "prefix_mask n \<le> prefix_mask m" "n \<le> 32" "m \<le> 32"
  shows "n \<le> m"
proof -
  have u: "unat (prefix_mask k) = 2 ^ 32 - 2 ^ (32 - k)" for k
    unfolding prefix_mask_def unsigned_of_nat take_bit_eq_mod by simp
  have le: "(2 :: nat) ^ (32 - k) \<le> 2 ^ 32" for k by (rule power_increasing) simp_all
  from assms(1) have "(2 :: nat) ^ 32 - 2 ^ (32 - n) \<le> 2 ^ 32 - 2 ^ (32 - m)" by (simp add: word_le_nat_alt u)
  then have "(2 :: nat) ^ (32 - m) \<le> 2 ^ (32 - n)" using le [of n] le [of m] by linarith
  then have "32 - m \<le> 32 - n" by (simp add: power_increasing_iff)
  with assms(2,3) show ?thesis by simp
qed

lemma first_max_split:
  "case first_max f xs of
     None \<Rightarrow> xs = []
   | Some x \<Rightarrow> \<exists>pre post. xs = pre @ x # post \<and> (\<forall>y \<in> set pre. f y < f x) \<and> (\<forall>y \<in> set post. f y \<le> f x)"
proof (induction xs)
  case (Cons y ys)
  show ?case
  proof (cases "first_max f ys")
    case None
    with Cons show ?thesis by (auto simp: first_max_Cons intro!: exI [of _ "[]"])
  next
    case (Some x)
    with Cons obtain pre post where ps: "ys = pre @ x # post" "\<forall>z \<in> set pre. f z < f x" "\<forall>z \<in> set post. f z \<le> f x" by auto
    show ?thesis
    proof (cases "f y < f x")
      case True
      with ps have "y # ys = (y # pre) @ x # post" "\<forall>z \<in> set (y # pre). f z < f x" by auto
      moreover have "first_max f (y # ys) = Some x" using Some True by (simp add: first_max_Cons)
      ultimately show ?thesis using ps(3) by (simp only: option.case) blast
    next
      case False
      with Some ps have "first_max f (y # ys) = Some y" "\<forall>z \<in> set ys. f z \<le> f y"
        by (auto simp: first_max_Cons not_less intro: order_trans less_imp_le)
      then show ?thesis by (simp only: option.case) (rule exI [of _ "[]"], auto)
    qed
  qed
qed simp

section \<open>Properties\<close>

text \<open>A host with one Ethernet interface, a route to its network and a default gateway.\<close>

definition ip_host :: "u8 \<Rightarrow> u32 \<Rightarrow> (nat \<Rightarrow> timeval) \<Rightarrow> ip_state" where
  "ip_host k ip clk = arp_state.extend
     ((arp_host k ip clk)\<lparr>protocols := \<lparr>np_name = ''IP'', np_type = 0x800, np_queue = lqueue_init, np_handler = ip_input_handler\<rparr> #
        protocols (arp_host k ip clk)\<rparr>)
     (ip_state.fields [1]
        [\<lparr>ipp_name = ''UDP'', ipp_type = 0x11, ipp_handler = udp_input_handler\<rparr>,
         \<lparr>ipp_name = ''ICMP'', ipp_type = 0x01, ipp_handler = icmp_input_handler\<rparr>]
        [\<lparr>rt_network = 0, rt_netmask = 0, rt_nexthop = (ip AND 0xffffff) OR 0xfe000000, rt_iface = 1\<rparr>,
         \<lparr>rt_network = ip AND 0xffffff, rt_netmask = 0xffffff, rt_nexthop = 0, rt_iface = 1\<rparr>]
        0)"

lemmas ip_host_defs = ip_host_def arp_host_def arp_state.defs ip_state.defs

lemma ip_host_ok: "wf_ip (ip_host k ip clk)"
proof -
  have "wf_net (ip_host k ip clk)"
    by (simp add: ip_host_defs wf_net_def wf_ifaces_def wf_device_def zero_device_def wf_queue_def
      NETWORK_DEVICE_ADDR_LEN_def lqueue_init_def ether_setup_helper_def ether_consts)
  moreover have "wf_caches (caches (ip_host k ip clk))"
    by (simp add: ip_host_defs wf_caches_def ARP_CACHE_SIZE_def arp_free_def ETHER_ADDR_LEN_def arp_used_def)
  ultimately show ?thesis
    by (simp add: wf_ip_def wf_arp_def iface_ready_def) (simp add: ip_host_defs NETWORK_INTERFACE_FAMILY_IP_def)
qed

lemma ip_host_iface:
  "if_heap (ip_host k ip clk) 1 =
     Some \<lparr>ni_dev = Some 0, ni_family = 1, if_unicast = ip, if_netmask = 0xffffff, if_broadcast = ip OR 0xff000000\<rparr>"
  "network_device_get_interface 0 NETWORK_INTERFACE_FAMILY_IP (ip_host k ip clk) = Some (Some 1)"
  "dev_heap (ip_host k ip clk) 0 \<noteq> None" "devices (ip_host k ip clk) = [0]"
  by (simp_all add: ip_host_defs network_device_get_interface_def NETWORK_INTERFACE_FAMILY_IP_def ether_setup_helper_def)

lemmas ip_host_iface_Suc = ip_host_iface [unfolded One_nat_def]

text \<open>
  C12. A packet survives the trip: what \<open>ip_output_core\<close> hands to the device passes every check of
  \<open>ip_input\<close> on a host that owns the destination address and knows the protocol, even when the frame
  carries padding, and the transport protocol gets exactly the payload, the length, the source and the
  destination the sender gave.
\<close>

theorem ip_packet_roundtrip:
  assumes "len \<le> length data" "20 + len \<le> 65535" "if_heap s ifp = Some i" "ni_dev i = Some sdev" "dev_heap s sdev = Some d"
    and "network_device_get_interface dev NETWORK_INTERFACE_FAMILY_IP t = Some (Some rifp)" "if_heap t rifp = Some ri"
      "dst \<in> {if_unicast ri, if_broadcast ri, IP_ADDR_BROADCAST}" "ip_protocol_of protocol t = Some (name, h)"
  shows "\<exists>pkt. length pkt = 20 + len \<and>
    ip_output_core ifp protocol data len src dst nexthop ident 0 s = ip_output_device ifp pkt (20 + len) nexthop s \<and>
    (\<forall>call pad. ip_input call (pkt @ pad) (20 + len + length pad) dev t = call h (take len data @ pad) len src dst rifp t)"
proof -
  obtain k where k: "find_slot (\<lambda>p. ipp_type p = protocol) (ip_protocols t) = Some k" "ipp_handler (ip_protocols t ! k) = h"
    using assms(9) by (auto simp: ip_protocol_of_def)
  have len: "length (take len data) = len" using assms(1) by simp
  from ip_input_packet [OF assms(6,7,8) k(1), of "take len data"] ip_output_core_eq [OF assms(1-5)] assms(2) k(2)
  show ?thesis unfolding len by (intro exI [of _ "ip_packet protocol (take len data) src dst ident 0"]) (simp add: min_absorb2 assms(1))
qed

theorem ip_packet_roundtrip_witness:
  "\<exists>pkt. length pkt = 23 \<and>
    ip_output_core 1 0x11 [1, 2, 3] 3 0x010000c0 0x020000c0 0x020000c0 7 0 (ip_host 1 0x010000c0 (\<lambda>_. Timeval 0 0)) =
      ip_output_device 1 pkt 23 0x020000c0 (ip_host 1 0x010000c0 (\<lambda>_. Timeval 0 0)) \<and>
    (\<forall>call. ip_input call (pkt @ [0, 0]) 25 0 (ip_host 2 0x020000c0 (\<lambda>_. Timeval 0 0)) =
       call udp_input_handler [1, 2, 3, 0, 0] 3 0x010000c0 0x020000c0 1 (ip_host 2 0x020000c0 (\<lambda>_. Timeval 0 0)))"
proof -
  obtain d where d: "dev_heap (ip_host 1 0x010000c0 (\<lambda>_. Timeval 0 0)) 0 = Some d"
    using ip_host_iface(3) [of 1 "0x010000c0" "\<lambda>_. Timeval 0 0"] by auto
  have p: "ip_protocol_of 0x11 (ip_host k ip clk) = Some (''UDP'', udp_input_handler)" for k ip clk
    by (simp add: ip_protocol_of_def ip_host_defs)
  from ip_packet_roundtrip [OF _ _ ip_host_iface(1) _ d ip_host_iface(2) ip_host_iface(1) _ p,
      of 3 "[1, 2, 3]" "0x020000c0" "0x020000c0" "0x010000c0" "0x020000c0" 7 2 "\<lambda>_. Timeval 0 0"]
  obtain pkt where pkt: "length pkt = 23"
    "ip_output_core 1 0x11 [1, 2, 3] 3 0x010000c0 0x020000c0 0x020000c0 7 0 (ip_host 1 0x010000c0 (\<lambda>_. Timeval 0 0)) =
      ip_output_device 1 pkt 23 0x020000c0 (ip_host 1 0x010000c0 (\<lambda>_. Timeval 0 0))"
    "\<And>call pad. ip_input call (pkt @ pad) (20 + 3 + length pad) 0 (ip_host 2 0x020000c0 (\<lambda>_. Timeval 0 0)) =
      call udp_input_handler (take 3 [1, 2, 3] @ pad) 3 0x010000c0 0x020000c0 1 (ip_host 2 0x020000c0 (\<lambda>_. Timeval 0 0))"
    by auto
  from pkt(3) [of _ "[0, 0]"] pkt(1,2) show ?thesis by (intro exI [of _ pkt]) simp
qed

lemma filter_split:
  "filter P xs = ys @ z # zs \<Longrightarrow> \<exists>us ts. xs = us @ z # ts \<and> P z \<and> filter P us = ys \<and> filter P ts = zs"
proof (induction xs arbitrary: ys)
  case (Cons x xs)
  show ?case
  proof (cases "P x \<and> ys = []")
    case True
    with Cons.prems show ?thesis by (intro exI [of _ "[]"] exI [of _ xs]) auto
  next
    case False
    with Cons.prems have "filter P xs = (if P x then tl ys else ys) @ z # zs"
      by (cases ys) (auto split: if_splits)
    from Cons.IH [OF this] obtain us ts where "xs = us @ z # ts" "P z" "filter P us = (if P x then tl ys else ys)" "filter P ts = zs"
      by blast
    with False Cons.prems show ?thesis by (intro exI [of _ "x # us"] exI [of _ ts]) (cases ys; auto split: if_splits)
  qed
qed simp

text \<open>
  C11. Route lookup is longest-prefix match: no route is returned exactly when none matches; otherwise
  the result matches, its prefix is at least as long as that of every matching route when the masks
  are prefix masks, and among equally long ones the first in the table (the last one added) wins.
\<close>

theorem ip_route_longest_prefix:
  assumes "\<forall>r \<in> set routes. plen r \<le> 32 \<and> ntoh32 (rt_netmask r) = prefix_mask (plen r)"
  shows "case ip_route_lookup dst routes of
      None \<Rightarrow> \<forall>r \<in> set routes. dst AND rt_netmask r \<noteq> rt_network r
    | Some route \<Rightarrow> \<exists>pre post. routes = pre @ route # post \<and> dst AND rt_netmask route = rt_network route \<and>
        (\<forall>r \<in> set pre. dst AND rt_netmask r = rt_network r \<longrightarrow> plen r < plen route) \<and>
        (\<forall>r \<in> set post. dst AND rt_netmask r = rt_network r \<longrightarrow> plen r \<le> plen route)"
proof -
  let ?f = "\<lambda>r. ntoh32 (rt_netmask r)"
  let ?ms = "filter (route_matches dst) routes"
  have mono: "plen q \<le> plen r" if "?f q \<le> ?f r" "q \<in> set routes" "r \<in> set routes" for q r
    using assms that prefix_mask_mono [of "plen q" "plen r"] by simp
  have strict: "plen q < plen r" if "?f q < ?f r" "q \<in> set routes" "r \<in> set routes" for q r
  proof -
    have "plen q \<noteq> plen r" using assms that by (metis less_irrefl)
    with mono [of q r] that show ?thesis by (simp add: less_imp_le)
  qed
  show ?thesis
  proof (cases "first_max ?f ?ms")
    case None
    then have "?ms = []" using first_max_split [of ?ms ?f] by simp
    with None show ?thesis by (auto simp: ip_route_lookup_spec filter_empty_conv route_matches_def)
  next
    case (Some route)
    with first_max_split [of ?ms ?f] obtain pre post where
      ms: "?ms = pre @ route # post" "\<forall>y \<in> set pre. ?f y < ?f route" "\<forall>y \<in> set post. ?f y \<le> ?f route" by auto
    from filter_split [OF ms(1)] obtain us ts where
      r: "routes = us @ route # ts" "route_matches dst route" "filter (route_matches dst) us = pre" "filter (route_matches dst) ts = post"
      by blast
    have "plen q < plen route" if "q \<in> set us" "route_matches dst q" for q
      using that r ms(2) strict [of q route] by auto
    moreover have "plen q \<le> plen route" if "q \<in> set ts" "route_matches dst q" for q
      using that r ms(3) mono [of q route] by auto
    ultimately show ?thesis
      using Some r(1,2) unfolding ip_route_lookup_spec route_matches_def by (simp only: option.case) blast
  qed
qed

theorem ip_route_longest_prefix_witness:
  "ip_route_lookup 0x020000c0 (ip_routes (ip_host 1 0x010000c0 (\<lambda>_. Timeval 0 0))) =
     Some \<lparr>rt_network = 0x0000c0, rt_netmask = 0xffffff, rt_nexthop = 0, rt_iface = 1\<rparr>"
proof -
  let ?rs = "ip_routes (ip_host 1 0x010000c0 (\<lambda>_. Timeval 0 0))"
  let ?plen = "\<lambda>r. if rt_netmask r = 0 then 0 else (24 :: nat)"
  have rs: "?rs = [\<lparr>rt_network = 0, rt_netmask = 0, rt_nexthop = 0xfe0000c0, rt_iface = 1\<rparr>,
      \<lparr>rt_network = 0xc0, rt_netmask = 0xffffff, rt_nexthop = 0, rt_iface = 1\<rparr>]"
    by (simp add: ip_host_defs)
  have "\<forall>r \<in> set ?rs. ?plen r \<le> 32 \<and> ntoh32 (rt_netmask r) = prefix_mask (?plen r)"
    unfolding rs by (simp add: prefix_mask_def ntoh32_eq) (simp add: byteswap32_def)
  from ip_route_longest_prefix [OF this, of "0x020000c0"] show ?thesis
    unfolding rs by (auto simp: Cons_eq_append_conv split: option.splits)
qed



text \<open>
  C21. \<open>ip_input\<close> hands a packet to a transport protocol only when the receiving device has an IP
  interface, the version is 4, header and total length fit the received data, the header checksum
  verifies, the packet is not a fragment, the destination is the address of the interface or a broadcast
  address, and the protocol is registered; every other packet is dropped without effect.
\<close>

theorem ip_input_accepts_only:
  assumes "wf_net s" "dev \<in> set (devices s)" "len \<le> length data"
  shows "(\<forall>call. ip_input call data len dev s = Some s) \<or>
    (\<exists>ifp i hdr name h hlen tot. network_device_get_interface dev NETWORK_INTERFACE_FAMILY_IP s = Some (Some ifp) \<and>
      if_heap s ifp = Some i \<and> read_ip_hdr data = Some hdr \<and> hlen = 4 * unat (ih_vhl hdr AND 0x0f) \<and>
      tot = unat (ntoh16 (ih_total hdr)) \<and> unat (drop_bit 4 (ih_vhl hdr)) = 4 \<and> 20 \<le> len \<and> hlen \<le> len \<and> tot \<le> len \<and>
      carry_fold (sum16 (take hlen data)) = 65535 \<and>
      ntoh16 (ih_offset hdr) AND 0x3fff = 0 \<and> ih_dst hdr \<in> {if_unicast i, if_broadcast i, IP_ADDR_BROADCAST} \<and>
      ip_protocol_of (ih_protocol hdr) s = Some (name, h) \<and>
      (\<forall>call. ip_input call data len dev s = call h (drop hlen data) (size_t_of_int (int tot - int hlen)) (ih_src hdr) (ih_dst hdr) ifp s))"
proof (cases rule: ip_input_cases [OF assms])
  case 1
  then show ?thesis by blast
next
  case (2 ifp i hdr k)
  let ?hlen = "4 * unat (ih_vhl hdr AND 0x0f)"
  have "unat (ih_vhl hdr AND 0x0f) \<le> 15"
    using word_and_le1 [of "ih_vhl hdr" "0x0f"] by (simp add: word_le_nat_alt)
  then have u: "unat (of_nat ?hlen :: u16) = ?hlen" by (intro unat_of_nat_u16) simp
  then have "\<exists>c. cksum16 data (of_nat ?hlen) 0 = Some c \<and> unat c = 65535 - carry_fold (sum16 (take ?hlen data))"
    using cksum16_value [of "of_nat ?hlen" data 0 LittleEndian] 2(6) assms(3) by auto
  then have c: "carry_fold (sum16 (take ?hlen data)) = 65535"
    using 2(8) carry_fold_le [of "sum16 (take ?hlen data)"] by auto
  have "w AND 0x3fff = (w AND 0x2000) OR (w AND 0x1fff)" for w :: u16
    by (simp flip: bit.conj_disj_distrib)
  then have off: "ntoh16 (ih_offset hdr) AND 0x3fff = 0" using 2(9,10) by simp
  have p: "ip_protocol_of (ih_protocol hdr) s = Some (ipp_name (ip_protocols s ! k), ipp_handler (ip_protocols s ! k))"
    using 2(12) by (simp add: ip_protocol_of_def)
  show ?thesis
    by (rule disjI2, rule exI [of _ ifp], rule exI [of _ i], rule exI [of _ hdr], intro exI conjI)
      (use 2 c off p in \<open>rule refl | assumption | blast\<close>)+
qed

theorem ip_input_accepts_only_witness:
  "(\<forall>call. ip_input call (replicate 20 0) 20 0 (ip_host 1 0x010000c0 (\<lambda>_. Timeval 0 0)) = Some (ip_host 1 0x010000c0 (\<lambda>_. Timeval 0 0)))"
proof -
  let ?s = "ip_host 1 0x010000c0 (\<lambda>_. Timeval 0 0)"
  have "wf_net ?s" "0 \<in> set (devices ?s)"
    using ip_host_ok [of 1 "0x010000c0" "\<lambda>_. Timeval 0 0"] by (simp_all add: wf_ip_def wf_arp_def ip_host_iface)
  moreover have "read_ip_hdr (replicate 20 0) = Some h \<Longrightarrow> unat (drop_bit 4 (ih_vhl h)) \<noteq> 4" for h
    by (auto simp: read_ip_hdr_def MIN_IP_HEADER_SIZE_def)
  ultimately show ?thesis
    using ip_input_accepts_only [of ?s 0 20 "replicate 20 0"] by auto
qed

end
