(* ===== verification/Icmp.thy ===== *)
theory Icmp
  imports Ip
begin

text \<open>
  ICMP, \<^verbatim>\<open>src/lib/icmp.c\<close>: messages with their checksum, the echo reply, and the registration with the
  IP layer. The length argument of \<^verbatim>\<open>cksum16\<close> is 16 bits wide, so that a \<^verbatim>\<open>size_t\<close> is truncated there as
  in the code. \<^verbatim>\<open>icmp_dump\<close> only prints what the functions that call it have already read.
\<close>

section \<open>Definitions\<close>

definition ICMP_TYPE_ECHOREPLY :: u8 where "ICMP_TYPE_ECHOREPLY = 0"
definition ICMP_TYPE_DEST_UNREACH :: u8 where "ICMP_TYPE_DEST_UNREACH = 3"
definition ICMP_TYPE_SOURCE_QUENCH :: u8 where "ICMP_TYPE_SOURCE_QUENCH = 4"
definition ICMP_TYPE_REDIRECT :: u8 where "ICMP_TYPE_REDIRECT = 5"
definition ICMP_TYPE_ECHO :: u8 where "ICMP_TYPE_ECHO = 8"
definition ICMP_TYPE_TIME_EXCEEDED :: u8 where "ICMP_TYPE_TIME_EXCEEDED = 11"
definition ICMP_TYPE_PARAM_PROBLEM :: u8 where "ICMP_TYPE_PARAM_PROBLEM = 12"
definition ICMP_TYPE_TIMESTAMP :: u8 where "ICMP_TYPE_TIMESTAMP = 13"
definition ICMP_TYPE_TIMESTAMPREPLY :: u8 where "ICMP_TYPE_TIMESTAMPREPLY = 14"
definition ICMP_TYPE_INFO_REQUEST :: u8 where "ICMP_TYPE_INFO_REQUEST = 15"
definition ICMP_TYPE_INFO_REPLY :: u8 where "ICMP_TYPE_INFO_REPLY = 16"

lemmas icmp_consts = ICMP_TYPE_ECHOREPLY_def ICMP_TYPE_DEST_UNREACH_def ICMP_TYPE_SOURCE_QUENCH_def ICMP_TYPE_REDIRECT_def
  ICMP_TYPE_ECHO_def ICMP_TYPE_TIME_EXCEEDED_def ICMP_TYPE_PARAM_PROBLEM_def ICMP_TYPE_TIMESTAMP_def
  ICMP_TYPE_TIMESTAMPREPLY_def ICMP_TYPE_INFO_REQUEST_def ICMP_TYPE_INFO_REPLY_def

definition ICMP_BUFSIZ :: nat where "ICMP_BUFSIZ = MAX_IP_PAYLOAD_SIZE"

record icmp_header =
  ic_type :: u8
  ic_code :: u8
  ic_sum :: u16
  ic_values :: u32

definition icmp_header_size :: nat where "icmp_header_size = 8"

definition icmp_header_bytes :: "icmp_header \<Rightarrow> bytes" where
  "icmp_header_bytes h = [ic_type h, ic_code h] @ store16 (ic_sum h) @ store32 (ic_values h)"

definition read_icmp_header :: "bytes \<Rightarrow> icmp_header option" where
  "read_icmp_header b =
     (if length b < icmp_header_size then None
      else Some \<lparr>ic_type = b ! 0, ic_code = b ! 1, ic_sum = load16 (b ! 2) (b ! 3),
        ic_values = load32 (b ! 4) (b ! 5) (b ! 6) (b ! 7)\<rparr>)"

definition icmp_type_ntoa :: "u8 \<Rightarrow> string" where
  "icmp_type_ntoa type =
     (if type = ICMP_TYPE_ECHOREPLY then ''EchoReply''
      else if type = ICMP_TYPE_DEST_UNREACH then ''DestinationUnreachable''
      else if type = ICMP_TYPE_SOURCE_QUENCH then ''SourceQuench''
      else if type = ICMP_TYPE_REDIRECT then ''Redirect''
      else if type = ICMP_TYPE_ECHO then ''Echo''
      else if type = ICMP_TYPE_TIME_EXCEEDED then ''TimeExceeded''
      else if type = ICMP_TYPE_PARAM_PROBLEM then ''ParameterProblem''
      else if type = ICMP_TYPE_TIMESTAMP then ''Timestamp''
      else if type = ICMP_TYPE_TIMESTAMPREPLY then ''TimestampReply''
      else if type = ICMP_TYPE_INFO_REQUEST then ''InformationRequest''
      else if type = ICMP_TYPE_INFO_REPLY then ''InformationReply''
      else ''Unknown'')"

definition icmp_output ::
  "u8 \<Rightarrow> u8 \<Rightarrow> u32 \<Rightarrow> bytes \<Rightarrow> nat \<Rightarrow> u32 \<Rightarrow> u32 \<Rightarrow> 'a ip_state_scheme \<Rightarrow> (int \<times> 'a ip_state_scheme) option" where
  "icmp_output type code values data len src dst s = do {
     let hdr = \<lparr>ic_type = type, ic_code = code, ic_sum = 0, ic_values = values\<rparr>;
     payload \<leftarrow> mem_read data 0 len;
     if icmp_header_size + len > ICMP_BUFSIZ then None
     else do {
       let msg_len = icmp_header_size + len;
       sm \<leftarrow> cksum16 (icmp_header_bytes hdr @ payload) (of_nat msg_len) 0;
       ip_send_packet ICMP_PROTOCOL (icmp_header_bytes (hdr\<lparr>ic_sum := sm\<rparr>) @ payload) msg_len src dst s
     }
   }"

definition icmp_input :: "bytes \<Rightarrow> nat \<Rightarrow> u32 \<Rightarrow> u32 \<Rightarrow> nat \<Rightarrow> 'a ip_state_scheme \<Rightarrow> 'a ip_state_scheme option" where
  "icmp_input data len src dst iface s =
     (if len < icmp_header_size then Some s
      else do {
        hdr \<leftarrow> read_icmp_header data;
        sm \<leftarrow> cksum16 data (of_nat len) 0;
        if sm \<noteq> 0 then Some s
        else do {
          i \<leftarrow> if_heap s iface;
          if ic_type hdr = ICMP_TYPE_ECHO then do {
            let dst = (if dst \<noteq> if_unicast i then if_unicast i else dst);
            (_, s) \<leftarrow> icmp_output ICMP_TYPE_ECHOREPLY (ic_code hdr) (ic_values hdr) (drop icmp_header_size data)
              (len - icmp_header_size) dst src s;
            Some s
          }
          else Some s
        }
      })"

definition icmp_init :: "'a ip_state_scheme \<Rightarrow> int \<times> 'a ip_state_scheme" where
  "icmp_init s =
     (let (r, s) = ip_register_protocol ''ICMP'' ICMP_PROTOCOL icmp_input_handler s
      in if r = -1 then (-1, s) else (0, s))"

section \<open>Lemmas\<close>

lemma length_icmp_header_bytes [simp]: "length (icmp_header_bytes h) = 8"
  by (simp add: icmp_header_bytes_def)

lemma read_icmp_header_bytes [simp]:
  fixes h :: icmp_header
  shows "read_icmp_header (icmp_header_bytes h @ rest) = Some h"
  by (cases h) (simp add: read_icmp_header_def icmp_header_bytes_def icmp_header_size_def)

interpretation icm: checksummed "\<lambda>c (h :: icmp_header, payload). icmp_header_bytes (h\<lparr>ic_sum := c\<rparr>) @ payload"
  "\<lambda>(h, payload). 8 + length payload" "\<lambda>_. 0" "\<lambda>(h, payload). 8 + length payload < 65536"
  by unfold_locales (auto simp: icmp_header_bytes_def unat_load16)

text \<open>A message with its checksum in place.\<close>

definition icmp_message :: "u8 \<Rightarrow> u8 \<Rightarrow> u32 \<Rightarrow> bytes \<Rightarrow> bytes" where
  "icmp_message type code values payload =
     (let h = \<lparr>ic_type = type, ic_code = code, ic_sum = 0, ic_values = values\<rparr>
      in icmp_header_bytes (h\<lparr>ic_sum := the (cksum16 (icmp_header_bytes h @ payload) (of_nat (8 + length payload)) 0)\<rparr>) @ payload)"

lemma length_icmp_message [simp]: "length (icmp_message type code values payload) = 8 + length payload"
  by (simp add: icmp_message_def Let_def)

lemma drop_icmp_message [simp]: "drop 8 (icmp_message type code values payload) = payload"
  by (simp add: icmp_message_def Let_def)

lemma icmp_filled:
  assumes "8 + length payload < 65536"
  shows "\<exists>c. cksum16 (icmp_header_bytes \<lparr>ic_type = type, ic_code = code, ic_sum = 0, ic_values = values\<rparr> @ payload)
      (of_nat (8 + length payload)) 0 = Some c \<and>
    cksum16 (icmp_header_bytes \<lparr>ic_type = type, ic_code = code, ic_sum = c, ic_values = values\<rparr> @ payload)
      (of_nat (8 + length payload)) 0 = Some 0"
  using icm.fill_exists [of "(\<lparr>ic_type = type, ic_code = code, ic_sum = 0, ic_values = values\<rparr>, payload)"]
    icm.filled_verifies [of "(\<lparr>ic_type = type, ic_code = code, ic_sum = 0, ic_values = values\<rparr>, payload)"] assms
  by auto

lemma icmp_message_checksum:
  "8 + length payload < 65536 \<Longrightarrow> cksum16 (icmp_message type code values payload) (of_nat (8 + length payload)) 0 = Some 0"
  using icmp_filled [of payload type code "values"] by (auto simp: icmp_message_def)

lemma icmp_output_eq:
  assumes "len \<le> length data" "8 + len \<le> MAX_IP_PAYLOAD_SIZE"
  shows "icmp_output type code values data len src dst s =
    ip_send_packet ICMP_PROTOCOL (icmp_message type code values (take len data)) (8 + len) src dst s"
proof -
  have "8 + length (take len data) < 65536" "length (take len data) = len"
    using assms by (simp_all add: MAX_IP_PAYLOAD_SIZE_def MAX_IP_PACKET_SIZE_def MIN_IP_HEADER_SIZE_def)
  with icmp_filled [of "take len data" type code "values"] assms show ?thesis
    by (auto simp: icmp_output_def icmp_message_def Let_def icmp_header_size_def ICMP_BUFSIZ_def)
qed

lemma icmp_input_eq:
  assumes i: "if_heap s iface = Some i" and len: "8 \<le> len" "len \<le> length data" "len \<le> MAX_IP_PAYLOAD_SIZE"
    and hdr: "read_icmp_header data = Some hdr"
  shows "icmp_input data len src dst iface s =
    (if cksum16 data (of_nat len) 0 = Some 0 \<and> ic_type hdr = ICMP_TYPE_ECHO
     then map_option snd (ip_send_packet ICMP_PROTOCOL
       (icmp_message ICMP_TYPE_ECHOREPLY (ic_code hdr) (ic_values hdr) (take (len - 8) (drop 8 data))) len (if_unicast i) src s)
     else Some s)"
proof -
  have "unat (of_nat len :: u16) = len"
    using len(3) by (intro unat_of_nat_u16) (simp add: MAX_IP_PAYLOAD_SIZE_def MAX_IP_PACKET_SIZE_def)
  then obtain c where "cksum16 data (of_nat len) 0 = Some c"
    using cksum16_value [of "of_nat len" data 0 LittleEndian] len(2) by auto
  moreover have "icmp_output ICMP_TYPE_ECHOREPLY (ic_code hdr) (ic_values hdr) (drop 8 data) (len - 8) (if_unicast i) src s =
      ip_send_packet ICMP_PROTOCOL
       (icmp_message ICMP_TYPE_ECHOREPLY (ic_code hdr) (ic_values hdr) (take (len - 8) (drop 8 data))) len (if_unicast i) src s"
    using icmp_output_eq [of "len - 8" "drop 8 data"] len by (simp add: diff_le_mono)
  ultimately show ?thesis
    using i len hdr by (auto simp: icmp_input_def icmp_header_size_def Let_def map_option_case split_beta bind_eq_Some_conv split: option.splits)
qed

lemma icmp_input_out:
  assumes wf: "wf_ip s" and rdy: "iface_ready s iface" and len: "len \<le> length data" "len \<le> MAX_IP_PAYLOAD_SIZE"
  shows "\<exists>s'. icmp_input data len src dst iface s = Some s' \<and> ip_out s s'"
proof (cases "len < 8")
  case True
  then show ?thesis by (auto simp: icmp_input_def icmp_header_size_def)
next
  case False
  obtain i where i: "if_heap s iface = Some i" using rdy by (auto simp: iface_ready_def)
  obtain hdr where hdr: "read_icmp_header data = Some hdr"
    using False len by (simp add: read_icmp_header_def icmp_header_size_def)
  let ?m = "icmp_message ICMP_TYPE_ECHOREPLY (ic_code hdr) (ic_values hdr) (take (len - 8) (drop 8 data))"
  have "length ?m = len" using False len by (simp add: min_absorb2 diff_le_mono)
  then have "len \<le> length ?m" "20 + length ?m < 2 ^ 64"
    using len(2) by (simp_all add: MAX_IP_PAYLOAD_SIZE_def MAX_IP_PACKET_SIZE_def MIN_IP_HEADER_SIZE_def)
  from ip_send_packet_out [OF wf this, of ICMP_PROTOCOL "if_unicast i" src] icmp_input_eq [OF i _ len hdr] False
  show ?thesis by auto
qed

lemma icmp_init_wf:
  assumes "wf_ip s"
  shows "wf_ip (snd (icmp_init s))"
  using ip_register_protocol_wf [OF assms, of "''ICMP''" ICMP_PROTOCOL icmp_input_handler]
  by (simp add: icmp_init_def split_beta Let_def)

section \<open>Properties\<close>

text \<open>
  C18. An echo request with a valid checksum is answered by an echo reply to its sender with the same
  code, identifier, sequence number and payload and a valid checksum, sent from the address of the
  receiving interface even when the request was broadcast; any other message changes nothing.
\<close>

theorem icmp_echo_reply:
  assumes "wf_ip s" "if_heap s iface = Some i" "ni_dev i = Some dev" "ni_family i = NETWORK_INTERFACE_FAMILY_IP"
    and "8 + length payload \<le> MAX_IP_PAYLOAD_SIZE"
  shows "\<exists>reply r s'. length reply = 8 + length payload \<and> cksum16 reply (of_nat (length reply)) 0 = Some 0 \<and>
      (\<exists>hdr. read_icmp_header reply = Some hdr \<and> ic_type hdr = ICMP_TYPE_ECHOREPLY \<and> ic_code hdr = code \<and> ic_values hdr = vals) \<and>
      drop 8 reply = payload \<and>
      ip_send_packet ICMP_PROTOCOL reply (length reply) (if_unicast i) src s = Some (r, s') \<and>
      icmp_input (icmp_message ICMP_TYPE_ECHO code vals payload @ pad) (8 + length payload) src dst iface s = Some s' \<and>
      (\<forall>type. type \<noteq> ICMP_TYPE_ECHO \<longrightarrow>
         icmp_input (icmp_message type code vals payload @ pad) (8 + length payload) src dst iface s = Some s)"
proof -
  let ?r = "icmp_message ICMP_TYPE_ECHOREPLY code vals payload"
  let ?n = "8 + length payload"
  have n: "?n < 65536" "?n \<le> 65515" using assms(5) by (simp_all add: MAX_IP_PAYLOAD_SIZE_def MAX_IP_PACKET_SIZE_def MIN_IP_HEADER_SIZE_def)
  then have "unat (of_nat ?n :: u16) = ?n" by (intro unat_of_nat_u16) simp
  then have ck: "cksum16 (icmp_message type code vals payload @ pad) (of_nat ?n) 0 = Some 0" for type
    using icmp_message_checksum [OF n(1), of type code vals] by (subst cksum16_prefix) simp_all
  have hdr: "\<exists>c. read_icmp_header (icmp_message type code vals payload @ z) =
      Some \<lparr>ic_type = type, ic_code = code, ic_sum = c, ic_values = vals\<rparr>" for type z
    by (auto simp: icmp_message_def Let_def)
  have pl: "drop 8 (icmp_message type code vals payload @ z) = payload @ z" for type z
    by (simp add: icmp_message_def Let_def)
  have inp: "icmp_input (icmp_message type code vals payload @ pad) ?n src dst iface s =
      (if type = ICMP_TYPE_ECHO then map_option snd (ip_send_packet ICMP_PROTOCOL ?r ?n (if_unicast i) src s) else Some s)" for type
  proof -
    obtain c where c: "read_icmp_header (icmp_message type code vals payload @ pad) =
      Some \<lparr>ic_type = type, ic_code = code, ic_sum = c, ic_values = vals\<rparr>" using hdr by blast
    show ?thesis
      using icmp_input_eq [OF assms(2) _ _ assms(5) c, of src dst] ck by (simp add: pl)
  qed
  obtain r s' where s': "ip_send_packet ICMP_PROTOCOL ?r ?n (if_unicast i) src s = Some (r, s')"
    using ip_send_packet_out [OF assms(1), of ?n ?r ICMP_PROTOCOL "if_unicast i" src] n by auto
  show ?thesis
    by (intro exI [of _ ?r] exI [of _ r] exI [of _ s'])
      (use icmp_message_checksum [OF n(1), of ICMP_TYPE_ECHOREPLY code vals] hdr [of ICMP_TYPE_ECHOREPLY "[]"]
         pl [of ICMP_TYPE_ECHOREPLY "[]"] inp s' in auto)
qed

theorem icmp_echo_reply_witness:
  "\<exists>s'. icmp_input (icmp_message ICMP_TYPE_ECHO 0 0x01000080 [0x31, 0x32, 0x33]) 11 0x020000c0 0xffffffff 1
      (ip_host 1 0x010000c0 (\<lambda>_. Timeval 0 0)) = Some s'"
proof -
  have "8 + length [0x31, 0x32, 0x33 :: u8] \<le> MAX_IP_PAYLOAD_SIZE"
    by (simp add: MAX_IP_PAYLOAD_SIZE_def MAX_IP_PACKET_SIZE_def MIN_IP_HEADER_SIZE_def)
  from icmp_echo_reply [OF ip_host_ok [of 1 "0x010000c0" "\<lambda>_. Timeval 0 0"] ip_host_iface(1) _ _ this, where code = 0
      and vals = "0x01000080" and src = "0x020000c0" and dst = "0xffffffff" and pad = "[]"]
  show ?thesis by (auto simp: NETWORK_INTERFACE_FAMILY_IP_def)
qed

text \<open>
  C38. The total length of an IP packet is never compared with its header length. A packet that
  passes every check of \<open>ip_input\<close> but claims to be shorter than its header is handed to ICMP with a
  length that has wrapped around, and \<open>icmp_input\<close> reads outside the received data.
\<close>

theorem ip_total_length_unchecked:
  assumes "network_device_get_interface dev NETWORK_INTERFACE_FAMILY_IP s = Some (Some ifp)" "if_heap s ifp = Some i"
    and "ip_protocol_of ICMP_PROTOCOL s = Some (name, icmp_input_handler)" "call icmp_input_handler = icmp_input"
    and "tot < 20" "length pad \<le> 60000"
    and "hdr = ip_hdr_blank ICMP_PROTOCOL (of_nat tot) src (if_unicast i) ident 0"
    and "cksum16 (ip_hdr_bytes hdr) 20 0 = Some c"
  shows "ip_input call (ip_hdr_bytes (hdr\<lparr>ih_sum := c\<rparr>) @ pad) (20 + length pad) dev s = None"
proof -
  let ?d = "ip_hdr_bytes (hdr\<lparr>ih_sum := c\<rparr>) @ pad"
  obtain k where k: "find_slot (\<lambda>p. ipp_type p = ICMP_PROTOCOL) (ip_protocols s) = Some k" "ipp_handler (ip_protocols s ! k) = icmp_input_handler"
    using assms(3) by (auto simp: ip_protocol_of_def)
  have "ih_sum hdr = 0" using assms(7) by (simp add: ip_hdr_blank_def)
  with ip_hdr_filled [of hdr] assms(8) have "cksum16 (ip_hdr_bytes (hdr\<lparr>ih_sum := c\<rparr>)) 20 0 = Some 0" by auto
  then have ck: "cksum16 ?d 20 0 = Some 0" by (simp add: cksum16_prefix)
  have tot: "unat (of_nat tot :: u16) = tot" using assms(5) by (intro unat_of_nat_u16) simp
  let ?len = "size_t_of_int (int tot - 20)"
  have "(int tot - 20) mod 2 ^ 64 = (int tot - 20 + 2 ^ 64) mod 2 ^ 64" by (rule mod_add_self2 [symmetric])
  also have "\<dots> = int tot - 20 + 2 ^ 64" using assms(5) by (intro mod_pos_pos_trivial) simp_all
  finally have len: "?len = 2 ^ 64 - (20 - tot)" using assms(5) by (simp add: size_t_of_int_def)
  have eq: "ip_input call ?d (20 + length pad) dev s = icmp_input pad ?len src (if_unicast i) ifp s"
    using assms(1,2,4,5) k ck tot unfolding assms(7)
    by (simp add: ip_input_def MIN_IP_HEADER_SIZE_def ip_hdr_blank_def IPV4_def Let_def)
  have l: "?len = 65536 - (20 - tot) + 281474976710655 * 65536" unfolding len using assms(5) by simp
  have "unat (of_nat ?len :: u16) = ?len mod 65536" unfolding unsigned_of_nat take_bit_eq_mod by simp
  also have "\<dots> = (65536 - (20 - tot)) mod 65536" unfolding l by (rule mod_mult_self1)
  also have "\<dots> = 65536 - (20 - tot)" using assms(5) by simp
  finally have "length pad < unat (of_nat ?len :: u16)" using assms(5,6) by linarith
  then have "cksum16 pad (of_nat ?len) 0 = None" by (rule cksum16_overrun)
  moreover have "\<not> ?len < 8" unfolding l by simp
  ultimately show ?thesis
    unfolding eq icmp_input_def icmp_header_size_def by (cases "read_icmp_header pad") (simp_all only: if_False bind.simps)
qed

theorem ip_total_length_unchecked_witness:
  "\<exists>c. ip_input (\<lambda>_. icmp_input)
     (ip_hdr_bytes ((ip_hdr_blank ICMP_PROTOCOL 10 0x020000c0 0x010000c0 0 0)\<lparr>ih_sum := c\<rparr>)) 20 0
     (ip_host 1 0x010000c0 (\<lambda>_. Timeval 0 0)) = None"
proof -
  let ?h = "ip_hdr_blank ICMP_PROTOCOL 10 0x020000c0 0x010000c0 0 0"
  have "ih_sum ?h = 0" by (simp add: ip_hdr_blank_def)
  then obtain c where c: "cksum16 (ip_hdr_bytes ?h) 20 0 = Some c" using ip_hdr_filled by blast
  have p: "ip_protocol_of ICMP_PROTOCOL (ip_host 1 0x010000c0 (\<lambda>_. Timeval 0 0)) = Some (''ICMP'', icmp_input_handler)"
    by (simp add: ip_protocol_of_def ip_host_defs ICMP_PROTOCOL_def)
  from ip_total_length_unchecked [OF ip_host_iface(2,1) p, of "\<lambda>_. icmp_input" 10 "[]" ?h "0x020000c0" 0 c] c
  show ?thesis by auto
qed

end
