(* ===== verification/Sched.thy ===== *)
theory Sched
  imports Stack_Prelude
begin

text \<open>
  Sleeping and waking, \<^verbatim>\<open>src/handler/synchronize.c\<close>. A scheduling context is its counters and its
  condition variable; the variable is the list of threads blocked on it and the list of threads
  that were woken and wait for the mutex. \<^verbatim>\<open>sched_sleep\<close> is split where it gives the mutex away, at
  \<^verbatim>\<open>pthread_cond_wait\<close>: \<open>sched_sleep_begin\<close> is what happens before and \<open>sched_sleep_end\<close> what happens
  once the thread has the mutex again. Threads are numbers.

  The interleavings are a step relation. Its invariant says what the counters mean; the properties
  say who hears an interrupt.
\<close>

section \<open>Definitions\<close>

record sched_ctx =
  sc_wait :: "nat list"
  sc_ready :: "nat list"
  sc_interrupted :: int
  sc_wc :: int

definition sched_ctx_init :: "sched_ctx \<Rightarrow> int \<times> sched_ctx" where
  "sched_ctx_init ctx = (0, ctx\<lparr>sc_wait := [], sc_ready := [], sc_interrupted := 0, sc_wc := 0\<rparr>)"

text \<open>The result of \<^verbatim>\<open>pthread_cond_destroy\<close> is the argument \<open>cond_destroy\<close>.\<close>

definition sched_ctx_destroy :: "(sched_ctx \<Rightarrow> int) \<Rightarrow> sched_ctx \<Rightarrow> int" where
  "sched_ctx_destroy cond_destroy ctx = cond_destroy ctx"

definition pthread_cond_broadcast :: "sched_ctx \<Rightarrow> sched_ctx" where
  "pthread_cond_broadcast ctx = ctx\<lparr>sc_wait := [], sc_ready := sc_ready ctx @ sc_wait ctx\<rparr>"

text \<open>\<open>Some r\<close>: the call returns \<open>r\<close> at once; \<open>None\<close>: the thread is blocked and the mutex released.\<close>

definition sched_sleep_begin :: "nat \<Rightarrow> sched_ctx \<Rightarrow> int option \<times> sched_ctx" where
  "sched_sleep_begin t ctx =
     (if sc_interrupted ctx \<noteq> 0 then (Some (-1), ctx)
      else (None, ctx\<lparr>sc_wc := sc_wc ctx + 1, sc_wait := sc_wait ctx @ [t]\<rparr>))"

text \<open>\<open>ret\<close> is the result of \<^verbatim>\<open>pthread_cond_wait\<close> or \<^verbatim>\<open>pthread_cond_timedwait\<close>.\<close>

definition sched_sleep_end :: "nat \<Rightarrow> int \<Rightarrow> sched_ctx \<Rightarrow> int \<times> sched_ctx" where
  "sched_sleep_end t ret ctx =
     (let ctx = ctx\<lparr>sc_ready := remove1 t (sc_ready ctx), sc_wc := sc_wc ctx - 1\<rparr>
      in if sc_interrupted ctx \<noteq> 0
         then (-1, if sc_wc ctx = 0 then ctx\<lparr>sc_interrupted := 0\<rparr> else ctx)
         else (ret, ctx))"

definition sched_wakeup :: "sched_ctx \<Rightarrow> int \<times> sched_ctx" where
  "sched_wakeup ctx = (0, pthread_cond_broadcast ctx)"

definition sched_interrupt :: "sched_ctx \<Rightarrow> int \<times> sched_ctx" where
  "sched_interrupt ctx = (0, pthread_cond_broadcast (ctx\<lparr>sc_interrupted := 1\<rparr>))"

subsection \<open>Interleavings\<close>

datatype sched_label =
  L_Sleep nat
| L_Return nat int
| L_Spurious nat
| L_Wakeup
| L_Interrupt

inductive sched_step :: "sched_ctx \<Rightarrow> sched_label \<Rightarrow> sched_ctx \<Rightarrow> bool" where
  sleep: "t \<notin> set (sc_wait c @ sc_ready c) \<Longrightarrow> sched_sleep_begin t c = (None, c') \<Longrightarrow> sched_step c (L_Sleep t) c'"
| refuse: "t \<notin> set (sc_wait c @ sc_ready c) \<Longrightarrow> sched_sleep_begin t c = (Some r, c') \<Longrightarrow> sched_step c (L_Return t r) c'"
| spurious: "t \<in> set (sc_wait c) \<Longrightarrow>
    sched_step c (L_Spurious t) (c\<lparr>sc_wait := remove1 t (sc_wait c), sc_ready := sc_ready c @ [t]\<rparr>)"
| wakeup: "sched_step c L_Wakeup (snd (sched_wakeup c))"
| interrupt: "sched_step c L_Interrupt (snd (sched_interrupt c))"
| return: "t \<in> set (sc_ready c) \<Longrightarrow> sched_sleep_end t 0 c = (r, c') \<Longrightarrow> sched_step c (L_Return t r) c'"

inductive sched_run :: "sched_ctx \<Rightarrow> sched_label list \<Rightarrow> sched_ctx \<Rightarrow> bool" where
  stop: "sched_run c [] c"
| more: "sched_step c l c' \<Longrightarrow> sched_run c' ls c'' \<Longrightarrow> sched_run c (l # ls) c''"

inductive_cases sched_stepE: "sched_step c l c'"
inductive_cases sched_step_returnE: "sched_step c (L_Return t r) c'"
inductive_cases sched_runE: "sched_run c ls c'"
inductive_simps sched_run_Nil [simp]: "sched_run c [] c'"
inductive_simps sched_run_Cons: "sched_run c (l # ls) c'"

section \<open>Lemmas\<close>

lemmas sched_defs = sched_sleep_begin_def sched_sleep_end_def sched_wakeup_def sched_interrupt_def pthread_cond_broadcast_def

text \<open>
  The wait count is the number of threads inside \<^verbatim>\<open>sched_sleep\<close>, no thread is there twice, and
  nobody is blocked while the context is interrupted.
\<close>

definition sched_inv :: "sched_ctx \<Rightarrow> bool" where
  "sched_inv c \<longleftrightarrow>
     sc_wc c = int (length (sc_wait c) + length (sc_ready c)) \<and> distinct (sc_wait c @ sc_ready c) \<and>
     sc_interrupted c \<in> {0, 1} \<and> (sc_interrupted c \<noteq> 0 \<longrightarrow> sc_wait c = [])"

lemma sched_ctx_init_inv: "sched_inv (snd (sched_ctx_init c))"
  by (simp add: sched_inv_def sched_ctx_init_def)

lemma remove1_length: "t \<in> set xs \<Longrightarrow> int (length (remove1 t xs)) = int (length xs) - 1"
  using length_pos_if_in_set [of t xs] by (simp add: length_remove1 of_nat_diff Suc_le_eq)

lemma sched_step_inv:
  assumes "sched_step c l c'" "sched_inv c"
  shows "sched_inv c'"
  using assms
proof (cases rule: sched_step.cases)
  case (return t r)
  then show ?thesis
    using assms(2) by (auto simp: sched_inv_def sched_defs Let_def remove1_length split: if_splits)
qed (auto simp: sched_inv_def sched_defs remove1_length split: if_splits)

lemma sched_run_inv: "sched_run c ls c' \<Longrightarrow> sched_inv c \<Longrightarrow> sched_inv c'"
  by (induction rule: sched_run.induct) (auto dest: sched_step_inv)

text \<open>A step that is not a return keeps an interrupt pending.\<close>

lemma sched_step_sticky:
  assumes "sched_step c l c'" "sc_interrupted c \<noteq> 0" "sc_ready c = []" "sc_wait c = []"
  shows "sc_interrupted c' \<noteq> 0 \<and> sc_ready c' = [] \<and> sc_wait c' = [] \<and> (\<forall>t r. l = L_Return t r \<longrightarrow> r = -1) \<and> (\<forall>t. l \<noteq> L_Sleep t)"
  using assms by (cases rule: sched_step.cases) (auto simp: sched_defs split: if_splits)

lemma sched_run_sticky:
  "sched_run c ls c' \<Longrightarrow> sc_interrupted c \<noteq> 0 \<Longrightarrow> sc_ready c = [] \<Longrightarrow> sc_wait c = [] \<Longrightarrow>
   sc_interrupted c' \<noteq> 0 \<and> (\<forall>t r. L_Return t r \<in> set ls \<longrightarrow> r = -1) \<and> (\<forall>t. L_Sleep t \<notin> set ls)"
proof (induction rule: sched_run.induct)
  case (more c l c' ls c'')
  from sched_step_sticky [OF more.hyps(1) more.prems] more.IH show ?case by auto
qed simp

text \<open>The woken threads return one after the other.\<close>

lemma returns_run:
  "sched_inv c \<Longrightarrow> sc_interrupted c = 1 \<Longrightarrow> distinct ts \<Longrightarrow> set ts = set (sc_ready c) \<Longrightarrow>
   \<exists>c'. sched_run c (map (\<lambda>t. L_Return t (-1)) ts) c' \<and> sc_ready c' = [] \<and> sc_wait c' = [] \<and>
     (ts \<noteq> [] \<longrightarrow> sc_interrupted c' = 0)"
proof (induction ts arbitrary: c)
  case Nil
  then show ?case by (auto simp: sched_inv_def)
next
  case (Cons t ts)
  obtain r c1 where c1: "sched_sleep_end t 0 c = (r, c1)" by fastforce
  have t: "t \<in> set (sc_ready c)" using Cons.prems by auto
  have step: "sched_step c (L_Return t r) c1" using sched_step.return [OF t c1] .
  have r: "r = -1" using c1 Cons.prems(2) by (auto simp: sched_defs Let_def split: if_splits)
  have dist: "distinct (sc_ready c)" using Cons.prems(1) by (simp add: sched_inv_def)
  have rdy: "set ts = set (sc_ready c1)" "sc_wait c1 = []"
    using c1 Cons.prems dist by (auto simp: sched_defs sched_inv_def Let_def split: if_splits)
  have inv: "sched_inv c1" using sched_step_inv [OF step Cons.prems(1)] .
  show ?case
  proof (cases "ts = []")
    case True
    then have "sc_ready c1 = []" using rdy by simp
    then have "sc_interrupted c1 = 0"
      using inv rdy(2) c1 Cons.prems(1,2) t by (auto simp: sched_defs sched_inv_def Let_def remove1_length split: if_splits)
    with step r True \<open>sc_ready c1 = []\<close> rdy(2) show ?thesis by (auto simp: sched_run_Cons)
  next
    case False
    then have "sc_ready c1 \<noteq> []" using rdy(1) by auto
    then have "sc_interrupted c1 = 1"
      using c1 Cons.prems(1,2) rdy(2) inv t
      by (auto simp: sched_defs sched_inv_def Let_def remove1_length length_Suc_conv split: if_splits)
    from Cons.IH [OF inv this _ rdy(1)] Cons.prems(3) False step r show ?thesis
      by (auto simp: sched_run_Cons)
  qed
qed

section \<open>Properties\<close>



text \<open>
  An interrupt that finds nobody in \<^verbatim>\<open>sched_sleep\<close> is never consumed: from then on nobody can sleep
  on the context any more, and every call returns -1 whatever else happens, because only a returning
  sleeper clears the flag.
\<close>

theorem sched_interrupt_sticky:
  assumes "sc_wait c = []" "sc_ready c = []" "sched_run (snd (sched_interrupt c)) ls c'"
  shows "sc_interrupted c' \<noteq> 0 \<and> fst (sched_sleep_begin t c') = Some (-1) \<and>
    (\<forall>t r. L_Return t r \<in> set ls \<longrightarrow> r = -1) \<and> (\<forall>t. L_Sleep t \<notin> set ls)"
  using sched_run_sticky [OF assms(3)] assms(1,2) by (simp add: sched_defs)

theorem sched_interrupt_sticky_witness:
  "\<exists>c'. sched_run (snd (sched_interrupt (snd (sched_ctx_init \<lparr>sc_wait = [], sc_ready = [], sc_interrupted = 0, sc_wc = 0\<rparr>))))
      [L_Wakeup, L_Return 3 (-1)] c' \<and> sc_interrupted c' \<noteq> 0"
proof -
  let ?c = "snd (sched_ctx_init \<lparr>sc_wait = [], sc_ready = [], sc_interrupted = 0, sc_wc = 0\<rparr>)"
  let ?c' = "snd (sched_wakeup (snd (sched_interrupt ?c)))"
  have "sched_run (snd (sched_interrupt ?c)) [L_Wakeup, L_Return 3 (-1)] ?c'"
    by (rule sched_run.more [OF sched_step.wakeup sched_run.more [OF sched_step.refuse sched_run.stop]])
      (simp_all add: sched_ctx_init_def sched_defs)
  moreover from sched_interrupt_sticky [OF _ _ this] have "sc_interrupted ?c' \<noteq> 0"
    by (simp add: sched_ctx_init_def)
  ultimately show ?thesis by blast
qed

end
