(* ===== verification/Udp.thy ===== *)
theory Udp
  imports Icmp Sched
begin

text \<open>
  UDP, \<^verbatim>\<open>src/lib/udp.c\<close>: the table of protocol control blocks, input and output of datagrams with the
  checksum over the pseudo header, and the user commands. Each function that takes the mutex is atomic;
  \<^verbatim>\<open>udp_recvfrom\<close> gives it away only while it sleeps, so that it is the function up to the first
  sleep and \<open>udp_recvfrom_resume\<close>, what the woken thread does up to the next one. The receiving thread
  and the receive buffer are arguments.

  Ports and addresses are kept in network byte order, as in the code. The result of
  \<^verbatim>\<open>pthread_cond_destroy\<close> is the component \<open>cond_destroy\<close> of the state.
\<close>

section \<open>Definitions\<close>

subsection \<open>Data\<close>

definition UDP_PCB_SIZE :: nat where "UDP_PCB_SIZE = 16"

datatype udp_pcb_state = UDP_PCB_STATE_FREE | UDP_PCB_STATE_OPEN | UDP_PCB_STATE_CLOSING

definition UDP_SOURCE_PORT_MIN :: nat where "UDP_SOURCE_PORT_MIN = 49152"
definition UDP_SOURCE_PORT_MAX :: nat where "UDP_SOURCE_PORT_MAX = 65535"

record pseudo_hdr =
  ph_src :: u32
  ph_dst :: u32
  ph_zero :: u8
  ph_protocol :: u8
  ph_len :: u16

record udp_hdr =
  uh_src :: u16
  uh_dst :: u16
  uh_len :: u16
  uh_sum :: u16

record udp_queue_entry =
  uq_foreign :: IP_ENDPOINT
  uq_len :: u16
  uq_data :: bytes

record udp_pcb =
  pcb_state :: udp_pcb_state
  pcb_local :: IP_ENDPOINT
  pcb_queue :: "udp_queue_entry lqueue"
  pcb_ctx :: sched_ctx

record udp_state = ip_state +
  pcbs :: "udp_pcb list"
  cond_destroy :: "sched_ctx \<Rightarrow> int"

definition udp_hdr_size :: nat where "udp_hdr_size = 8"

definition pseudo_hdr_bytes :: "pseudo_hdr \<Rightarrow> bytes" where
  "pseudo_hdr_bytes h = store32 (ph_src h) @ store32 (ph_dst h) @ [ph_zero h, ph_protocol h] @ store16 (ph_len h)"

definition udp_hdr_bytes :: "udp_hdr \<Rightarrow> bytes" where
  "udp_hdr_bytes h = store16 (uh_src h) @ store16 (uh_dst h) @ store16 (uh_len h) @ store16 (uh_sum h)"

definition read_udp_hdr :: "bytes \<Rightarrow> udp_hdr option" where
  "read_udp_hdr b =
     (if length b < udp_hdr_size then None
      else Some \<lparr>uh_src = load16 (b ! 0) (b ! 1), uh_dst = load16 (b ! 2) (b ! 3), uh_len = load16 (b ! 4) (b ! 5),
        uh_sum = load16 (b ! 6) (b ! 7)\<rparr>)"

subsection \<open>Control blocks\<close>

definition udp_pcb_alloc :: "'a udp_state_scheme \<Rightarrow> nat option \<times> 'a udp_state_scheme" where
  "udp_pcb_alloc s =
     (case find_slot (\<lambda>pcb. pcb_state pcb = UDP_PCB_STATE_FREE) (pcbs s) of
        None \<Rightarrow> (None, s)
      | Some k \<Rightarrow>
          (let pcb = pcbs s ! k
           in (Some k, s\<lparr>pcbs := (pcbs s)[k := pcb\<lparr>pcb_state := UDP_PCB_STATE_OPEN, pcb_ctx := snd (sched_ctx_init (pcb_ctx pcb))\<rparr>]\<rparr>)))"

function lqueue_clear :: "'d lqueue \<Rightarrow> 'd lqueue" where
  "lqueue_clear q = (case lqueue_pop q of (None, q) \<Rightarrow> q | (Some _, q) \<Rightarrow> lqueue_clear q)"
  by pat_completeness auto
termination
  by (relation "measure (\<lambda>q. length (q_items q))") (auto simp: lqueue_pop_def split: list.splits)

definition udp_pcb_release :: "nat \<Rightarrow> 'a udp_state_scheme \<Rightarrow> 'a udp_state_scheme" where
  "udp_pcb_release k s =
     (let pcb = (pcbs s ! k)\<lparr>pcb_state := UDP_PCB_STATE_CLOSING\<rparr>
      in if sched_ctx_destroy (cond_destroy s) (pcb_ctx pcb) = -1
         then s\<lparr>pcbs := (pcbs s)[k := pcb\<lparr>pcb_ctx := snd (sched_wakeup (pcb_ctx pcb))\<rparr>]\<rparr>
         else s\<lparr>pcbs := (pcbs s)[k := pcb\<lparr>pcb_state := UDP_PCB_STATE_FREE, pcb_local := \<lparr>ep_address = IP_ADDR_ANY, ep_port = 0\<rparr>,
                   pcb_queue := lqueue_clear (pcb_queue pcb)\<rparr>]\<rparr>)"

definition udp_pcb_select :: "u32 \<Rightarrow> u16 \<Rightarrow> udp_pcb list \<Rightarrow> nat option" where
  "udp_pcb_select addr port ps =
     find_slot (\<lambda>pcb. pcb_state pcb = UDP_PCB_STATE_OPEN \<and>
       (ep_address (pcb_local pcb) = IP_ADDR_ANY \<or> ep_address (pcb_local pcb) = addr) \<and> ep_port (pcb_local pcb) = port) ps"

definition udp_pcb_get :: "int \<Rightarrow> 'a udp_state_scheme \<Rightarrow> nat option" where
  "udp_pcb_get ident s =
     (if ident < 0 \<or> ident \<ge> int UDP_PCB_SIZE then None
      else if pcb_state (pcbs s ! nat ident) \<noteq> UDP_PCB_STATE_OPEN then None
      else Some (nat ident))"

definition udp_pcb_id :: "nat \<Rightarrow> int" where
  "udp_pcb_id k = int k"

subsection \<open>Input and output\<close>

definition udp_psum :: "u32 \<Rightarrow> u32 \<Rightarrow> u16 \<Rightarrow> u16 option" where
  "udp_psum src dst len =
     map_option (\<lambda>c. NOT c)
       (cksum16 (pseudo_hdr_bytes \<lparr>ph_src = src, ph_dst = dst, ph_zero = 0, ph_protocol = UDP_PROTOCOL, ph_len = hton16 len\<rparr>) 12 0)"

definition udp_input :: "bytes \<Rightarrow> nat \<Rightarrow> u32 \<Rightarrow> u32 \<Rightarrow> nat \<Rightarrow> 'a udp_state_scheme \<Rightarrow> 'a udp_state_scheme option" where
  "udp_input data len src dst iface s =
     (if len < udp_hdr_size then Some s
      else do {
        hdr \<leftarrow> read_udp_hdr data;
        if len \<noteq> unat (ntoh16 (uh_len hdr)) then Some s
        else do {
          psum \<leftarrow> udp_psum src dst (of_nat len);
          sm \<leftarrow> cksum16 data (of_nat len) (ucast psum);
          if sm \<noteq> 0 then Some s
          else
            (case udp_pcb_select dst (uh_dst hdr) (pcbs s) of
               None \<Rightarrow> Some s
             | Some k \<Rightarrow>
                 (case memory_alloc s of
                    (None, s) \<Rightarrow> Some s
                  | (Some _, s) \<Rightarrow> do {
                      let elen = (of_nat (len - udp_hdr_size) :: u16);
                      payload \<leftarrow> mem_read data udp_hdr_size (unat elen);
                      let entry = \<lparr>uq_foreign = \<lparr>ep_address = src, ep_port = uh_src hdr\<rparr>, uq_len = elen, uq_data = payload\<rparr>;
                      let pcb = pcbs s ! k;
                      (case lqueue_push s (pcb_queue pcb) entry of
                         (None, s, q) \<Rightarrow> Some s
                       | (Some _, s, q) \<Rightarrow>
                           Some (s\<lparr>pcbs := (pcbs s)[k := pcb\<lparr>pcb_queue := q, pcb_ctx := snd (sched_wakeup (pcb_ctx pcb))\<rparr>]\<rparr>))
                    }))
        }
      })"

definition udp_output ::
  "IP_ENDPOINT \<Rightarrow> IP_ENDPOINT \<Rightarrow> bytes \<Rightarrow> nat \<Rightarrow> 'a ip_state_scheme \<Rightarrow> (int \<times> 'a ip_state_scheme) option" where
  "udp_output src dst data len s =
     (if len > MAX_IP_PAYLOAD_SIZE - udp_hdr_size then Some (-1, s)
      else do {
        let tot = (of_nat (udp_hdr_size + len) :: u16);
        let hdr = \<lparr>uh_src = ep_port src, uh_dst = ep_port dst, uh_len = hton16 tot, uh_sum = 0\<rparr>;
        payload \<leftarrow> mem_read data 0 len;
        psum \<leftarrow> udp_psum (ep_address src) (ep_address dst) tot;
        sm \<leftarrow> cksum16 (udp_hdr_bytes hdr @ payload) tot (ucast psum);
        (r, s) \<leftarrow> ip_send_packet UDP_PROTOCOL (udp_hdr_bytes (hdr\<lparr>uh_sum := sm\<rparr>) @ payload) (unat tot) (ep_address src) (ep_address dst) s;
        Some (if r = -1 then -1 else int len, s)
      })"

definition event_handler_udp :: "'a udp_state_scheme \<Rightarrow> 'a udp_state_scheme" where
  "event_handler_udp s =
     s\<lparr>pcbs := map (\<lambda>pcb. if pcb_state pcb = UDP_PCB_STATE_OPEN then pcb\<lparr>pcb_ctx := snd (sched_interrupt (pcb_ctx pcb))\<rparr> else pcb) (pcbs s)\<rparr>"

definition udp_init :: "'a ip_state_scheme \<Rightarrow> int \<times> 'a ip_state_scheme" where
  "udp_init s =
     (let (r, s) = ip_register_protocol ''UDP'' UDP_PROTOCOL udp_input_handler s
      in if r = -1 then (-1, s)
         else let (_, s) = network_event_subscribe udp_event_handler None s in (0, s))"

subsection \<open>User commands\<close>

definition udp_open :: "'a udp_state_scheme \<Rightarrow> int \<times> 'a udp_state_scheme" where
  "udp_open s =
     (case udp_pcb_alloc s of
        (None, s) \<Rightarrow> (-1, s)
      | (Some k, s) \<Rightarrow> (udp_pcb_id k, s))"

definition udp_close :: "int \<Rightarrow> 'a udp_state_scheme \<Rightarrow> int \<times> 'a udp_state_scheme" where
  "udp_close ident s =
     (case udp_pcb_get ident s of
        None \<Rightarrow> (-1, s)
      | Some k \<Rightarrow> (0, udp_pcb_release k s))"

definition udp_bind :: "int \<Rightarrow> IP_ENDPOINT \<Rightarrow> 'a udp_state_scheme \<Rightarrow> int \<times> 'a udp_state_scheme" where
  "udp_bind ident local s =
     (case udp_pcb_get ident s of
        None \<Rightarrow> (-1, s)
      | Some k \<Rightarrow>
          (case udp_pcb_select (ep_address local) (ep_port local) (pcbs s) of
             Some _ \<Rightarrow> (-1, s)
           | None \<Rightarrow> (0, s\<lparr>pcbs := (pcbs s)[k := (pcbs s ! k)\<lparr>pcb_local := local\<rparr>]\<rparr>)))"

function udp_port_scan :: "u32 \<Rightarrow> udp_pcb list \<Rightarrow> nat \<Rightarrow> nat option" where
  "udp_port_scan addr ps p =
     (if p > UDP_SOURCE_PORT_MAX then None
      else if udp_pcb_select addr (hton16 (of_nat p)) ps = None then Some p
      else udp_port_scan addr ps (p + 1))"
  by pat_completeness auto
termination
  by (relation "measure (\<lambda>(_, _, p). Suc UDP_SOURCE_PORT_MAX - p)") auto

declare udp_port_scan.simps [simp del] lqueue_clear.simps [simp del]

text \<open>The source address of a datagram; the inner \<open>None\<close> says that there is none.\<close>

definition udp_source_address :: "udp_pcb \<Rightarrow> IP_ENDPOINT \<Rightarrow> 'a ip_state_scheme \<Rightarrow> u32 option option" where
  "udp_source_address pcb foreign s =
     (if ep_address (pcb_local pcb) = IP_ADDR_ANY
      then (case ip_get_interface (ep_address foreign) s of
              None \<Rightarrow> Some None
            | Some iface \<Rightarrow> do { i \<leftarrow> if_heap s iface; Some (Some (if_unicast i)) })
      else Some (Some (ep_address (pcb_local pcb))))"

definition udp_sendto :: "int \<Rightarrow> bytes \<Rightarrow> nat \<Rightarrow> IP_ENDPOINT \<Rightarrow> 'a udp_state_scheme \<Rightarrow> (int \<times> 'a udp_state_scheme) option" where
  "udp_sendto ident data len foreign s =
     (case udp_pcb_get ident s of
        None \<Rightarrow> Some (-1, s)
      | Some k \<Rightarrow> do {
          let pcb = pcbs s ! k;
          address \<leftarrow> udp_source_address pcb foreign s;
          (case address of
             None \<Rightarrow> Some (-1, s)
           | Some addr \<Rightarrow>
               (case (if ep_port (pcb_local pcb) = 0
                      then map_option (\<lambda>p. hton16 (of_nat p)) (udp_port_scan addr (pcbs s) UDP_SOURCE_PORT_MIN)
                      else Some (ep_port (pcb_local pcb))) of
                  None \<Rightarrow> Some (-1, s)
                | Some port \<Rightarrow>
                    udp_output \<lparr>ep_address = addr, ep_port = port\<rparr> foreign data len
                      (s\<lparr>pcbs := (pcbs s)[k := pcb\<lparr>pcb_local := (pcb_local pcb)\<lparr>ep_port := port\<rparr>\<rparr>]\<rparr>)))
        })"

text \<open>A receiving thread returns the result, the buffer and the foreign endpoint, or is asleep.\<close>

datatype udp_recv = Recv_Returned int bytes "IP_ENDPOINT option" | Recv_Asleep

definition udp_recv_pop ::
  "nat \<Rightarrow> nat \<Rightarrow> bytes \<Rightarrow> nat \<Rightarrow> IP_ENDPOINT option \<Rightarrow> 'a udp_state_scheme \<Rightarrow> (udp_recv \<times> 'a udp_state_scheme) option" where
  "udp_recv_pop t k buf sz foreign s =
     (let pcb = pcbs s ! k
      in case lqueue_pop (pcb_queue pcb) of
        (Some entry, q) \<Rightarrow> do {
          let len = min sz (unat (uq_len entry));
          d \<leftarrow> mem_read (uq_data entry) 0 len;
          buf \<leftarrow> mem_write buf 0 d;
          Some (Recv_Returned (int len) buf (map_option (\<lambda>_. uq_foreign entry) foreign), s\<lparr>pcbs := (pcbs s)[k := pcb\<lparr>pcb_queue := q\<rparr>]\<rparr>)
        }
      | (None, q) \<Rightarrow>
          (case sched_sleep_begin t (pcb_ctx pcb) of
             (Some _, ctx) \<Rightarrow> Some (Recv_Returned (-1) buf foreign, s\<lparr>errno := EINTR\<rparr>)
           | (None, ctx) \<Rightarrow> Some (Recv_Asleep, s\<lparr>pcbs := (pcbs s)[k := pcb\<lparr>pcb_ctx := ctx\<rparr>]\<rparr>)))"

definition udp_recvfrom ::
  "nat \<Rightarrow> int \<Rightarrow> bytes \<Rightarrow> nat \<Rightarrow> IP_ENDPOINT option \<Rightarrow> 'a udp_state_scheme \<Rightarrow> (udp_recv \<times> 'a udp_state_scheme) option" where
  "udp_recvfrom t ident buf sz foreign s =
     (case udp_pcb_get ident s of
        None \<Rightarrow> Some (Recv_Returned (-1) buf foreign, s)
      | Some k \<Rightarrow> udp_recv_pop t k buf sz foreign s)"

definition udp_recvfrom_resume ::
  "nat \<Rightarrow> nat \<Rightarrow> bytes \<Rightarrow> nat \<Rightarrow> IP_ENDPOINT option \<Rightarrow> 'a udp_state_scheme \<Rightarrow> (udp_recv \<times> 'a udp_state_scheme) option" where
  "udp_recvfrom_resume t k buf sz foreign s =
     (let pcb = pcbs s ! k;
          (r, ctx) = sched_sleep_end t 0 (pcb_ctx pcb);
          s = s\<lparr>pcbs := (pcbs s)[k := pcb\<lparr>pcb_ctx := ctx\<rparr>]\<rparr>
      in if r = -1 then Some (Recv_Returned (-1) buf foreign, s\<lparr>errno := EINTR\<rparr>)
         else if pcb_state pcb = UDP_PCB_STATE_CLOSING then Some (Recv_Returned (-1) buf foreign, udp_pcb_release k s)
         else udp_recv_pop t k buf sz foreign s)"

section \<open>Invariant and frame\<close>

abbreviation ep_none :: IP_ENDPOINT where "ep_none \<equiv> \<lparr>ep_address = IP_ADDR_ANY, ep_port = 0\<rparr>"

definition wf_pcb :: "udp_pcb \<Rightarrow> bool" where
  "wf_pcb pcb \<longleftrightarrow>
     q_num (pcb_queue pcb) = of_nat (length (q_items (pcb_queue pcb))) \<and>
     (\<forall>e \<in> set (q_items (pcb_queue pcb)). unat (uq_len e) = length (uq_data e)) \<and>
     (pcb_state pcb = UDP_PCB_STATE_FREE \<longrightarrow> pcb_local pcb = ep_none \<and> q_items (pcb_queue pcb) = []) \<and>
     sched_inv (pcb_ctx pcb)"

text \<open>No two open control blocks have the same endpoint, unless both are unbound.\<close>

definition udp_unique :: "udp_pcb list \<Rightarrow> bool" where
  "udp_unique ps \<longleftrightarrow>
     (\<forall>i < length ps. \<forall>j < length ps. i \<noteq> j \<longrightarrow> pcb_state (ps ! i) = UDP_PCB_STATE_OPEN \<longrightarrow> pcb_state (ps ! j) = UDP_PCB_STATE_OPEN \<longrightarrow>
        pcb_local (ps ! i) = pcb_local (ps ! j) \<longrightarrow> pcb_local (ps ! i) = ep_none)"

definition wf_pcbs :: "udp_pcb list \<Rightarrow> bool" where
  "wf_pcbs ps \<longleftrightarrow> length ps = UDP_PCB_SIZE \<and> (\<forall>pcb \<in> set ps. wf_pcb pcb) \<and> udp_unique ps"

definition wf_udp :: "'a udp_state_scheme \<Rightarrow> bool" where
  "wf_udp s \<longleftrightarrow> wf_ip s \<and> wf_pcbs (pcbs s)"

text \<open>What UDP operations may change.\<close>

definition udp_out :: "'a udp_state_scheme \<Rightarrow> 'a udp_state_scheme \<Rightarrow> bool" where
  "udp_out s s' \<longleftrightarrow>
     net_ext s s' \<and> (wf_caches (caches s) \<longrightarrow> wf_caches (caches s')) \<and> ip_ifaces s' = ip_ifaces s \<and>
     ip_protocols s' = ip_protocols s \<and> ip_routes s' = ip_routes s \<and>
     (wf_pcbs (pcbs s) \<longrightarrow> wf_pcbs (pcbs s')) \<and> cond_destroy s' = cond_destroy s \<and> udp_state.more s' = udp_state.more s"

section \<open>Lemmas\<close>

lemma udp_out_refl [simp, intro]: "udp_out s s"
  by (simp add: udp_out_def)

lemma udp_out_trans [trans]: "udp_out s t \<Longrightarrow> udp_out t u \<Longrightarrow> udp_out s u"
  by (auto simp: udp_out_def intro: net_ext_trans)

lemma ip_more_udp:
  "ip_state.more s' = ip_state.more s \<Longrightarrow> pcbs s' = pcbs s \<and> cond_destroy s' = cond_destroy s \<and> udp_state.more s' = udp_state.more s"
  by (cases s, cases s') simp

lemma ip_out_udp: "ip_out s s' \<Longrightarrow> udp_out s s'"
  using ip_more_udp [of s' s] by (simp add: ip_out_def udp_out_def)

lemma ip_out_pcbs: "ip_out s s' \<Longrightarrow> pcbs s' = pcbs s"
  using ip_more_udp [of s' s] by (simp add: ip_out_def)

lemma udp_out_ext: "udp_out s s' \<Longrightarrow> net_ext s s'"
  by (simp add: udp_out_def)

lemma udp_out_wf:
  assumes "udp_out s s'" "wf_udp s"
  shows "wf_udp s'"
proof -
  have "if_heap s' = if_heap s" using net_ext_same [OF udp_out_ext [OF assms(1)]] by simp
  then have "iface_ready s' = iface_ready s" by (simp add: iface_ready_def fun_eq_iff)
  with assms show ?thesis by (auto simp: udp_out_def wf_udp_def wf_ip_def wf_arp_def intro: net_ext_wf)
qed

text \<open>A change of the control blocks, the allocation counter and \<^verbatim>\<open>errno\<close> only.\<close>

lemma udp_out_pcbs:
  assumes "wf_pcbs (pcbs s) \<Longrightarrow> wf_pcbs ps" "mem_n s \<le> n"
  shows "udp_out s (s\<lparr>mem_n := n, errno := e, pcbs := ps\<rparr>)"
  using assms by (auto simp: udp_out_def intro!: net_ext_quiet)

lemma udp_out_pcbs_only:
  assumes "wf_pcbs (pcbs s) \<Longrightarrow> wf_pcbs ps"
  shows "udp_out s (s\<lparr>pcbs := ps\<rparr>)"
  using assms by (auto simp: udp_out_def intro!: net_ext_quiet)

subsection \<open>The table of control blocks\<close>

lemma udp_pcb_get_Some:
  "udp_pcb_get ident s = Some k \<longleftrightarrow>
     0 \<le> ident \<and> ident < 16 \<and> k = nat ident \<and> pcb_state (pcbs s ! k) = UDP_PCB_STATE_OPEN"
  by (auto simp: udp_pcb_get_def UDP_PCB_SIZE_def)

lemma udp_pcb_get_bound:
  "wf_pcbs (pcbs s) \<Longrightarrow> udp_pcb_get ident s = Some k \<Longrightarrow> k < length (pcbs s)"
  by (auto simp: udp_pcb_get_Some wf_pcbs_def UDP_PCB_SIZE_def)

text \<open>Replacing one block keeps the invariant if the block is well formed and brings no endpoint in use.\<close>

lemma wf_pcbs_update:
  assumes wf: "wf_pcbs ps" and pcb: "wf_pcb pcb"
    and loc: "pcb_state pcb = UDP_PCB_STATE_OPEN \<Longrightarrow> pcb_local pcb \<noteq> ep_none \<Longrightarrow>
      \<forall>j < length ps. j \<noteq> k \<longrightarrow> pcb_state (ps ! j) = UDP_PCB_STATE_OPEN \<longrightarrow> pcb_local (ps ! j) \<noteq> pcb_local pcb"
  shows "wf_pcbs (ps[k := pcb])"
proof (cases "k < length ps")
  case True
  have "\<forall>p \<in> set (ps[k := pcb]). wf_pcb p"
    using wf pcb set_update_subset_insert [of ps k pcb] by (auto simp: wf_pcbs_def)
  moreover have "udp_unique (ps[k := pcb])"
    unfolding udp_unique_def
  proof (intro allI impI)
    fix i j assume ij: "i < length (ps[k := pcb])" "j < length (ps[k := pcb])" "i \<noteq> j"
      "pcb_state (ps[k := pcb] ! i) = UDP_PCB_STATE_OPEN" "pcb_state (ps[k := pcb] ! j) = UDP_PCB_STATE_OPEN"
      "pcb_local (ps[k := pcb] ! i) = pcb_local (ps[k := pcb] ! j)"
    consider "i = k" | "j = k" | "i \<noteq> k" "j \<noteq> k" by blast
    then show "pcb_local (ps[k := pcb] ! i) = ep_none"
    proof cases
      case 1
      with ij True loc show ?thesis by (metis length_list_update nth_list_update_eq nth_list_update_neq)
    next
      case 2
      with ij True loc show ?thesis by (metis length_list_update nth_list_update_eq nth_list_update_neq)
    next
      case 3
      with ij wf show ?thesis by (simp add: wf_pcbs_def udp_unique_def)
    qed
  qed
  ultimately show ?thesis using wf by (simp add: wf_pcbs_def)
next
  case False
  then show ?thesis using wf by (simp add: list_update_beyond not_less)
qed

lemma wf_pcbs_same_local:
  assumes wf: "wf_pcbs ps" and pcb: "wf_pcb pcb" and k: "k < length ps"
    and loc: "pcb_local pcb = pcb_local (ps ! k)" "pcb_state pcb = pcb_state (ps ! k)"
  shows "wf_pcbs (ps[k := pcb])"
proof (rule wf_pcbs_update [OF wf pcb])
  assume "pcb_state pcb = UDP_PCB_STATE_OPEN" "pcb_local pcb \<noteq> ep_none"
  with wf k loc show "\<forall>j < length ps. j \<noteq> k \<longrightarrow> pcb_state (ps ! j) = UDP_PCB_STATE_OPEN \<longrightarrow> pcb_local (ps ! j) \<noteq> pcb_local pcb"
    unfolding wf_pcbs_def udp_unique_def by metis
qed

lemma wf_pcbs_closed:
  "wf_pcbs ps \<Longrightarrow> wf_pcb pcb \<Longrightarrow> pcb_state pcb \<noteq> UDP_PCB_STATE_OPEN \<or> pcb_local pcb = ep_none \<Longrightarrow> wf_pcbs (ps[k := pcb])"
  by (rule wf_pcbs_update) auto

lemma wf_pcb_nth: "wf_pcbs ps \<Longrightarrow> k < length ps \<Longrightarrow> wf_pcb (ps ! k)"
  by (simp add: wf_pcbs_def)

lemma udp_pcb_select_Some:
  "udp_pcb_select addr port ps = Some k \<Longrightarrow>
     k < length ps \<and> pcb_state (ps ! k) = UDP_PCB_STATE_OPEN \<and> ep_port (pcb_local (ps ! k)) = port \<and>
     ep_address (pcb_local (ps ! k)) \<in> {IP_ADDR_ANY, addr}"
  unfolding udp_pcb_select_def by (drule find_slot_SomeD) auto

lemma udp_pcb_select_None:
  "udp_pcb_select addr port ps = None \<longleftrightarrow>
     (\<forall>pcb \<in> set ps. pcb_state pcb = UDP_PCB_STATE_OPEN \<longrightarrow> ep_port (pcb_local pcb) = port \<longrightarrow>
        ep_address (pcb_local pcb) \<notin> {IP_ADDR_ANY, addr})"
  by (auto simp: udp_pcb_select_def slot_simps)

lemma q_items_clear [simp]: "q_items (lqueue_clear q) = []"
  by (induction q rule: lqueue_clear.induct)
    (subst lqueue_clear.simps, auto simp: lqueue_pop_def split: list.splits)

lemma q_num_clear: "q_num q = of_nat (length (q_items q)) \<Longrightarrow> q_num (lqueue_clear q) = 0"
  by (induction q rule: lqueue_clear.induct)
    (subst lqueue_clear.simps, auto simp: lqueue_pop_def split: list.splits)

subsection \<open>Datagrams\<close>

lemma length_udp_hdr_bytes [simp]: "length (udp_hdr_bytes h) = 8"
  by (simp add: udp_hdr_bytes_def)

lemma length_pseudo_hdr_bytes [simp]: "length (pseudo_hdr_bytes h) = 12"
  by (simp add: pseudo_hdr_bytes_def)

lemma read_udp_hdr_bytes [simp]:
  fixes h :: udp_hdr
  shows "read_udp_hdr (udp_hdr_bytes h @ rest) = Some h"
  by (cases h) (simp add: read_udp_hdr_def udp_hdr_bytes_def udp_hdr_size_def)

lemma udp_psum_defined: "\<exists>p. udp_psum src dst len = Some p"
  using cksum16_value [of 12 "pseudo_hdr_bytes \<lparr>ph_src = src, ph_dst = dst, ph_zero = 0, ph_protocol = UDP_PROTOCOL, ph_len = hton16 len\<rparr>" 0 LittleEndian]
  by (auto simp: udp_psum_def)

definition udp_seed :: "u32 \<Rightarrow> u32 \<Rightarrow> nat \<Rightarrow> u32" where
  "udp_seed src dst len = ucast (the (udp_psum src dst (of_nat len)))"

lemma udp_psum_seed: "udp_psum src dst (of_nat len) = Some p \<Longrightarrow> ucast p = udp_seed src dst len"
  by (simp add: udp_seed_def)

lemma udp_seed_fits: "unat (udp_seed src dst len) \<le> 65535"
proof -
  have "unat (ucast w :: u32) \<le> 65535" for w :: u16
    using unat_u16_bound [of w] by (simp add: unsigned_ucast_eq take_bit_eq_mod)
  then show ?thesis by (simp add: udp_seed_def)
qed

text \<open>The datagram is a checksummed message seeded with the sum of the pseudo header.\<close>

interpretation udm: checksummed "\<lambda>c (src, dst, h :: udp_hdr, payload). udp_hdr_bytes (h\<lparr>uh_sum := c\<rparr>) @ payload"
  "\<lambda>(src, dst, h, payload). 8 + length payload" "\<lambda>(src, dst, h, payload). udp_seed src dst (8 + length payload)"
  "\<lambda>(src, dst, h, payload). 8 + length payload < 65536"
  by unfold_locales (auto simp: udp_hdr_bytes_def unat_load16 udp_seed_fits)

definition udp_datagram :: "IP_ENDPOINT \<Rightarrow> IP_ENDPOINT \<Rightarrow> bytes \<Rightarrow> bytes" where
  "udp_datagram src dst payload =
     (let h = \<lparr>uh_src = ep_port src, uh_dst = ep_port dst, uh_len = hton16 (of_nat (8 + length payload)), uh_sum = 0\<rparr>;
          c = the (cksum16 (udp_hdr_bytes h @ payload) (of_nat (8 + length payload)) (udp_seed (ep_address src) (ep_address dst) (8 + length payload)))
      in udp_hdr_bytes (h\<lparr>uh_sum := c\<rparr>) @ payload)"

lemma length_udp_datagram [simp]: "length (udp_datagram src dst payload) = 8 + length payload"
  by (simp add: udp_datagram_def Let_def)

lemma drop_udp_datagram [simp]: "drop 8 (udp_datagram src dst payload @ pad) = payload @ pad"
  by (simp add: udp_datagram_def Let_def)

lemma read_udp_datagram:
  "\<exists>c. read_udp_hdr (udp_datagram src dst payload @ pad) =
     Some \<lparr>uh_src = ep_port src, uh_dst = ep_port dst, uh_len = hton16 (of_nat (8 + length payload)), uh_sum = c\<rparr>"
  by (auto simp: udp_datagram_def Let_def)

lemma udp_filled:
  fixes h :: udp_hdr
  assumes "8 + length payload < 65536" "uh_sum h = 0"
  shows "\<exists>c. cksum16 (udp_hdr_bytes h @ payload) (of_nat (8 + length payload)) (udp_seed src dst (8 + length payload)) = Some c \<and>
    cksum16 (udp_hdr_bytes (h\<lparr>uh_sum := c\<rparr>) @ payload) (of_nat (8 + length payload)) (udp_seed src dst (8 + length payload)) = Some 0"
proof -
  have h: "h\<lparr>uh_sum := 0\<rparr> = h" using assms(2) by simp
  then show ?thesis
    using udm.fill_exists [of "(src, dst, h, payload)"] udm.filled_verifies [of "(src, dst, h, payload)"] assms(1) by auto
qed

lemma cksum16_prefix_seed:
  assumes "unat count \<le> length xs" "unat seed \<le> 65535"
  shows "cksum16 (xs @ ys) count seed = cksum16 xs count seed"
proof -
  obtain c d where "cksum16 (xs @ ys) count seed = Some c" "unat c = 65535 - carry_fold (unat seed + sum16 (take (unat count) xs))"
    "cksum16 xs count seed = Some d" "unat d = 65535 - carry_fold (unat seed + sum16 (take (unat count) xs))"
    using cksum16_value [of count "xs @ ys" seed LittleEndian] cksum16_value [of count xs seed LittleEndian] assms by auto
  then show ?thesis by (metis word_unat_eq_iff)
qed

lemma udp_datagram_checksum:
  assumes "8 + length payload < 65536"
  shows "cksum16 (udp_datagram src dst payload @ pad) (of_nat (8 + length payload))
    (udp_seed (ep_address src) (ep_address dst) (8 + length payload)) = Some 0"
proof -
  let ?h = "\<lparr>uh_src = ep_port src, uh_dst = ep_port dst, uh_len = hton16 (of_nat (8 + length payload)), uh_sum = 0\<rparr>"
  have "unat (of_nat (8 + length payload) :: u16) = 8 + length payload" using assms by (intro unat_of_nat_u16) simp
  moreover have "cksum16 (udp_datagram src dst payload) (of_nat (8 + length payload))
    (udp_seed (ep_address src) (ep_address dst) (8 + length payload)) = Some 0"
    using udp_filled [OF assms, of ?h "ep_address src" "ep_address dst"] by (auto simp: udp_datagram_def Let_def)
  ultimately show ?thesis by (subst cksum16_prefix_seed) (simp_all add: udp_seed_fits)
qed

lemma udp_output_eq:
  assumes len: "len \<le> length data"
  shows "udp_output src dst data len s =
    (if len > 65507 then Some (-1, s)
     else do {
       (r, s) \<leftarrow> ip_send_packet UDP_PROTOCOL (udp_datagram src dst (take len data)) (8 + len) (ep_address src) (ep_address dst) s;
       Some (if r = -1 then -1 else int len, s)})"
proof (cases "len > 65507")
  case True
  then show ?thesis
    by (simp add: udp_output_def MAX_IP_PAYLOAD_SIZE_def MAX_IP_PACKET_SIZE_def MIN_IP_HEADER_SIZE_def udp_hdr_size_def)
next
  case False
  let ?h = "\<lparr>uh_src = ep_port src, uh_dst = ep_port dst, uh_len = hton16 (of_nat (8 + len)), uh_sum = 0\<rparr>"
  have l: "length (take len data) = len" using len by simp
  have u: "unat (of_nat (8 + len) :: u16) = 8 + len" using False by (intro unat_of_nat_u16) simp
  obtain p where p: "udp_psum (ep_address src) (ep_address dst) (of_nat (8 + len)) = Some p" using udp_psum_defined by blast
  obtain c where c: "cksum16 (udp_hdr_bytes ?h @ take len data) (of_nat (8 + len)) (udp_seed (ep_address src) (ep_address dst) (8 + len)) = Some c"
    using udp_filled [of "take len data" ?h "ep_address src" "ep_address dst"] l False by auto
  then have d: "udp_datagram src dst (take len data) = udp_hdr_bytes (?h\<lparr>uh_sum := c\<rparr>) @ take len data"
    unfolding udp_datagram_def Let_def l by simp
  show ?thesis
    using False len p c u
    by (simp add: udp_output_def Let_def MAX_IP_PAYLOAD_SIZE_def MAX_IP_PACKET_SIZE_def MIN_IP_HEADER_SIZE_def udp_hdr_size_def
        udp_psum_seed [OF p] d del: of_nat_add)
qed

lemma udp_output_out:
  assumes wf: "wf_ip s" and len: "len \<le> length data"
  shows "\<exists>r s'. udp_output src dst data len s = Some (r, s') \<and> ip_out s s' \<and> r \<in> {-1, int len}"
proof (cases "len > 65507")
  case True
  then show ?thesis using udp_output_eq [OF len, of src dst s] by simp
next
  case False
  let ?d = "udp_datagram src dst (take len data)"
  have "8 + len \<le> length ?d" "20 + length ?d < 2 ^ 64" using False len by (simp_all add: min_def)
  from ip_send_packet_out [OF wf this, of UDP_PROTOCOL "ep_address src" "ep_address dst"] False udp_output_eq [OF len, of src dst s]
  show ?thesis by auto
qed

text \<open>The receiver's side.\<close>

definition udp_deliver :: "nat \<Rightarrow> udp_queue_entry \<Rightarrow> udp_pcb list \<Rightarrow> udp_pcb list" where
  "udp_deliver k entry ps =
     (let pcb = ps ! k; q = pcb_queue pcb
      in ps[k := pcb\<lparr>pcb_queue := q\<lparr>q_items := q_items q @ [entry], q_num := q_num q + 1\<rparr>, pcb_ctx := snd (sched_wakeup (pcb_ctx pcb))\<rparr>])"

lemma udp_input_cases:
  assumes len: "len \<le> length data" "len \<le> MAX_IP_PAYLOAD_SIZE"
  obtains (drop) "udp_input data len src dst iface s = Some s"
  | (nomem) n where "udp_input data len src dst iface s = Some (s\<lparr>mem_n := n\<rparr>)" "n \<in> {Suc (mem_n s), Suc (Suc (mem_n s))}"
      "\<exists>j. \<not> mem_ok s j"
  | (deliver) hdr k where "8 \<le> len" "read_udp_hdr data = Some hdr" "unat (ntoh16 (uh_len hdr)) = len"
      "cksum16 data (of_nat len) (udp_seed src dst len) = Some 0" "udp_pcb_select dst (uh_dst hdr) (pcbs s) = Some k"
      "udp_input data len src dst iface s = Some (s\<lparr>mem_n := Suc (Suc (mem_n s)), pcbs := udp_deliver k
         \<lparr>uq_foreign = \<lparr>ep_address = src, ep_port = uh_src hdr\<rparr>, uq_len = of_nat (len - 8), uq_data = take (len - 8) (List.drop 8 data)\<rparr> (pcbs s)\<rparr>)"
proof (cases "len < 8")
  case True
  then show thesis by (intro drop) (simp add: udp_input_def udp_hdr_size_def)
next
  case l8: False
  obtain hdr where hdr: "read_udp_hdr data = Some hdr" using l8 len by (simp add: read_udp_hdr_def udp_hdr_size_def)
  have l: "len < 65536" using len(2) by (simp add: MAX_IP_PAYLOAD_SIZE_def MAX_IP_PACKET_SIZE_def MIN_IP_HEADER_SIZE_def)
  then have u: "unat (of_nat len :: u16) = len" "unat (of_nat (len - 8) :: u16) = len - 8" by (auto intro!: unat_of_nat_u16)
  obtain p where p: "udp_psum src dst (of_nat len) = Some p" using udp_psum_defined by blast
  obtain c where c: "cksum16 data (of_nat len) (udp_seed src dst len) = Some c"
    using cksum16_value [of "of_nat len" data "udp_seed src dst len" LittleEndian] u len(1) by (auto simp: udp_seed_fits)
  show thesis
  proof (cases "len \<noteq> unat (ntoh16 (uh_len hdr)) \<or> c \<noteq> 0 \<or> udp_pcb_select dst (uh_dst hdr) (pcbs s) = None")
    case True
    then show thesis
      using l8 hdr p c by (intro drop) (auto simp: udp_input_def udp_hdr_size_def udp_psum_seed [OF p])
  next
    case False
    then obtain k where k: "udp_pcb_select dst (uh_dst hdr) (pcbs s) = Some k" by auto
    have eq: "udp_input data len src dst iface s =
      (case memory_alloc s of
         (None, s) \<Rightarrow> Some s
       | (Some _, s) \<Rightarrow>
          (let pcb = pcbs s ! k
           in case lqueue_push s (pcb_queue pcb)
              \<lparr>uq_foreign = \<lparr>ep_address = src, ep_port = uh_src hdr\<rparr>, uq_len = of_nat (len - 8), uq_data = take (len - 8) (List.drop 8 data)\<rparr> of
             (None, s, q) \<Rightarrow> Some s
           | (Some _, s, q) \<Rightarrow> Some (s\<lparr>pcbs := (pcbs s)[k := pcb\<lparr>pcb_queue := q, pcb_ctx := snd (sched_wakeup (pcb_ctx pcb))\<rparr>]\<rparr>)))"
      using False l8 hdr p c k u len(1)
      by (simp add: udp_input_def udp_hdr_size_def udp_psum_seed [OF p] mem_read_def Let_def cong: option.case_cong prod.case_cong)
    show thesis
    proof (cases "mem_ok s (mem_n s) \<and> mem_ok s (Suc (mem_n s))")
      case True
      have "udp_input data len src dst iface s = Some (s\<lparr>mem_n := Suc (Suc (mem_n s)), pcbs := udp_deliver k
         \<lparr>uq_foreign = \<lparr>ep_address = src, ep_port = uh_src hdr\<rparr>, uq_len = of_nat (len - 8), uq_data = take (len - 8) (List.drop 8 data)\<rparr> (pcbs s)\<rparr>)"
        unfolding eq using True by (simp add: memory_alloc_def lqueue_push_def udp_deliver_def Let_def)
      then show thesis using deliver [OF _ hdr _ _ k] l8 False c by simp
    next
      case nm: False
      show thesis
      proof (cases "mem_ok s (mem_n s)")
        case True
        then show thesis using nm
          by (intro nomem [of "Suc (Suc (mem_n s))"]) (auto simp: eq memory_alloc_def lqueue_push_def Let_def)
      next
        case False
        then show thesis
          by (intro nomem [of "Suc (mem_n s)"]) (auto simp: eq memory_alloc_def)
      qed
    qed
  qed
qed

lemma udp_input_datagram:
  assumes "len \<le> length data" "len \<le> 65507" "\<forall>n. mem_ok r n" "udp_pcb_select (ep_address dst) (ep_port dst) (pcbs r) = Some k"
  shows "udp_input (udp_datagram src dst (take len data) @ pad) (8 + len) (ep_address src) (ep_address dst) iface r =
    Some (r\<lparr>mem_n := Suc (Suc (mem_n r)), pcbs := udp_deliver k \<lparr>uq_foreign = src, uq_len = of_nat len, uq_data = take len data\<rparr> (pcbs r)\<rparr>)"
proof -
  let ?d = "udp_datagram src dst (take len data)"
  have l: "length (take len data) = len" using assms(1) by simp
  have fit: "8 + len \<le> length (?d @ pad)" "8 + len \<le> MAX_IP_PAYLOAD_SIZE"
    using assms(1,2) by (simp_all add: MAX_IP_PAYLOAD_SIZE_def MAX_IP_PACKET_SIZE_def MIN_IP_HEADER_SIZE_def min_absorb2)
  obtain c where hdr: "read_udp_hdr (?d @ pad) =
      Some \<lparr>uh_src = ep_port src, uh_dst = ep_port dst, uh_len = hton16 (of_nat (8 + len)), uh_sum = c\<rparr>"
    using read_udp_datagram [of src dst "take len data" pad] l by auto
  have u: "unat (of_nat (8 + len) :: u16) = 8 + len" using assms(2) by (intro unat_of_nat_u16) simp
  have ck: "cksum16 (?d @ pad) (of_nat (8 + len)) (udp_seed (ep_address src) (ep_address dst) (8 + len)) = Some 0"
    using udp_datagram_checksum [of "take len data" src dst pad] l assms(2) by simp
  obtain p where p: "udp_psum (ep_address src) (ep_address dst) (of_nat (8 + len)) = Some p" using udp_psum_defined by blast
  have ul: "unat (of_nat len :: u16) = len" using assms(2) by (intro unat_of_nat_u16) simp
  have dr: "take len (drop 8 (?d @ pad)) = take len data" unfolding drop_udp_datagram using l by simp
  have src: "\<lparr>ep_address = ep_address src, ep_port = ep_port src\<rparr> = src" by simp
  show ?thesis
    using hdr u ul ck p assms(3,4) dr fit(1)
    by (simp add: src udp_input_def udp_hdr_size_def udp_psum_seed [OF p] memory_alloc_def lqueue_push_def udp_deliver_def
        mem_read_def Let_def del: of_nat_add)
qed

subsection \<open>Every operation keeps the invariant\<close>

lemma sched_wakeup_inv: "sched_inv c \<Longrightarrow> sched_inv (snd (sched_wakeup c))"
  using sched_step_inv [OF sched_step.wakeup] .

lemma sched_interrupt_inv: "sched_inv c \<Longrightarrow> sched_inv (snd (sched_interrupt c))"
  using sched_step_inv [OF sched_step.interrupt] .

lemma udp_deliver_wf:
  assumes wf: "wf_pcbs ps" and k: "k < length ps" "pcb_state (ps ! k) = UDP_PCB_STATE_OPEN" and e: "unat (uq_len e) = length (uq_data e)"
  shows "wf_pcbs (udp_deliver k e ps)"
  unfolding udp_deliver_def Let_def
  using wf_pcb_nth [OF wf k(1)] k e
  by (intro wf_pcbs_same_local [OF wf _ k(1)]) (auto simp: wf_pcb_def sched_wakeup_inv)

lemma udp_input_out:
  assumes len: "len \<le> length data" "len \<le> MAX_IP_PAYLOAD_SIZE"
  shows "\<exists>s'. udp_input data len src dst iface s = Some s' \<and> udp_out s s'"
proof (cases rule: udp_input_cases [OF len, of src dst iface s])
  case 1
  then show ?thesis by auto
next
  case (2 n)
  moreover have "udp_out s (s\<lparr>mem_n := n\<rparr>)"
    using 2 by (auto simp: udp_out_def intro!: net_ext_quiet)
  ultimately show ?thesis by blast
next
  case (3 hdr k)
  have k: "k < length (pcbs s)" "pcb_state (pcbs s ! k) = UDP_PCB_STATE_OPEN" using udp_pcb_select_Some [OF 3(5)] by auto
  have "len - 8 < 65536" using len(2) by (simp add: MAX_IP_PAYLOAD_SIZE_def MAX_IP_PACKET_SIZE_def MIN_IP_HEADER_SIZE_def)
  then have u: "unat (of_nat (len - 8) :: u16) = len - 8" by (rule unat_of_nat_u16)
  let ?e = "\<lparr>uq_foreign = \<lparr>ep_address = src, ep_port = uh_src hdr\<rparr>, uq_len = of_nat (len - 8), uq_data = take (len - 8) (drop 8 data)\<rparr>"
  have "udp_out s (s\<lparr>mem_n := Suc (Suc (mem_n s)), errno := errno s, pcbs := udp_deliver k ?e (pcbs s)\<rparr>)"
    using udp_deliver_wf [OF _ k, of ?e] u len(1) by (intro udp_out_pcbs) (simp_all add: min_absorb2 diff_le_mono)
  with 3(6) show ?thesis by simp
qed

lemma udp_open_out: "udp_out s (snd (udp_open s))"
proof (cases "find_slot (\<lambda>pcb. pcb_state pcb = UDP_PCB_STATE_FREE) (pcbs s)")
  case None
  then show ?thesis by (simp add: udp_open_def udp_pcb_alloc_def)
next
  case (Some k)
  have k: "k < length (pcbs s)" "pcb_state (pcbs s ! k) = UDP_PCB_STATE_FREE" using find_slot_SomeD [OF Some] by auto
  let ?p = "(pcbs s ! k)\<lparr>pcb_state := UDP_PCB_STATE_OPEN, pcb_ctx := snd (sched_ctx_init (pcb_ctx (pcbs s ! k)))\<rparr>"
  have "wf_pcbs ((pcbs s)[k := ?p])" if wf: "wf_pcbs (pcbs s)"
    using wf_pcb_nth [OF wf k(1)] k(2) by (intro wf_pcbs_closed [OF wf]) (auto simp: wf_pcb_def sched_ctx_init_inv)
  with Some show ?thesis by (simp add: udp_open_def udp_pcb_alloc_def Let_def udp_out_pcbs_only)
qed

lemma udp_pcb_release_out:
  assumes "k < length (pcbs s)" "pcb_state (pcbs s ! k) \<noteq> UDP_PCB_STATE_FREE"
  shows "udp_out s (udp_pcb_release k s)"
proof -
  have 1: "wf_pcbs ((pcbs s)[k := (pcbs s ! k)\<lparr>pcb_state := UDP_PCB_STATE_CLOSING, pcb_ctx := snd (sched_wakeup (pcb_ctx (pcbs s ! k)))\<rparr>])"
    if wf: "wf_pcbs (pcbs s)"
    using wf_pcb_nth [OF wf assms(1)] by (intro wf_pcbs_closed [OF wf]) (auto simp: wf_pcb_def sched_wakeup_inv)
  have 2: "wf_pcbs ((pcbs s)[k := (pcbs s ! k)\<lparr>pcb_state := UDP_PCB_STATE_FREE, pcb_local := ep_none,
      pcb_queue := lqueue_clear (pcb_queue (pcbs s ! k))\<rparr>])" if wf: "wf_pcbs (pcbs s)"
    using wf_pcb_nth [OF wf assms(1)] by (intro wf_pcbs_closed [OF wf]) (auto simp: wf_pcb_def q_num_clear)
  from udp_out_pcbs_only [OF 1] udp_out_pcbs_only [OF 2] show ?thesis
    by (auto simp: udp_pcb_release_def Let_def)
qed

lemma udp_close_out:
  assumes "wf_pcbs (pcbs s)"
  shows "udp_out s (snd (udp_close ident s))"
proof (cases "udp_pcb_get ident s")
  case (Some k)
  then have "pcb_state (pcbs s ! k) \<noteq> UDP_PCB_STATE_FREE" by (auto simp: udp_pcb_get_Some)
  from udp_pcb_release_out [OF udp_pcb_get_bound [OF assms Some] this] Some show ?thesis
    by (simp add: udp_close_def)
qed (simp add: udp_close_def)

lemma udp_bind_out:
  assumes "wf_pcbs (pcbs s)"
  shows "udp_out s (snd (udp_bind ident local s))"
proof (cases "udp_pcb_get ident s")
  case (Some k)
  have k: "k < length (pcbs s)" "pcb_state (pcbs s ! k) = UDP_PCB_STATE_OPEN"
    using Some udp_pcb_get_bound [OF assms Some] by (auto simp: udp_pcb_get_Some)
  show ?thesis
  proof (cases "udp_pcb_select (ep_address local) (ep_port local) (pcbs s)")
    case None
    have "wf_pcbs ((pcbs s)[k := (pcbs s ! k)\<lparr>pcb_local := local\<rparr>])"
      using wf_pcb_nth [OF assms k(1)] k(2) None
      by (intro wf_pcbs_update [OF assms]) (auto simp: wf_pcb_def udp_pcb_select_None)
    with Some None show ?thesis by (simp add: udp_bind_def udp_out_pcbs_only)
  qed (simp add: udp_bind_def Some)
qed (simp add: udp_bind_def)

lemma wf_pcbs_map:
  assumes "wf_pcbs ps" "\<And>p. wf_pcb p \<Longrightarrow> wf_pcb (f p)" "\<And>p. pcb_local (f p) = pcb_local p" "\<And>p. pcb_state (f p) = pcb_state p"
  shows "wf_pcbs (map f ps)"
  using assms by (simp add: wf_pcbs_def udp_unique_def)

lemma event_handler_udp_out: "udp_out s (event_handler_udp s)"
  unfolding event_handler_udp_def
  by (rule udp_out_pcbs_only, rule wf_pcbs_map) (auto simp: wf_pcb_def sched_interrupt_inv)

subsection \<open>Dynamic ports\<close>

lemma udp_port_scan_Some:
  "udp_port_scan addr ps p = Some q \<Longrightarrow> p \<le> q \<and> q \<le> 65535 \<and> udp_pcb_select addr (hton16 (of_nat q)) ps = None"
proof (induction addr ps p rule: udp_port_scan.induct)
  case (1 addr ps p)
  from "1.prems" show ?case
    by (subst (asm) udp_port_scan.simps) (use "1.IH" in \<open>auto simp: UDP_SOURCE_PORT_MAX_def split: if_splits\<close>)
qed

lemma udp_port_scan_None:
  "udp_port_scan addr ps p = None \<Longrightarrow> p \<le> q \<Longrightarrow> q \<le> 65535 \<Longrightarrow> udp_pcb_select addr (hton16 (of_nat q)) ps \<noteq> None"
proof (induction addr ps p rule: udp_port_scan.induct)
  case (1 addr ps p)
  show ?case
  proof (cases "p = q")
    case True
    with "1.prems" show ?thesis
      by (subst (asm) udp_port_scan.simps) (auto simp: UDP_SOURCE_PORT_MAX_def split: if_splits)
  next
    case False
    with "1.prems" show ?thesis
      by (subst (asm) udp_port_scan.simps) (use "1.IH" False in \<open>auto simp: UDP_SOURCE_PORT_MAX_def split: if_splits\<close>)
  qed
qed

lemma hton16_of_nat_inj: "inj_on (\<lambda>p. hton16 (of_nat p)) {..65535}"
proof (rule inj_onI)
  fix p q assume pq: "p \<in> {..65535}" "q \<in> {..65535}" "hton16 (of_nat p) = hton16 (of_nat q)"
  have "p = unat (of_nat p :: u16)" using pq(1) by (intro unat_of_nat_u16 [symmetric]) simp
  also have "\<dots> = unat (ntoh16 (hton16 (of_nat p)))" by (simp only: ntoh16_hton16)
  also have "\<dots> = unat (of_nat q :: u16)" unfolding pq(3) by (simp only: ntoh16_hton16)
  also have "\<dots> = q" using pq(2) by (intro unat_of_nat_u16) simp
  finally show "p = q" .
qed

text \<open>There are more ports than control blocks.\<close>

lemma udp_port_scan_finds:
  assumes "length ps \<le> 16"
  shows "udp_port_scan addr ps UDP_SOURCE_PORT_MIN \<noteq> None"
proof
  assume none: "udp_port_scan addr ps UDP_SOURCE_PORT_MIN = None"
  let ?ports = "(\<lambda>p. hton16 (of_nat p)) ` {49152..65535 :: nat}"
  have "?ports \<subseteq> (\<lambda>pcb. ep_port (pcb_local pcb)) ` set ps"
  proof
    fix w assume "w \<in> ?ports"
    then obtain q where q: "q \<in> {49152..65535}" "w = hton16 (of_nat q)" by blast
    with udp_port_scan_None [OF none, of q] obtain k where k: "udp_pcb_select addr w ps = Some k"
      by (auto simp: UDP_SOURCE_PORT_MIN_def)
    from udp_pcb_select_Some [OF k] show "w \<in> (\<lambda>pcb. ep_port (pcb_local pcb)) ` set ps" by auto
  qed
  then have "card ?ports \<le> card ((\<lambda>pcb. ep_port (pcb_local pcb)) ` set ps)" by (intro card_mono) simp_all
  also have "\<dots> \<le> length ps" by (rule order_trans [OF card_image_le card_length]) simp
  finally have "card ?ports \<le> 16" using assms by simp
  moreover have "inj_on (\<lambda>p. hton16 (of_nat p)) {49152..65535 :: nat}" by (rule inj_on_subset [OF hton16_of_nat_inj]) auto
  then have "card ?ports = 16384" by (simp add: card_image)
  ultimately show False by simp
qed

subsection \<open>Sending\<close>

lemma udp_source_address_defined:
  assumes "wf_ip s"
  shows "\<exists>a. udp_source_address pcb foreign s = Some a \<and>
    (ep_address (pcb_local pcb) \<noteq> IP_ADDR_ANY \<longrightarrow> a = Some (ep_address (pcb_local pcb)))"
proof (cases "ip_route_lookup (ep_address foreign) (ip_routes s)")
  case None
  then show ?thesis by (simp add: udp_source_address_def ip_get_interface_def)
next
  case (Some route)
  then have "iface_ready s (rt_iface route)" using ip_route_lookup_in [OF Some] assms by (simp add: wf_ip_def)
  with Some show ?thesis by (auto simp: udp_source_address_def ip_get_interface_def iface_ready_def)
qed

lemma udp_sendto_eq:
  assumes wf: "wf_pcbs (pcbs s)" and k: "udp_pcb_get ident s = Some k" and a: "udp_source_address (pcbs s ! k) foreign s = Some (Some addr)"
  shows "\<exists>port. udp_sendto ident data len foreign s =
      udp_output \<lparr>ep_address = addr, ep_port = port\<rparr> foreign data len
        (s\<lparr>pcbs := (pcbs s)[k := (pcbs s ! k)\<lparr>pcb_local := (pcb_local (pcbs s ! k))\<lparr>ep_port := port\<rparr>\<rparr>]\<rparr>) \<and>
    (if ep_port (pcb_local (pcbs s ! k)) = 0
     then \<exists>p. 49152 \<le> p \<and> p \<le> 65535 \<and> port = hton16 (of_nat p) \<and> udp_pcb_select addr port (pcbs s) = None
     else port = ep_port (pcb_local (pcbs s ! k)))"
proof (cases "ep_port (pcb_local (pcbs s ! k)) = 0")
  case True
  have "length (pcbs s) \<le> 16" using wf by (simp add: wf_pcbs_def UDP_PCB_SIZE_def)
  then obtain p where p: "udp_port_scan addr (pcbs s) UDP_SOURCE_PORT_MIN = Some p" using udp_port_scan_finds by blast
  from udp_port_scan_Some [OF p] have "49152 \<le> p \<and> p \<le> 65535 \<and> udp_pcb_select addr (hton16 (of_nat p)) (pcbs s) = None"
    by (simp add: UDP_SOURCE_PORT_MIN_def)
  with k a p True show ?thesis
    by (intro exI [of _ "hton16 (of_nat p)"]) (auto simp: udp_sendto_def Let_def)
next
  case False
  with k a show ?thesis
    by (intro exI [of _ "ep_port (pcb_local (pcbs s ! k))"]) (simp add: udp_sendto_def Let_def)
qed

lemma udp_assign_wf:
  assumes wf: "wf_pcbs (pcbs s)" and k: "udp_pcb_get ident s = Some k"
    and a: "udp_source_address (pcbs s ! k) foreign s = Some (Some addr)"
    and port: "if ep_port (pcb_local (pcbs s ! k)) = 0 then udp_pcb_select addr port (pcbs s) = None
      else port = ep_port (pcb_local (pcbs s ! k))"
  shows "wf_pcbs ((pcbs s)[k := (pcbs s ! k)\<lparr>pcb_local := (pcb_local (pcbs s ! k))\<lparr>ep_port := port\<rparr>\<rparr>])"
proof (cases "ep_port (pcb_local (pcbs s ! k)) = 0")
  case False
  then have "port = ep_port (pcb_local (pcbs s ! k))" using port by simp
  then show ?thesis using wf by simp
next
  case True
  have kl: "k < length (pcbs s)" "pcb_state (pcbs s ! k) = UDP_PCB_STATE_OPEN"
    using udp_pcb_get_bound [OF wf k] k by (auto simp: udp_pcb_get_Some)
  have none: "udp_pcb_select addr port (pcbs s) = None" using True port by simp
  have "ep_address (pcb_local (pcbs s ! k)) = IP_ADDR_ANY \<or> ep_address (pcb_local (pcbs s ! k)) = addr"
    using a by (auto simp: udp_source_address_def split: if_splits)
  with none wf_pcb_nth [OF wf kl(1)] kl show ?thesis
    by (intro wf_pcbs_update [OF wf]) (auto simp: wf_pcb_def udp_pcb_select_None)
qed

lemma udp_sendto_out:
  fixes s :: "'a udp_state_scheme"
  assumes wf: "wf_udp s" and len: "len \<le> length data"
  shows "\<exists>r s'. udp_sendto ident data len foreign s = Some (r, s') \<and> udp_out s s' \<and> r \<in> {-1, int len}"
proof (cases "udp_pcb_get ident s")
  case None
  then show ?thesis by (simp add: udp_sendto_def)
next
  case (Some k)
  have wi: "wf_ip s" and wp: "wf_pcbs (pcbs s)" using wf by (simp_all add: wf_udp_def)
  obtain a where a: "udp_source_address (pcbs s ! k) foreign s = Some a" using udp_source_address_defined [OF wi] by blast
  show ?thesis
  proof (cases a)
    case None
    with Some a show ?thesis by (simp add: udp_sendto_def Let_def)
  next
    case (Some addr)
    with a have a': "udp_source_address (pcbs s ! k) foreign s = Some (Some addr)" by simp
    from udp_sendto_eq [OF wp \<open>udp_pcb_get ident s = Some k\<close> a', of data len] obtain port where
      eq: "udp_sendto ident data len foreign s =
        udp_output \<lparr>ep_address = addr, ep_port = port\<rparr> foreign data len
        (s\<lparr>pcbs := (pcbs s)[k := (pcbs s ! k)\<lparr>pcb_local := (pcb_local (pcbs s ! k))\<lparr>ep_port := port\<rparr>\<rparr>]\<rparr>)"
      and full: "if ep_port (pcb_local (pcbs s ! k)) = 0
        then \<exists>p. 49152 \<le> p \<and> p \<le> 65535 \<and> port = hton16 (of_nat p) \<and> udp_pcb_select addr port (pcbs s) = None
        else port = ep_port (pcb_local (pcbs s ! k))" by blast
    from full have port: "if ep_port (pcb_local (pcbs s ! k)) = 0 then udp_pcb_select addr port (pcbs s) = None
        else port = ep_port (pcb_local (pcbs s ! k))" by (cases "ep_port (pcb_local (pcbs s ! k)) = 0") auto
    let ?t = "s\<lparr>pcbs := (pcbs s)[k := (pcbs s ! k)\<lparr>pcb_local := (pcb_local (pcbs s ! k))\<lparr>ep_port := port\<rparr>\<rparr>]\<rparr>"
    have out: "udp_out s ?t"
      using udp_assign_wf [OF wp \<open>udp_pcb_get ident s = Some k\<close> a' port] by (intro udp_out_pcbs_only)
    then have "wf_ip ?t" using udp_out_wf [OF out wf] by (simp add: wf_udp_def)
    from udp_output_out [OF this len] obtain r u where
      "udp_output \<lparr>ep_address = addr, ep_port = port\<rparr> foreign data len ?t = Some (r, u)" "ip_out ?t u" "r \<in> {-1, int len}" by blast
    with eq udp_out_trans [OF out ip_out_udp] show ?thesis by auto
  qed
qed

subsection \<open>Receiving\<close>

definition pcb_threads :: "udp_pcb \<Rightarrow> nat set" where
  "pcb_threads pcb = set (sc_wait (pcb_ctx pcb)) \<union> set (sc_ready (pcb_ctx pcb))"

lemma udp_recv_pop_first:
  assumes e: "unat (uq_len e) = length (uq_data e)" and "q_items (pcb_queue (pcbs s ! k)) = e # es" "sz \<le> length buf"
  shows "udp_recv_pop t k buf sz foreign s =
    Some (Recv_Returned (int (min sz (length (uq_data e)))) (take sz (uq_data e) @ drop (min sz (length (uq_data e))) buf)
        (map_option (\<lambda>_. uq_foreign e) foreign),
      s\<lparr>pcbs := (pcbs s)[k := (pcbs s ! k)\<lparr>pcb_queue := (pcb_queue (pcbs s ! k))\<lparr>q_items := es, q_num := q_num (pcb_queue (pcbs s ! k)) - 1\<rparr>\<rparr>]\<rparr>)"
proof -
  have "take (min sz (length (uq_data e))) (uq_data e) = take sz (uq_data e)" by (simp add: min_def)
  with assms show ?thesis
    by (simp add: udp_recv_pop_def lqueue_pop_def Let_def mem_write_def min.commute [of "length (uq_data e)" sz] min.coboundedI1)
qed

lemma udp_recv_pop_entry:
  assumes "wf_pcb (pcbs s ! k)" "q_items (pcb_queue (pcbs s ! k)) = e # es" "sz \<le> length buf"
  shows "udp_recv_pop t k buf sz foreign s =
    Some (Recv_Returned (int (min sz (length (uq_data e)))) (take sz (uq_data e) @ drop (min sz (length (uq_data e))) buf)
        (map_option (\<lambda>_. uq_foreign e) foreign),
      s\<lparr>pcbs := (pcbs s)[k := (pcbs s ! k)\<lparr>pcb_queue := (pcb_queue (pcbs s ! k))\<lparr>q_items := es, q_num := q_num (pcb_queue (pcbs s ! k)) - 1\<rparr>\<rparr>]\<rparr>)"
  using assms by (intro udp_recv_pop_first) (auto simp: wf_pcb_def)

lemma udp_recv_pop_empty:
  assumes "q_items (pcb_queue (pcbs s ! k)) = []"
  shows "udp_recv_pop t k buf sz foreign s =
    (if sc_interrupted (pcb_ctx (pcbs s ! k)) \<noteq> 0 then Some (Recv_Returned (-1) buf foreign, s\<lparr>errno := EINTR\<rparr>)
     else Some (Recv_Asleep, s\<lparr>pcbs := (pcbs s)[k := (pcbs s ! k)\<lparr>pcb_ctx := (pcb_ctx (pcbs s ! k))
       \<lparr>sc_wc := sc_wc (pcb_ctx (pcbs s ! k)) + 1, sc_wait := sc_wait (pcb_ctx (pcbs s ! k)) @ [t]\<rparr>\<rparr>]\<rparr>))"
  using assms by (simp add: udp_recv_pop_def lqueue_pop_def Let_def sched_sleep_begin_def)

lemma udp_recv_pop_out:
  fixes s :: "'a udp_state_scheme"
  assumes wf: "wf_pcbs (pcbs s)" and k: "k < length (pcbs s)" and t: "t \<notin> pcb_threads (pcbs s ! k)" and sz: "sz \<le> length buf"
  shows "\<exists>r s'. udp_recv_pop t k buf sz foreign s = Some (r, s') \<and> udp_out s s'"
proof (cases "q_items (pcb_queue (pcbs s ! k))")
  case Nil
  let ?c = "pcb_ctx (pcbs s ! k)"
  have wk: "wf_pcb (pcbs s ! k)" using wf_pcb_nth [OF wf k] .
  have err: "udp_out s (s\<lparr>errno := EINTR\<rparr>)" by (auto simp: udp_out_def intro!: net_ext_quiet)
  have "sched_inv (?c\<lparr>sc_wc := sc_wc ?c + 1, sc_wait := sc_wait ?c @ [t]\<rparr>)" if "sc_interrupted ?c = 0"
    using sched_step_inv [OF sched_step.sleep [of t ?c]] t wk that
    by (auto simp: pcb_threads_def wf_pcb_def sched_sleep_begin_def)
  with wk have "wf_pcb ((pcbs s ! k)\<lparr>pcb_ctx := ?c\<lparr>sc_wc := sc_wc ?c + 1, sc_wait := sc_wait ?c @ [t]\<rparr>\<rparr>)" if "sc_interrupted ?c = 0"
    using that by (auto simp: wf_pcb_def)
  then show ?thesis
    using err by (auto simp: udp_recv_pop_empty [OF Nil] intro!: udp_out_pcbs_only wf_pcbs_same_local [OF wf _ k])
next
  case (Cons e es)
  have "wf_pcb ((pcbs s ! k)\<lparr>pcb_queue := (pcb_queue (pcbs s ! k))\<lparr>q_items := es, q_num := q_num (pcb_queue (pcbs s ! k)) - 1\<rparr>\<rparr>)"
    using wf_pcb_nth [OF wf k] Cons by (auto simp: wf_pcb_def)
  then show ?thesis
    using udp_recv_pop_entry [OF wf_pcb_nth [OF wf k] Cons sz]
    by (auto intro!: udp_out_pcbs_only wf_pcbs_same_local [OF wf _ k])
qed

lemma udp_recvfrom_out:
  assumes wf: "wf_pcbs (pcbs s)" and t: "\<forall>pcb \<in> set (pcbs s). t \<notin> pcb_threads pcb" and sz: "sz \<le> length buf"
  shows "\<exists>r s'. udp_recvfrom t ident buf sz foreign s = Some (r, s') \<and> udp_out s s'"
proof (cases "udp_pcb_get ident s")
  case (Some k)
  have k: "k < length (pcbs s)" using udp_pcb_get_bound [OF wf Some] .
  with t have "t \<notin> pcb_threads (pcbs s ! k)" by simp
  from udp_recv_pop_out [OF wf k this sz] Some show ?thesis by (simp add: udp_recvfrom_def)
qed (simp add: udp_recvfrom_def)

lemma udp_recvfrom_resume_out:
  fixes s :: "'a udp_state_scheme"
  assumes wf: "wf_pcbs (pcbs s)" and k: "k < length (pcbs s)" and t: "t \<in> set (sc_ready (pcb_ctx (pcbs s ! k)))" and sz: "sz \<le> length buf"
  shows "\<exists>r s'. udp_recvfrom_resume t k buf sz foreign s = Some (r, s') \<and> udp_out s s'"
proof -
  obtain r ctx where c: "sched_sleep_end t 0 (pcb_ctx (pcbs s ! k)) = (r, ctx)" by fastforce
  let ?p = "(pcbs s ! k)\<lparr>pcb_ctx := ctx\<rparr>"
  let ?s = "s\<lparr>pcbs := (pcbs s)[k := ?p]\<rparr>"
  have wk: "wf_pcb (pcbs s ! k)" using wf_pcb_nth [OF wf k] .
  then have inv: "sched_inv ctx" using sched_step_inv [OF sched_step.return [OF t c]] by (simp add: wf_pcb_def)
  with wk have "wf_pcb ?p" by (simp add: wf_pcb_def)
  then have wf': "wf_pcbs ((pcbs s)[k := ?p])" by (intro wf_pcbs_same_local [OF wf _ k]) simp_all
  then have out: "udp_out s ?s" by (intro udp_out_pcbs_only)
  have "udp_out ?s (?s\<lparr>errno := EINTR\<rparr>)" by (auto simp: udp_out_def intro!: net_ext_quiet)
  then have err: "udp_out s (?s\<lparr>errno := EINTR\<rparr>)" using udp_out_trans [OF out] by blast
  have k': "k < length (pcbs ?s)" "pcbs ?s ! k = ?p" using k by simp_all
  show ?thesis
  proof (cases "r = -1")
    case True
    then show ?thesis using c err by (simp add: udp_recvfrom_resume_def Let_def)
  next
    case r: False
    show ?thesis
    proof (cases "pcb_state (pcbs s ! k) = UDP_PCB_STATE_CLOSING")
      case True
      then have "udp_out ?s (udp_pcb_release k ?s)" using k' by (intro udp_pcb_release_out) simp_all
      then have "udp_out s (udp_pcb_release k ?s)" using udp_out_trans [OF out] by blast
      then show ?thesis using c r True by (simp add: udp_recvfrom_resume_def Let_def)
    next
      case False
      have "t \<notin> pcb_threads ?p"
        using c r t wk by (auto simp: pcb_threads_def sched_sleep_end_def Let_def wf_pcb_def sched_inv_def split: if_splits)
      then have "t \<notin> pcb_threads (pcbs ?s ! k)" using k'(2) by simp
      from udp_recv_pop_out [OF _ k'(1) this sz, of foreign] wf' obtain q u where
        "udp_recv_pop t k buf sz foreign ?s = Some (q, u)" "udp_out ?s u" by auto
      with udp_out_trans [OF out] c r False show ?thesis by (simp add: udp_recvfrom_resume_def Let_def)
    qed
  qed
qed

subsection \<open>Sequences of operations\<close>

datatype udp_cmd =
  Udp_Open
| Udp_Close int
| Udp_Bind int IP_ENDPOINT
| Udp_Sendto int bytes IP_ENDPOINT
| Udp_Recvfrom nat int bytes
| Udp_Resume nat nat bytes
| Udp_Input bytes u32 u32 nat
| Udp_Event

text \<open>
  A thread that sleeps cannot call, and only a woken thread resumes; IP hands over at most
  \<^verbatim>\<open>MAX_IP_PAYLOAD_SIZE\<close> bytes. Any other operation is possible at any time, with any arguments.
\<close>

fun udp_enabled :: "udp_cmd \<Rightarrow> 'a udp_state_scheme \<Rightarrow> bool" where
  "udp_enabled (Udp_Recvfrom t ident buf) s = list_all (\<lambda>pcb. t \<notin> pcb_threads pcb) (pcbs s)"
| "udp_enabled (Udp_Resume t k buf) s = (k < length (pcbs s) \<and> t \<in> set (sc_ready (pcb_ctx (pcbs s ! k))))"
| "udp_enabled (Udp_Input data src dst iface) s = (length data \<le> MAX_IP_PAYLOAD_SIZE)"
| "udp_enabled _ s = True"

fun udp_do :: "udp_cmd \<Rightarrow> 'a udp_state_scheme \<Rightarrow> 'a udp_state_scheme option" where
  "udp_do Udp_Open s = Some (snd (udp_open s))"
| "udp_do (Udp_Close ident) s = Some (snd (udp_close ident s))"
| "udp_do (Udp_Bind ident local) s = Some (snd (udp_bind ident local s))"
| "udp_do (Udp_Sendto ident data foreign) s = map_option snd (udp_sendto ident data (length data) foreign s)"
| "udp_do (Udp_Recvfrom t ident buf) s = map_option snd (udp_recvfrom t ident buf (length buf) (Some ep_none) s)"
| "udp_do (Udp_Resume t k buf) s = map_option snd (udp_recvfrom_resume t k buf (length buf) (Some ep_none) s)"
| "udp_do (Udp_Input data src dst iface) s = udp_input data (length data) src dst iface s"
| "udp_do Udp_Event s = Some (event_handler_udp s)"

fun udp_run :: "udp_cmd list \<Rightarrow> 'a udp_state_scheme \<Rightarrow> 'a udp_state_scheme option" where
  "udp_run [] s = Some s"
| "udp_run (c # cs) s = (if udp_enabled c s then do { s \<leftarrow> udp_do c s; udp_run cs s } else udp_run cs s)"

lemma udp_do_out:
  assumes wf: "wf_udp s" and en: "udp_enabled c s"
  shows "\<exists>s'. udp_do c s = Some s' \<and> udp_out s s'"
proof -
  have wp: "wf_pcbs (pcbs s)" using wf by (simp add: wf_udp_def)
  show ?thesis
  proof (cases c)
    case (Udp_Sendto ident data foreign)
    then show ?thesis using udp_sendto_out [OF wf, of "length data" data ident foreign] by auto
  next
    case (Udp_Recvfrom t ident buf)
    then show ?thesis
      using udp_recvfrom_out [OF wp, of t "length buf" buf ident "Some ep_none"] en by (auto simp: list_all_iff)
  next
    case (Udp_Resume t k buf)
    then show ?thesis using udp_recvfrom_resume_out [OF wp, of k t "length buf" buf "Some ep_none"] en by auto
  next
    case (Udp_Input data src dst iface)
    then show ?thesis using udp_input_out [of "length data" data src dst iface s] en by simp
  qed (use udp_open_out [of s] udp_close_out [OF wp] udp_bind_out [OF wp] event_handler_udp_out [of s] in simp_all)
qed

lemma udp_run_out:
  "wf_udp s \<Longrightarrow> \<exists>s'. udp_run cs s = Some s' \<and> udp_out s s'"
proof (induction cs arbitrary: s)
  case (Cons c cs)
  show ?case
  proof (cases "udp_enabled c s")
    case True
    from udp_do_out [OF Cons.prems True] obtain t where t: "udp_do c s = Some t" "udp_out s t" by blast
    from Cons.IH [OF udp_out_wf [OF t(2) Cons.prems]] t True udp_out_trans show ?thesis by fastforce
  next
    case False
    with Cons show ?thesis by simp
  qed
qed simp

section \<open>Properties\<close>

definition zero_pcb :: udp_pcb where
  "zero_pcb = \<lparr>pcb_state = UDP_PCB_STATE_FREE, pcb_local = ep_none, pcb_queue = lqueue_init,
     pcb_ctx = \<lparr>sc_wait = [], sc_ready = [], sc_interrupted = 0, sc_wc = 0\<rparr>\<rparr>"

definition udp_host :: "u8 \<Rightarrow> u32 \<Rightarrow> (nat \<Rightarrow> timeval) \<Rightarrow> udp_state" where
  "udp_host k ip clk = ip_state.extend (ip_host k ip clk)
     (udp_state.fields (replicate 16 zero_pcb) (\<lambda>c. if sc_wait c \<noteq> [] then 16 else 0))"

lemmas udp_host_defs = udp_host_def ip_host_defs udp_state.defs

lemma wf_pcbs_zero: "wf_pcbs (replicate 16 zero_pcb)"
  by (simp add: wf_pcbs_def UDP_PCB_SIZE_def wf_pcb_def zero_pcb_def lqueue_init_def sched_inv_def udp_unique_def)

lemma udp_host_ok: "wf_udp (udp_host k ip clk)"
proof -
  have "wf_net (udp_host k ip clk)"
    by (simp add: udp_host_defs wf_net_def wf_ifaces_def wf_device_def zero_device_def wf_queue_def
      NETWORK_DEVICE_ADDR_LEN_def lqueue_init_def ether_setup_helper_def ether_consts)
  moreover have "wf_caches (caches (udp_host k ip clk))"
    by (simp add: udp_host_defs wf_caches_def ARP_CACHE_SIZE_def arp_free_def ETHER_ADDR_LEN_def arp_used_def)
  moreover have "wf_pcbs (pcbs (udp_host k ip clk))"
    using wf_pcbs_zero by (simp add: udp_host_defs)
  ultimately show ?thesis
    by (simp add: wf_udp_def wf_ip_def wf_arp_def iface_ready_def) (simp add: udp_host_defs NETWORK_INTERFACE_FAMILY_IP_def)
qed

lemma udp_host_pcbs: "pcbs (udp_host k ip clk) = zero_pcb # replicate 15 zero_pcb" "mem_ok (udp_host k ip clk) n"
  by (simp_all add: udp_host_defs numeral_eq_Suc)

lemma udp_host_open:
  "udp_open (udp_host k ip clk) = (0, (udp_host k ip clk)\<lparr>pcbs := zero_pcb\<lparr>pcb_state := UDP_PCB_STATE_OPEN\<rparr> # replicate 15 zero_pcb\<rparr>)"
  by (simp add: udp_open_def udp_pcb_alloc_def udp_host_pcbs udp_pcb_id_def Let_def zero_pcb_def sched_ctx_init_def)

lemma udp_host_bind:
  "port \<noteq> 0 \<Longrightarrow> udp_bind 0 \<lparr>ep_address = addr, ep_port = port\<rparr> ((udp_host k ip clk)\<lparr>pcbs := zero_pcb\<lparr>pcb_state := UDP_PCB_STATE_OPEN\<rparr> # replicate 15 zero_pcb\<rparr>) =
     (0, (udp_host k ip clk)\<lparr>pcbs := zero_pcb\<lparr>pcb_state := UDP_PCB_STATE_OPEN, pcb_local := \<lparr>ep_address = addr, ep_port = port\<rparr>\<rparr> # replicate 15 zero_pcb\<rparr>)"
  using udp_pcb_select_None [of addr port "zero_pcb\<lparr>pcb_state := UDP_PCB_STATE_OPEN\<rparr> # replicate 15 zero_pcb"]
  by (simp add: udp_bind_def udp_pcb_get_def UDP_PCB_SIZE_def) (simp add: zero_pcb_def)



text \<open>
  C10. A datagram survives the trip: what \<open>udp_output\<close> hands to IP is accepted by \<open>udp_input\<close> on the
  host it is for, even with padding behind it, and is put at the end of the queue of the control block that
  is bound to the destination, with exactly the payload and the endpoint of the sender. All other blocks
  stay as they are and every thread that waits on the block is woken.
\<close>

theorem udp_roundtrip:
  assumes "len \<le> length data" "len \<le> 65507" "\<forall>n. mem_ok r n" "udp_pcb_select (ep_address dst) (ep_port dst) (pcbs r) = Some k"
  shows "\<exists>d r'. udp_output src dst data len s = do {
        (ret, s) \<leftarrow> ip_send_packet UDP_PROTOCOL d (8 + len) (ep_address src) (ep_address dst) s;
        Some (if ret = -1 then -1 else int len, s) } \<and>
    udp_input (d @ pad) (8 + len) (ep_address src) (ep_address dst) iface r = Some r' \<and>
    q_items (pcb_queue (pcbs r' ! k)) = q_items (pcb_queue (pcbs r ! k)) @
      [\<lparr>uq_foreign = src, uq_len = of_nat len, uq_data = take len data\<rparr>] \<and>
    sc_wait (pcb_ctx (pcbs r' ! k)) = [] \<and> set (sc_wait (pcb_ctx (pcbs r ! k))) \<subseteq> set (sc_ready (pcb_ctx (pcbs r' ! k))) \<and>
    (\<forall>j. j \<noteq> k \<longrightarrow> pcbs r' ! j = pcbs r ! j)"
proof -
  have k: "k < length (pcbs r)" using udp_pcb_select_Some [OF assms(4)] by simp
  show ?thesis
    using udp_output_eq [OF assms(1), of src dst s] assms(2) udp_input_datagram [OF assms, of src pad iface] k
    by (intro exI [of _ "udp_datagram src dst (take len data)"])
      (auto simp: udp_deliver_def Let_def sched_wakeup_def pthread_cond_broadcast_def)
qed

theorem udp_roundtrip_witness:
  "let r = snd (udp_bind 0 \<lparr>ep_address = 0, ep_port = 7\<rparr> (snd (udp_open (udp_host 2 0x020000c0 (\<lambda>_. Timeval 0 0)))))
   in \<exists>d r'. udp_input d 11 0x010000c0 0x020000c0 1 r = Some r' \<and>
        q_items (pcb_queue (pcbs r' ! 0)) = [\<lparr>uq_foreign = \<lparr>ep_address = 0x010000c0, ep_port = 9\<rparr>, uq_len = 3, uq_data = [1, 2, 3]\<rparr>]"
proof -
  let ?r = "snd (udp_bind 0 \<lparr>ep_address = 0, ep_port = 7\<rparr> (snd (udp_open (udp_host 2 0x020000c0 (\<lambda>_. Timeval 0 0)))))"
  have r: "pcbs ?r = zero_pcb\<lparr>pcb_state := UDP_PCB_STATE_OPEN, pcb_local := \<lparr>ep_address = 0, ep_port = 7\<rparr>\<rparr> # replicate 15 zero_pcb"
    "\<forall>n. mem_ok ?r n"
    by (simp_all add: udp_host_open udp_host_bind udp_host_pcbs)
  have sel: "udp_pcb_select 0x020000c0 7 (pcbs ?r) = Some 0"
    unfolding r by (simp add: udp_pcb_select_def IP_ADDR_ANY_def)
  from udp_roundtrip [of 3 "[1, 2, 3]" ?r "\<lparr>ep_address = 0x020000c0, ep_port = 7\<rparr>" 0 "\<lparr>ep_address = 0x010000c0, ep_port = 9\<rparr>" ?r "[]" 1]
  obtain d r' where "udp_input (d @ []) (8 + 3) 0x010000c0 0x020000c0 1 ?r = Some r'"
    "q_items (pcb_queue (pcbs r' ! 0)) = q_items (pcb_queue (pcbs ?r ! 0)) @
      [\<lparr>uq_foreign = \<lparr>ep_address = 0x010000c0, ep_port = 9\<rparr>, uq_len = of_nat 3, uq_data = take 3 [1, 2, 3]\<rparr>]"
    using sel r(2) by auto
  then have "udp_input d 11 0x010000c0 0x020000c0 1 ?r = Some r' \<and>
      q_items (pcb_queue (pcbs r' ! 0)) = [\<lparr>uq_foreign = \<lparr>ep_address = 0x010000c0, ep_port = 9\<rparr>, uq_len = 3, uq_data = [1, 2, 3]\<rparr>]"
    unfolding r(1) by (simp add: zero_pcb_def lqueue_init_def)
  then show ?thesis by (auto simp: Let_def)
qed

text \<open>
  C22. The first datagram sent from an unbound socket gets a source port from the dynamic range
  49152 to 65535 that no open control block uses on the address it is sent from. The search always
  succeeds, since there are more ports than control blocks, and the port stays with the socket. A socket
  with a port keeps it. The datagram leaves with this port and this address.
\<close>

theorem udp_sendto_port:
  assumes "wf_udp s" "udp_pcb_get ident s = Some k" "udp_source_address (pcbs s ! k) foreign s = Some (Some addr)" "len \<le> length data"
  shows "\<exists>port r s'. udp_sendto ident data len foreign s = Some (r, s') \<and>
    udp_output \<lparr>ep_address = addr, ep_port = port\<rparr> foreign data len
      (s\<lparr>pcbs := (pcbs s)[k := (pcbs s ! k)\<lparr>pcb_local := (pcb_local (pcbs s ! k))\<lparr>ep_port := port\<rparr>\<rparr>]\<rparr>) = Some (r, s') \<and>
    ep_port (pcb_local (pcbs s' ! k)) = port \<and>
    (if ep_port (pcb_local (pcbs s ! k)) = 0
     then 49152 \<le> unat (ntoh16 port) \<and>
       (\<forall>pcb \<in> set (pcbs s). pcb_state pcb = UDP_PCB_STATE_OPEN \<longrightarrow> ep_port (pcb_local pcb) = port \<longrightarrow>
          ep_address (pcb_local pcb) \<notin> {IP_ADDR_ANY, addr})
     else port = ep_port (pcb_local (pcbs s ! k)))"
proof -
  have wp: "wf_pcbs (pcbs s)" using assms(1) by (simp add: wf_udp_def)
  from udp_sendto_eq [OF wp assms(2,3), of data len] obtain port where
    eq: "udp_sendto ident data len foreign s = udp_output \<lparr>ep_address = addr, ep_port = port\<rparr> foreign data len
      (s\<lparr>pcbs := (pcbs s)[k := (pcbs s ! k)\<lparr>pcb_local := (pcb_local (pcbs s ! k))\<lparr>ep_port := port\<rparr>\<rparr>]\<rparr>)"
    and port: "if ep_port (pcb_local (pcbs s ! k)) = 0
      then \<exists>p. 49152 \<le> p \<and> p \<le> 65535 \<and> port = hton16 (of_nat p) \<and> udp_pcb_select addr port (pcbs s) = None
      else port = ep_port (pcb_local (pcbs s ! k))" by blast
  let ?t = "s\<lparr>pcbs := (pcbs s)[k := (pcbs s ! k)\<lparr>pcb_local := (pcb_local (pcbs s ! k))\<lparr>ep_port := port\<rparr>\<rparr>]\<rparr>"
  have "if ep_port (pcb_local (pcbs s ! k)) = 0 then udp_pcb_select addr port (pcbs s) = None else port = ep_port (pcb_local (pcbs s ! k))"
    using port by (cases "ep_port (pcb_local (pcbs s ! k)) = 0") auto
  from udp_assign_wf [OF wp assms(2,3) this] have "wf_ip ?t"
    using udp_out_wf [OF udp_out_pcbs_only assms(1)] by (simp add: wf_udp_def)
  from udp_output_out [OF this assms(4)] obtain r s' where
    out: "udp_output \<lparr>ep_address = addr, ep_port = port\<rparr> foreign data len ?t = Some (r, s')" "ip_out ?t s'" by blast
  have "pcbs s' = pcbs ?t" using ip_out_pcbs [OF out(2)] .
  then have loc: "ep_port (pcb_local (pcbs s' ! k)) = port" using udp_pcb_get_bound [OF wp assms(2)] by simp
  have "49152 \<le> unat (ntoh16 port) \<and> udp_pcb_select addr port (pcbs s) = None" if z: "ep_port (pcb_local (pcbs s ! k)) = 0"
  proof -
    from port z obtain p where p: "49152 \<le> p" "p \<le> 65535" "port = hton16 (of_nat p)" "udp_pcb_select addr port (pcbs s) = None" by auto
    have "unat (of_nat p :: u16) = p" using p(2) by (intro unat_of_nat_u16) simp
    with p show ?thesis by simp
  qed
  with port eq out loc show ?thesis
    by (intro exI [of _ port] exI [of _ r] exI [of _ s']) (auto simp: udp_pcb_select_None)
qed

theorem udp_sendto_port_witness:
  "let s = snd (udp_open (udp_host 1 0x010000c0 (\<lambda>_. Timeval 0 0)))
   in \<exists>r s'. udp_sendto 0 [1, 2, 3] 3 \<lparr>ep_address = 0x020000c0, ep_port = 7\<rparr> s = Some (r, s') \<and>
        49152 \<le> unat (ntoh16 (ep_port (pcb_local (pcbs s' ! 0))))"
proof -
  let ?s = "snd (udp_open (udp_host 1 0x010000c0 (\<lambda>_. Timeval 0 0)))"
  have wf: "wf_udp ?s" using udp_out_wf [OF udp_open_out udp_host_ok] .
  have p: "pcbs ?s ! 0 = zero_pcb\<lparr>pcb_state := UDP_PCB_STATE_OPEN\<rparr>" by (simp add: udp_host_open)
  have g: "udp_pcb_get 0 ?s = Some 0" by (simp add: udp_pcb_get_Some p)
  have a: "udp_source_address (pcbs ?s ! 0) \<lparr>ep_address = 0x020000c0, ep_port = 7\<rparr> ?s = Some (Some 0x010000c0)"
    unfolding p by (simp add: udp_source_address_def zero_pcb_def ip_get_interface_def ip_route_lookup_def udp_host_open)
      (simp add: udp_host_defs ntoh32_eq byteswap32_def)
  from udp_sendto_port [OF wf g a, of 3 "[1, 2, 3]"] p show ?thesis
    by (auto simp: Let_def zero_pcb_def)
qed



text \<open>
  C15. A receiver that sleeps is served: when a datagram arrives for its socket, the thread is woken, and
  when it is the next to get the mutex it returns with the datagram.
\<close>

theorem udp_blocked_receive_delivers:
  assumes "wf_udp s" "sz \<le> length buf" "udp_recvfrom t ident buf sz (Some ep) s = Some (Recv_Asleep, s1)" "udp_pcb_get ident s = Some k"
    and "len \<le> length data" "len \<le> 65507" "\<forall>n. mem_ok s n" "udp_pcb_select (ep_address dst) (ep_port dst) (pcbs s) = Some k"
  shows "\<exists>s2 buf' s3. udp_input (udp_datagram src dst (take len data)) (8 + len) (ep_address src) (ep_address dst) iface s1 = Some s2 \<and>
    t \<in> set (sc_ready (pcb_ctx (pcbs s2 ! k))) \<and>
    udp_recvfrom_resume t k buf sz (Some ep) s2 = Some (Recv_Returned (int (min sz len)) buf' (Some src), s3) \<and>
    take (min sz len) buf' = take (min sz len) data"
proof -
  have wp: "wf_pcbs (pcbs s)" using assms(1) by (simp add: wf_udp_def)
  have k: "k < length (pcbs s)" using udp_pcb_get_bound [OF wp assms(4)] .
  have op: "pcb_state (pcbs s ! k) = UDP_PCB_STATE_OPEN" using assms(4) by (auto simp: udp_pcb_get_Some)
  let ?c = "pcb_ctx (pcbs s ! k)"
  let ?c1 = "?c\<lparr>sc_wc := sc_wc ?c + 1, sc_wait := sc_wait ?c @ [t]\<rparr>"
  let ?p1 = "(pcbs s ! k)\<lparr>pcb_ctx := ?c1\<rparr>"
  have pop: "udp_recv_pop t k buf sz (Some ep) s = Some (Recv_Asleep, s1)" using assms(3,4) by (simp add: udp_recvfrom_def)
  have nil: "q_items (pcb_queue (pcbs s ! k)) = []"
    using pop udp_recv_pop_entry [OF wf_pcb_nth [OF wp k] _ assms(2), of _ _ t "Some ep"]
    by (cases "q_items (pcb_queue (pcbs s ! k))") auto
  then have ni: "sc_interrupted ?c = 0" and s1: "s1 = s\<lparr>pcbs := (pcbs s)[k := ?p1]\<rparr>"
    using pop by (auto simp: udp_recv_pop_empty split: if_splits)
  have sel: "udp_pcb_select (ep_address dst) (ep_port dst) (pcbs s1) = Some k"
  proof -
    have "map (\<lambda>p. (pcb_state p, pcb_local p)) (pcbs s1) = map (\<lambda>p. (pcb_state p, pcb_local p)) (pcbs s)"
      using k by (auto simp: s1 list_eq_iff_nth_eq nth_list_update)
    moreover have "udp_pcb_select a q ps = find_slot (\<lambda>(st, l). st = UDP_PCB_STATE_OPEN \<and> (ep_address l = IP_ADDR_ANY \<or> ep_address l = a) \<and>
        ep_port l = q) (map (\<lambda>p. (pcb_state p, pcb_local p)) ps)" for a q ps
      unfolding udp_pcb_select_def by (induction ps) auto
    ultimately show ?thesis using assms(8) by simp
  qed
  have mem: "\<forall>n. mem_ok s1 n" using assms(7) s1 by simp
  let ?d = "udp_datagram src dst (take len data)"
  let ?e = "\<lparr>uq_foreign = src, uq_len = of_nat len, uq_data = take len data\<rparr>"
  obtain s2 where s2: "udp_input ?d (8 + len) (ep_address src) (ep_address dst) iface s1 = Some s2"
    "pcbs s2 = udp_deliver k ?e (pcbs s1)"
    using udp_input_datagram [OF assms(5,6) mem sel, of src "[]" iface] by auto
  let ?c2 = "snd (sched_wakeup ?c1)"
  let ?p2 = "?p1\<lparr>pcb_queue := (pcb_queue (pcbs s ! k))\<lparr>q_items := [?e], q_num := q_num (pcb_queue (pcbs s ! k)) + 1\<rparr>, pcb_ctx := ?c2\<rparr>"
  have p2: "pcbs s2 ! k = ?p2" "k < length (pcbs s2)"
    using s2(2) s1 k nil by (simp_all add: udp_deliver_def Let_def)
  have rdy: "t \<in> set (sc_ready ?c2)" by (simp add: sched_wakeup_def pthread_cond_broadcast_def)
  obtain c3 where c3: "sched_sleep_end t 0 ?c2 = (0, c3)"
    using ni by (simp add: sched_sleep_end_def sched_wakeup_def pthread_cond_broadcast_def Let_def)
  let ?s3 = "s2\<lparr>pcbs := (pcbs s2)[k := ?p2\<lparr>pcb_ctx := c3\<rparr>]\<rparr>"
  have "unat (of_nat len :: u16) = len" using assms(6) by (intro unat_of_nat_u16) simp
  then have e: "unat (uq_len ?e) = length (uq_data ?e)" using assms(5) by simp
  have p3: "pcbs ?s3 ! k = ?p2\<lparr>pcb_ctx := c3\<rparr>" using p2(2) by simp
  have res: "udp_recvfrom_resume t k buf sz (Some ep) s2 = udp_recv_pop t k buf sz (Some ep) ?s3"
    using p2 c3 op by (simp add: udp_recvfrom_resume_def Let_def)
  let ?b = "take sz (take len data) @ drop (min sz (length (take len data))) buf"
  have l: "length (take len data) = len" using assms(5) by simp
  have lb: "length (take sz (take len data)) = min sz len" using assms(5) by simp
  have b: "take (min sz len) ?b = take (min sz len) data"
    unfolding take_append lb by (simp add: take_take)
  have it: "q_items (pcb_queue (pcbs ?s3 ! k)) = ?e # []" unfolding p3 by simp
  obtain s4 where "udp_recv_pop t k buf sz (Some ep) ?s3 = Some (Recv_Returned (int (min sz len)) ?b (Some src), s4)"
    using udp_recv_pop_first [OF e it assms(2), of t "Some ep"] l by auto
  with s2(1) p2 rdy res b show ?thesis
    by (intro exI [of _ s2] exI [of _ ?b] exI [of _ s4]) simp
qed

theorem udp_blocked_receive_delivers_witness:
  "let s = snd (udp_bind 0 \<lparr>ep_address = 0, ep_port = 7\<rparr> (snd (udp_open (udp_host 2 0x020000c0 (\<lambda>_. Timeval 0 0)))))
   in \<exists>s1 s2 s3 buf'. udp_recvfrom 5 0 [0, 0] 2 (Some \<lparr>ep_address = 0, ep_port = 0\<rparr>) s = Some (Recv_Asleep, s1) \<and>
     udp_input (udp_datagram \<lparr>ep_address = 0x010000c0, ep_port = 9\<rparr> \<lparr>ep_address = 0x020000c0, ep_port = 7\<rparr> [1, 2, 3]) 11
       0x010000c0 0x020000c0 1 s1 = Some s2 \<and>
     udp_recvfrom_resume 5 0 [0, 0] 2 (Some \<lparr>ep_address = 0, ep_port = 0\<rparr>) s2 =
       Some (Recv_Returned 2 buf' (Some \<lparr>ep_address = 0x010000c0, ep_port = 9\<rparr>), s3) \<and> take 2 buf' = [1, 2]"
proof -
  let ?s = "(udp_host 2 0x020000c0 (\<lambda>_. Timeval 0 0))\<lparr>pcbs := zero_pcb\<lparr>pcb_state := UDP_PCB_STATE_OPEN, pcb_local := \<lparr>ep_address = 0, ep_port = 7\<rparr>\<rparr> # replicate 15 zero_pcb\<rparr>"
  have s: "snd (udp_bind 0 \<lparr>ep_address = 0, ep_port = 7\<rparr> (snd (udp_open (udp_host 2 0x020000c0 (\<lambda>_. Timeval 0 0))))) = ?s"
    by (simp add: udp_host_open udp_host_bind)
  have wo: "wf_udp (snd (udp_open (udp_host 2 0x020000c0 (\<lambda>_. Timeval 0 0))))" using udp_out_wf [OF udp_open_out udp_host_ok] .
  then have "wf_pcbs (pcbs (snd (udp_open (udp_host 2 0x020000c0 (\<lambda>_. Timeval 0 0)))))" by (simp add: wf_udp_def)
  from udp_out_wf [OF udp_bind_out [OF this] wo] have wf: "wf_udp ?s" unfolding s [symmetric] .
  have g: "udp_pcb_get 0 ?s = Some 0" by (simp add: udp_pcb_get_Some)
  obtain s1 where s1: "udp_recvfrom 5 0 [0, 0] 2 (Some \<lparr>ep_address = 0, ep_port = 0\<rparr>) ?s = Some (Recv_Asleep, s1)"
    using g by (simp add: udp_recvfrom_def udp_recv_pop_empty zero_pcb_def lqueue_init_def)
  have sel: "udp_pcb_select 0x020000c0 7 (pcbs ?s) = Some 0" by (simp add: udp_pcb_select_def IP_ADDR_ANY_def)
  from udp_blocked_receive_delivers [OF wf _ s1 g, of 3 "[1, 2, 3]" "\<lparr>ep_address = 0x020000c0, ep_port = 7\<rparr>" "\<lparr>ep_address = 0x010000c0, ep_port = 9\<rparr>" 1]
  have "\<exists>s2 buf' s3. udp_input (udp_datagram \<lparr>ep_address = 0x010000c0, ep_port = 9\<rparr> \<lparr>ep_address = 0x020000c0, ep_port = 7\<rparr> [1, 2, 3]) 11
       0x010000c0 0x020000c0 1 s1 = Some s2 \<and> udp_recvfrom_resume 5 0 [0, 0] 2 (Some \<lparr>ep_address = 0, ep_port = 0\<rparr>) s2 =
       Some (Recv_Returned 2 buf' (Some \<lparr>ep_address = 0x010000c0, ep_port = 9\<rparr>), s3) \<and> take 2 buf' = [1, 2]"
    using sel by (auto simp: udp_host_pcbs)
  with s1 show ?thesis unfolding s Let_def by blast
qed

text \<open>
  Closing a socket does not wake its receivers. \<^verbatim>\<open>pthread_cond_destroy\<close> returns zero or a positive
  error number, so that the comparison of its result with -1 never holds: the control block is free at
  once, the state CLOSING is left behind, and a thread that sleeps on the block stays asleep.
\<close>

theorem udp_close_forgets_sleepers:
  assumes "\<forall>c. cond_destroy s c \<ge> 0" "wf_udp s" "udp_pcb_get ident s = Some k"
  shows "\<exists>s'. udp_close ident s = (0, s') \<and> pcb_state (pcbs s' ! k) = UDP_PCB_STATE_FREE \<and>
    sc_wait (pcb_ctx (pcbs s' ! k)) = sc_wait (pcb_ctx (pcbs s ! k)) \<and> sc_ready (pcb_ctx (pcbs s' ! k)) = sc_ready (pcb_ctx (pcbs s ! k))"
proof -
  have "cond_destroy s c \<noteq> -1" for c using assms(1) [rule_format, of c] by linarith
  moreover have "k < length (pcbs s)" using udp_pcb_get_bound [OF _ assms(3)] assms(2) by (simp add: wf_udp_def)
  ultimately show ?thesis
    using assms(3) by (simp add: udp_close_def udp_pcb_release_def sched_ctx_destroy_def Let_def)
qed

theorem udp_close_forgets_sleepers_witness:
  "let s = the (map_option snd (udp_recvfrom 5 0 [0] 1 None (snd (udp_open (udp_host 1 0x010000c0 (\<lambda>_. Timeval 0 0))))))
   in \<exists>s'. udp_close 0 s = (0, s') \<and> pcb_state (pcbs s' ! 0) = UDP_PCB_STATE_FREE \<and> sc_wait (pcb_ctx (pcbs s' ! 0)) = [5]"
proof -
  let ?o = "snd (udp_open (udp_host 1 0x010000c0 (\<lambda>_. Timeval 0 0)))"
  have wo: "wf_udp ?o" using udp_out_wf [OF udp_open_out udp_host_ok] .
  have "\<forall>pcb \<in> set (pcbs ?o). 5 \<notin> pcb_threads pcb" by (simp add: udp_host_open pcb_threads_def zero_pcb_def)
  from udp_recvfrom_out [OF _ this, of 1 "[0]" 0 None] wo obtain r s where
    s: "udp_recvfrom 5 0 [0] 1 None ?o = Some (r, s)" "udp_out ?o s" by (auto simp: wf_udp_def)
  have wf: "wf_udp s" using udp_out_wf [OF s(2) wo] .
  have p: "pcbs s ! 0 = zero_pcb\<lparr>pcb_state := UDP_PCB_STATE_OPEN, pcb_ctx := \<lparr>sc_wait = [5], sc_ready = [], sc_interrupted = 0, sc_wc = 1\<rparr>\<rparr>"
    "cond_destroy s = cond_destroy ?o"
    using s(1) by (auto simp: udp_host_open udp_recvfrom_def udp_pcb_get_def UDP_PCB_SIZE_def udp_recv_pop_empty zero_pcb_def lqueue_init_def)
  have "\<forall>c. cond_destroy s c \<ge> 0" unfolding p(2) by (simp add: udp_host_open) (simp add: udp_host_defs)
  moreover have "udp_pcb_get 0 s = Some 0" by (simp add: udp_pcb_get_Some p(1))
  ultimately show ?thesis
    using udp_close_forgets_sleepers [OF _ wf, of 0 0] p(1) s(1) by (auto simp: Let_def)
qed

end
