(* ===== verification/Sock.thy ===== *)
theory Sock
  imports Udp
begin

text \<open>
  The socket interface, \<^verbatim>\<open>src/lib/sock.c\<close>: a table of descriptors over the UDP control blocks and the
  texts of socket addresses. As in \<open>Udp\<close>, a receiving thread returns or sleeps, and
  \<open>sock_recvfrom_resume\<close> is what it does once it is awake again.
\<close>

section \<open>Definitions\<close>

definition MAX_SOCKS :: nat where "MAX_SOCKS = 128"
definition AF_INET :: int where "AF_INET = 2"
definition SOCK_STREAM :: int where "SOCK_STREAM = 1"
definition SOCK_DGRAM :: int where "SOCK_DGRAM = 2"
definition SOCKADDR_STR_LEN :: nat where "SOCKADDR_STR_LEN = MAX_IP_ENDPOINT_STRING_LENGTH"

lemmas sock_consts = MAX_SOCKS_def AF_INET_def SOCK_STREAM_def SOCK_DGRAM_def

record sock =
  so_used :: int
  so_family :: int
  so_type :: int
  so_desc :: int

record sockaddr_in =
  sin_family :: u16
  sin_port :: u16
  sin_addr :: u32

record sock_state = udp_state +
  socks :: "sock list"

definition sockaddr_in_size :: nat where "sockaddr_in_size = 8"

subsection \<open>Addresses\<close>

text \<open>\<open>ep\<close> is the content of the uninitialised local variable, \<open>n\<close> the object behind the pointer.\<close>

definition sockaddr_pton :: "IP_ENDPOINT \<Rightarrow> string \<Rightarrow> sockaddr_in \<Rightarrow> nat \<Rightarrow> (int \<times> sockaddr_in) option" where
  "sockaddr_pton ep p n sz = do {
     (r, ep) \<leftarrow> ip_string_to_endpoint p ep;
     Some (if r = 0 \<and> sz \<ge> sockaddr_in_size
           then (0, n\<lparr>sin_family := of_int AF_INET, sin_port := ep_port ep, sin_addr := ep_address ep\<rparr>)
           else (-1, n))
   }"

text \<open>\<open>None\<close> is the null pointer.\<close>

definition sockaddr_ntop :: "sockaddr_in \<Rightarrow> nat \<Rightarrow> string option" where
  "sockaddr_ntop n sz =
     (if sin_family n = of_int AF_INET \<and> sz \<ge> MAX_IP_ENDPOINT_STRING_LENGTH
      then Some (ip_endpoint_to_string \<lparr>ep_address = sin_addr n, ep_port = sin_port n\<rparr> sz)
      else None)"

subsection \<open>Descriptors\<close>

definition sock_alloc :: "'a sock_state_scheme \<Rightarrow> nat option \<times> 'a sock_state_scheme" where
  "sock_alloc s =
     (case find_slot (\<lambda>so. so_used so = 0) (socks s) of
        None \<Rightarrow> (None, s)
      | Some i \<Rightarrow> (Some i, s\<lparr>socks := (socks s)[i := (socks s ! i)\<lparr>so_used := 1\<rparr>]\<rparr>))"

definition sock_free :: "nat \<Rightarrow> 'a sock_state_scheme \<Rightarrow> int \<times> 'a sock_state_scheme" where
  "sock_free i s = (0, s\<lparr>socks := (socks s)[i := \<lparr>so_used = 0, so_family = 0, so_type = 0, so_desc = 0\<rparr>]\<rparr>)"

definition sock_get :: "int \<Rightarrow> nat option" where
  "sock_get ident = (if ident < 0 \<or> nat ident \<ge> MAX_SOCKS then None else Some (nat ident))"

definition sock_open :: "int \<Rightarrow> int \<Rightarrow> int \<Rightarrow> 'a sock_state_scheme \<Rightarrow> int \<times> 'a sock_state_scheme" where
  "sock_open domain type protocol s =
     (if domain \<noteq> AF_INET \<or> (type \<noteq> SOCK_STREAM \<and> type \<noteq> SOCK_DGRAM) \<or> protocol \<noteq> 0 then (-1, s)
      else case sock_alloc s of
        (None, s) \<Rightarrow> (-1, s)
      | (Some i, s) \<Rightarrow>
          (let s = s\<lparr>socks := (socks s)[i := (socks s ! i)\<lparr>so_family := domain, so_type := type\<rparr>]\<rparr>;
               s = (if type = SOCK_DGRAM
                    then let (d, s) = udp_open s in s\<lparr>socks := (socks s)[i := (socks s ! i)\<lparr>so_desc := d\<rparr>]\<rparr>
                    else s)
           in (if so_desc (socks s ! i) = -1 then -1 else int i, s)))"

definition sock_close :: "int \<Rightarrow> 'a sock_state_scheme \<Rightarrow> int \<times> 'a sock_state_scheme" where
  "sock_close ident s =
     (case sock_get ident of
        None \<Rightarrow> (-1, s)
      | Some i \<Rightarrow>
          (if so_type (socks s ! i) = SOCK_DGRAM
           then let (_, s) = udp_close (so_desc (socks s ! i)) s in sock_free i s
           else (-1, s)))"

text \<open>The test that the three data operations start with.\<close>

definition sock_dgram :: "int \<Rightarrow> 'a sock_state_scheme \<Rightarrow> int option" where
  "sock_dgram ident s =
     (case sock_get ident of
        None \<Rightarrow> None
      | Some i \<Rightarrow>
          if so_type (socks s ! i) \<noteq> SOCK_DGRAM \<or> so_family (socks s ! i) \<noteq> AF_INET then None
          else Some (so_desc (socks s ! i)))"

datatype sock_recv = Sock_Returned int bytes sockaddr_in | Sock_Asleep

text \<open>What is left to do when \<^verbatim>\<open>udp_recvfrom\<close> is back.\<close>

fun sock_recv_finish :: "sockaddr_in \<Rightarrow> udp_recv \<Rightarrow> sock_recv" where
  "sock_recv_finish addr Recv_Asleep = Sock_Asleep"
| "sock_recv_finish addr (Recv_Returned ret buf ep) =
     Sock_Returned ret buf
       (if ret \<noteq> -1 then addr\<lparr>sin_addr := ep_address (the ep), sin_port := ep_port (the ep)\<rparr> else addr)"

definition sock_recvfrom ::
  "nat \<Rightarrow> int \<Rightarrow> bytes \<Rightarrow> nat \<Rightarrow> IP_ENDPOINT \<Rightarrow> sockaddr_in \<Rightarrow> 'a sock_state_scheme \<Rightarrow> (sock_recv \<times> 'a sock_state_scheme) option" where
  "sock_recvfrom t ident buf n ep addr s =
     (case sock_dgram ident s of
        None \<Rightarrow> Some (Sock_Returned (-1) buf addr, s)
      | Some desc \<Rightarrow> map_option (\<lambda>(r, s). (sock_recv_finish addr r, s)) (udp_recvfrom t desc buf n (Some ep) s))"

definition sock_recvfrom_resume ::
  "nat \<Rightarrow> nat \<Rightarrow> bytes \<Rightarrow> nat \<Rightarrow> IP_ENDPOINT \<Rightarrow> sockaddr_in \<Rightarrow> 'a sock_state_scheme \<Rightarrow> (sock_recv \<times> 'a sock_state_scheme) option" where
  "sock_recvfrom_resume t k buf n ep addr s =
     map_option (\<lambda>(r, s). (sock_recv_finish addr r, s)) (udp_recvfrom_resume t k buf n (Some ep) s)"

definition sock_sendto :: "int \<Rightarrow> bytes \<Rightarrow> nat \<Rightarrow> sockaddr_in \<Rightarrow> 'a sock_state_scheme \<Rightarrow> (int \<times> 'a sock_state_scheme) option" where
  "sock_sendto ident buf n addr s =
     (case sock_dgram ident s of
        None \<Rightarrow> Some (-1, s)
      | Some desc \<Rightarrow> udp_sendto desc buf n \<lparr>ep_address = sin_addr addr, ep_port = sin_port addr\<rparr> s)"

definition sock_bind :: "int \<Rightarrow> sockaddr_in \<Rightarrow> 'a sock_state_scheme \<Rightarrow> int \<times> 'a sock_state_scheme" where
  "sock_bind ident addr s =
     (case sock_dgram ident s of
        None \<Rightarrow> (-1, s)
      | Some desc \<Rightarrow> udp_bind desc \<lparr>ep_address = sin_addr addr, ep_port = sin_port addr\<rparr> s)"

section \<open>Invariant\<close>

definition pcb_open :: "udp_pcb list \<Rightarrow> nat \<Rightarrow> bool" where
  "pcb_open ps k \<longleftrightarrow> k < length ps \<and> pcb_state (ps ! k) = UDP_PCB_STATE_OPEN"

abbreviation zero_sock :: sock where "zero_sock \<equiv> \<lparr>so_used = 0, so_family = 0, so_type = 0, so_desc = 0\<rparr>"

text \<open>
  The datagram sockets and the open control blocks correspond one to one, except for the sockets
  that failed to get a block; a slot that is not in use is zero.
\<close>

definition wf_socks :: "udp_pcb list \<Rightarrow> sock list \<Rightarrow> bool" where
  "wf_socks ps ss \<longleftrightarrow>
     length ss = MAX_SOCKS \<and> (\<forall>i < length ss. so_used (ss ! i) = 0 \<longrightarrow> ss ! i = zero_sock) \<and>
     (\<forall>i < length ss. so_type (ss ! i) = SOCK_DGRAM \<longrightarrow>
        so_desc (ss ! i) = -1 \<or> so_desc (ss ! i) \<ge> 0 \<and> pcb_open ps (nat (so_desc (ss ! i)))) \<and>
     (\<forall>i < length ss. \<forall>j < length ss. i \<noteq> j \<longrightarrow> so_type (ss ! i) = SOCK_DGRAM \<longrightarrow> so_type (ss ! j) = SOCK_DGRAM \<longrightarrow>
        so_desc (ss ! i) = so_desc (ss ! j) \<longrightarrow> so_desc (ss ! i) = -1) \<and>
     (\<forall>k. pcb_open ps k \<longrightarrow> (\<exists>i < length ss. so_type (ss ! i) = SOCK_DGRAM \<and> so_desc (ss ! i) = int k))"

definition wf_sock :: "'a sock_state_scheme \<Rightarrow> bool" where
  "wf_sock s \<longleftrightarrow> wf_udp s \<and> wf_socks (pcbs s) (socks s)"

section \<open>Lemmas\<close>

lemma udp_more_sock: "udp_state.more s' = udp_state.more s \<Longrightarrow> socks s' = socks s \<and> sock_state.more s' = sock_state.more s"
  by (cases s, cases s') simp

lemma udp_out_socks: "udp_out s s' \<Longrightarrow> socks s' = socks s"
  using udp_more_sock [of s' s] by (simp add: udp_out_def)

lemma wf_socks_cong: "pcb_open ps' = pcb_open ps \<Longrightarrow> wf_socks ps' ss = wf_socks ps ss"
  by (simp only: wf_socks_def)

lemma wf_sock_quiet:
  assumes "wf_sock s" "udp_out s s'" "pcb_open (pcbs s') = pcb_open (pcbs s)"
  shows "wf_sock s'"
  using assms udp_out_wf [OF assms(2)] udp_out_socks [OF assms(2)] wf_socks_cong [OF assms(3)]
  by (simp add: wf_sock_def)

subsection \<open>Which operations open and close control blocks\<close>

lemma pcb_open_update:
  "pcb_open (ps[k := p]) = (\<lambda>j. if j = k \<and> k < length ps then pcb_state p = UDP_PCB_STATE_OPEN else pcb_open ps j)"
  by (rule ext) (auto simp: pcb_open_def nth_list_update)

lemma pcb_open_same_state: "pcb_state p = pcb_state (ps ! k) \<Longrightarrow> pcb_open (ps[k := p]) = pcb_open ps"
  by (auto simp: pcb_open_update pcb_open_def fun_eq_iff)

lemma udp_open_opens:
  assumes "udp_open s = (r, s')"
  shows "r = -1 \<and> s' = s \<or>
    (\<exists>k. r = int k \<and> \<not> pcb_open (pcbs s) k \<and> pcb_open (pcbs s') = (\<lambda>j. j = k \<or> pcb_open (pcbs s) j))"
proof (cases "find_slot (\<lambda>pcb. pcb_state pcb = UDP_PCB_STATE_FREE) (pcbs s)")
  case None
  with assms show ?thesis by (simp add: udp_open_def udp_pcb_alloc_def)
next
  case (Some k)
  have "k < length (pcbs s)" "pcb_state (pcbs s ! k) = UDP_PCB_STATE_FREE" using find_slot_SomeD [OF Some] by auto
  moreover from Some assms have "r = int k" "pcbs s' = (pcbs s)[k := (pcbs s ! k)\<lparr>pcb_state := UDP_PCB_STATE_OPEN,
      pcb_ctx := snd (sched_ctx_init (pcb_ctx (pcbs s ! k)))\<rparr>]"
    by (auto simp: udp_open_def udp_pcb_alloc_def udp_pcb_id_def Let_def)
  ultimately show ?thesis
    by (intro disjI2 exI [of _ k]) (simp add: pcb_open_update fun_eq_iff, simp add: pcb_open_def)
qed

lemma udp_pcb_release_closes:
  "k < length (pcbs s) \<Longrightarrow> pcb_open (pcbs (udp_pcb_release k s)) = (\<lambda>j. j \<noteq> k \<and> pcb_open (pcbs s) j)"
  by (auto simp: udp_pcb_release_def Let_def pcb_open_update fun_eq_iff)

lemma udp_close_closes:
  assumes "wf_pcbs (pcbs s)"
  shows "pcb_open (pcbs (snd (udp_close d s))) = (\<lambda>j. int j \<noteq> d \<and> pcb_open (pcbs s) j)"
proof (cases "udp_pcb_get d s")
  case None
  then have "pcb_open (pcbs s) j \<Longrightarrow> int j \<noteq> d" for j
    using assms by (auto simp: udp_pcb_get_def pcb_open_def wf_pcbs_def UDP_PCB_SIZE_def split: if_splits)
  with None show ?thesis by (auto simp: udp_close_def fun_eq_iff)
next
  case (Some k)
  have k: "k < length (pcbs s)" using udp_pcb_get_bound [OF assms Some] .
  have "d = int k" using Some by (auto simp: udp_pcb_get_Some)
  with Some udp_pcb_release_closes [OF k] show ?thesis by (auto simp: udp_close_def fun_eq_iff)
qed

lemma udp_bind_open: "pcb_open (pcbs (snd (udp_bind d local s))) = pcb_open (pcbs s)"
  by (auto simp: udp_bind_def pcb_open_same_state split: option.splits)

lemma wf_ip_pcbs: "wf_ip (s\<lparr>pcbs := ps\<rparr>) = wf_ip s"
  by (simp add: wf_ip_def wf_arp_def wf_net_def wf_ifaces_def iface_ready_def)

lemma udp_sendto_open:
  assumes wf: "wf_udp s" and len: "len \<le> length data" and r: "udp_sendto d data len foreign s = Some (r, s')"
  shows "pcb_open (pcbs s') = pcb_open (pcbs s)"
proof (cases "udp_pcb_get d s")
  case None
  with r show ?thesis by (simp add: udp_sendto_def)
next
  case (Some k)
  have wi: "wf_ip s" and wp: "wf_pcbs (pcbs s)" using wf by (simp_all add: wf_udp_def)
  obtain a where a: "udp_source_address (pcbs s ! k) foreign s = Some a" using udp_source_address_defined [OF wi] by blast
  show ?thesis
  proof (cases a)
    case None
    with Some a r show ?thesis by (simp add: udp_sendto_def Let_def)
  next
    case (Some addr)
    with a have "udp_source_address (pcbs s ! k) foreign s = Some (Some addr)" by simp
    from udp_sendto_eq [OF wp \<open>udp_pcb_get d s = Some k\<close> this, of data len] r obtain port where
      eq: "udp_output \<lparr>ep_address = addr, ep_port = port\<rparr> foreign data len
        (s\<lparr>pcbs := (pcbs s)[k := (pcbs s ! k)\<lparr>pcb_local := (pcb_local (pcbs s ! k))\<lparr>ep_port := port\<rparr>\<rparr>]\<rparr>) = Some (r, s')"
      and port: "if ep_port (pcb_local (pcbs s ! k)) = 0
        then \<exists>p. 49152 \<le> p \<and> p \<le> 65535 \<and> port = hton16 (of_nat p) \<and> udp_pcb_select addr port (pcbs s) = None
        else port = ep_port (pcb_local (pcbs s ! k))" by auto
    let ?t = "s\<lparr>pcbs := (pcbs s)[k := (pcbs s ! k)\<lparr>pcb_local := (pcb_local (pcbs s ! k))\<lparr>ep_port := port\<rparr>\<rparr>]\<rparr>"
    have "wf_ip ?t" using wi by (simp add: wf_ip_pcbs)
    from udp_output_out [OF this len, of "\<lparr>ep_address = addr, ep_port = port\<rparr>" foreign] eq have "ip_out ?t s'" by auto
    then have "pcbs s' = pcbs ?t" by (rule ip_out_pcbs)
    then show ?thesis by (simp add: pcb_open_same_state)
  qed
qed

lemma udp_recv_pop_open:
  "udp_recv_pop t k buf sz foreign s = Some (r, s') \<Longrightarrow> pcb_open (pcbs s') = pcb_open (pcbs s)"
  by (auto simp: udp_recv_pop_def Let_def lqueue_pop_def sched_sleep_begin_def pcb_open_same_state bind_eq_Some_conv
      split: list.splits if_splits)

lemma udp_recvfrom_open:
  "udp_recvfrom t d buf sz foreign s = Some (r, s') \<Longrightarrow> pcb_open (pcbs s') = pcb_open (pcbs s)"
  by (auto simp: udp_recvfrom_def udp_recv_pop_open split: option.splits)

lemma udp_recvfrom_resume_open:
  assumes k: "k < length (pcbs s)" and r: "udp_recvfrom_resume t k buf sz foreign s = Some (r, s')"
  shows "pcb_open (pcbs s') = pcb_open (pcbs s)"
proof -
  obtain q ctx where c: "sched_sleep_end t 0 (pcb_ctx (pcbs s ! k)) = (q, ctx)" by fastforce
  let ?s = "s\<lparr>pcbs := (pcbs s)[k := (pcbs s ! k)\<lparr>pcb_ctx := ctx\<rparr>]\<rparr>"
  have o: "pcb_open (pcbs ?s) = pcb_open (pcbs s)" by (simp add: pcb_open_same_state)
  consider (intr) "s' = ?s\<lparr>errno := EINTR\<rparr>" | (closing) "pcb_state (pcbs s ! k) = UDP_PCB_STATE_CLOSING" "s' = udp_pcb_release k ?s"
    | (again) "udp_recv_pop t k buf sz foreign ?s = Some (r, s')"
    using r c by (auto simp: udp_recvfrom_resume_def Let_def split: if_splits)
  then show ?thesis
  proof cases
    case closing
    then have "\<not> pcb_open (pcbs s) k" by (simp add: pcb_open_def)
    then have "(\<lambda>j. j \<noteq> k \<and> pcb_open (pcbs s) j) = pcb_open (pcbs s)" by auto
    with closing(2) udp_pcb_release_closes [of k ?s] k o show ?thesis by simp
  next
    case again
    with o show ?thesis using udp_recv_pop_open by metis
  qed (use o in simp_all)
qed

lemma udp_input_open:
  assumes "len \<le> length data" "len \<le> MAX_IP_PAYLOAD_SIZE" "udp_input data len src dst iface s = Some s'"
  shows "pcb_open (pcbs s') = pcb_open (pcbs s)"
  using assms(3)
  by (cases rule: udp_input_cases [OF assms(1,2), of src dst iface s]) (auto simp: udp_deliver_def Let_def pcb_open_same_state)

lemma event_handler_udp_open: "pcb_open (pcbs (event_handler_udp s)) = pcb_open (pcbs s)"
  by (auto simp: event_handler_udp_def pcb_open_def fun_eq_iff split: if_splits)

lemma ip_out_open: "ip_out s s' \<Longrightarrow> pcb_open (pcbs s') = pcb_open (pcbs s)"
  by (simp add: ip_out_pcbs)

subsection \<open>Opening and closing sockets\<close>

lemma wf_socks_inj:
  "wf_socks ps ss \<Longrightarrow> i < length ss \<Longrightarrow> j < length ss \<Longrightarrow> so_type (ss ! i) = SOCK_DGRAM \<Longrightarrow> so_type (ss ! j) = SOCK_DGRAM \<Longrightarrow>
   so_desc (ss ! i) = so_desc (ss ! j) \<Longrightarrow> so_desc (ss ! i) \<noteq> -1 \<Longrightarrow> i = j"
  unfolding wf_socks_def by blast

text \<open>A slot that was free gets a socket without control block or with one that was not open.\<close>

lemma wf_socks_add:
  assumes wf: "wf_socks ps ss" and i: "i < length ss" and free: "so_used (ss ! i) = 0" and so: "so_used so \<noteq> 0"
    and d: "if so_type so = SOCK_DGRAM \<and> so_desc so \<noteq> -1
      then \<exists>k. so_desc so = int k \<and> \<not> pcb_open ps k \<and> pcb_open ps' = (\<lambda>j. j = k \<or> pcb_open ps j)
      else pcb_open ps' = pcb_open ps"
  shows "wf_socks ps' (ss[i := so])"
proof -
  have z: "so_type (ss ! i) \<noteq> SOCK_DGRAM" using wf i free by (auto simp: wf_socks_def sock_consts)
  have up: "pcb_open ps k \<Longrightarrow> pcb_open ps' k" for k using d by (auto split: if_splits)
  have new: "so_type so = SOCK_DGRAM \<Longrightarrow> so_desc so \<noteq> -1 \<Longrightarrow> so_desc so \<ge> 0 \<and> pcb_open ps' (nat (so_desc so)) \<and> \<not> pcb_open ps (nat (so_desc so))"
    using d by auto
  have old: "so_desc (ss ! j) = -1 \<or> so_desc (ss ! j) \<ge> 0 \<and> pcb_open ps (nat (so_desc (ss ! j)))"
    if "j < length ss" "so_type (ss ! j) = SOCK_DGRAM" for j
    using wf that by (simp add: wf_socks_def)
  have fresh: "so_desc so = -1" if "j < length ss" "so_type (ss ! j) = SOCK_DGRAM" "so_type so = SOCK_DGRAM" "so_desc (ss ! j) = so_desc so" for j
    using old [OF that(1,2)] new [OF that(3)] that(4) by metis
  show ?thesis
    unfolding wf_socks_def
  proof (intro conjI allI impI)
    show "length (ss[i := so]) = MAX_SOCKS" using wf by (simp add: wf_socks_def)
  next
    fix j assume "j < length (ss[i := so])" "so_used (ss[i := so] ! j) = 0"
    then show "ss[i := so] ! j = zero_sock" using wf so by (cases "j = i") (simp_all add: wf_socks_def)
  next
    fix j assume "j < length (ss[i := so])" "so_type (ss[i := so] ! j) = SOCK_DGRAM"
    then show "so_desc (ss[i := so] ! j) = -1 \<or> so_desc (ss[i := so] ! j) \<ge> 0 \<and> pcb_open ps' (nat (so_desc (ss[i := so] ! j)))"
      using old [of j] new up by (cases "j = i") auto
  next
    fix j l assume jl: "j < length (ss[i := so])" "l < length (ss[i := so])" "j \<noteq> l" "so_type (ss[i := so] ! j) = SOCK_DGRAM"
      "so_type (ss[i := so] ! l) = SOCK_DGRAM" "so_desc (ss[i := so] ! j) = so_desc (ss[i := so] ! l)"
    consider "j = i" "l \<noteq> i" | "l = i" "j \<noteq> i" | "j \<noteq> i" "l \<noteq> i" using jl(3) by blast
    then show "so_desc (ss[i := so] ! j) = -1"
    proof cases
      case 1
      with jl i have "so_desc so = -1" by (intro fresh [of l]) simp_all
      with 1 i show ?thesis by simp
    next
      case 2
      with jl i have "so_desc so = -1" by (intro fresh [of j]) simp_all
      with 2 jl i show ?thesis by simp
    next
      case 3
      with jl have "so_desc (ss ! j) \<noteq> -1 \<Longrightarrow> j = l" by (intro wf_socks_inj [OF wf]) simp_all
      with 3 jl show ?thesis by auto
    qed
  next
    fix k assume k: "pcb_open ps' k"
    show "\<exists>j < length (ss[i := so]). so_type (ss[i := so] ! j) = SOCK_DGRAM \<and> so_desc (ss[i := so] ! j) = int k"
    proof (cases "pcb_open ps k")
      case True
      with wf obtain j where "j < length ss" "so_type (ss ! j) = SOCK_DGRAM" "so_desc (ss ! j) = int k" unfolding wf_socks_def by blast
      moreover from this z have "j \<noteq> i" by auto
      ultimately show ?thesis by (intro exI [of _ j]) simp
    next
      case False
      with d k have "so_type so = SOCK_DGRAM \<and> so_desc so = int k" by (auto split: if_splits)
      with i show ?thesis by (intro exI [of _ i]) simp
    qed
  qed
qed

lemma wf_socks_remove:
  assumes wf: "wf_socks ps ss" and i: "i < length ss" "so_type (ss ! i) = SOCK_DGRAM"
    and ps': "pcb_open ps' = (\<lambda>j. int j \<noteq> so_desc (ss ! i) \<and> pcb_open ps j)"
  shows "wf_socks ps' (ss[i := zero_sock])"
proof -
  have zt: "so_type zero_sock \<noteq> SOCK_DGRAM" by (simp add: SOCK_DGRAM_def)
  show ?thesis
    unfolding wf_socks_def
  proof (intro conjI allI impI)
    show "length (ss[i := zero_sock]) = MAX_SOCKS" using wf by (simp add: wf_socks_def)
  next
    fix j assume "j < length (ss[i := zero_sock])" "so_used (ss[i := zero_sock] ! j) = 0"
    then show "ss[i := zero_sock] ! j = zero_sock" using wf by (cases "j = i") (simp_all add: wf_socks_def)
  next
    fix j assume j: "j < length (ss[i := zero_sock])" "so_type (ss[i := zero_sock] ! j) = SOCK_DGRAM"
    then have ji: "j \<noteq> i" "j < length ss" "so_type (ss ! j) = SOCK_DGRAM" using zt i by (auto simp: nth_list_update split: if_splits)
    have "so_desc (ss ! j) = -1 \<or> so_desc (ss ! j) \<ge> 0 \<and> pcb_open ps (nat (so_desc (ss ! j)))"
      using wf ji by (simp add: wf_socks_def)
    moreover have "so_desc (ss ! j) \<noteq> so_desc (ss ! i)" if "so_desc (ss ! j) \<noteq> -1"
      using wf_socks_inj [OF wf ji(2) i(1) ji(3) i(2)] ji(1) that by blast
    ultimately show "so_desc (ss[i := zero_sock] ! j) = -1 \<or> so_desc (ss[i := zero_sock] ! j) \<ge> 0 \<and> pcb_open ps' (nat (so_desc (ss[i := zero_sock] ! j)))"
      using ji(1) by (auto simp: ps')
  next
    fix j l assume jl: "j < length (ss[i := zero_sock])" "l < length (ss[i := zero_sock])" "j \<noteq> l" "so_type (ss[i := zero_sock] ! j) = SOCK_DGRAM"
      "so_type (ss[i := zero_sock] ! l) = SOCK_DGRAM" "so_desc (ss[i := zero_sock] ! j) = so_desc (ss[i := zero_sock] ! l)"
    have ne: "j \<noteq> i" "l \<noteq> i" using jl(4,5) zt i(1) by auto
    with jl have "so_desc (ss ! j) \<noteq> -1 \<Longrightarrow> j = l" by (intro wf_socks_inj [OF wf]) simp_all
    with ne jl show "so_desc (ss[i := zero_sock] ! j) = -1" by auto
  next
    fix k assume k: "pcb_open ps' k"
    then have "pcb_open ps k" "int k \<noteq> so_desc (ss ! i)" by (simp_all add: ps')
    with wf obtain j where "j < length ss" "so_type (ss ! j) = SOCK_DGRAM" "so_desc (ss ! j) = int k" unfolding wf_socks_def by blast
    moreover from this \<open>int k \<noteq> so_desc (ss ! i)\<close> have "j \<noteq> i" by auto
    ultimately show "\<exists>j < length (ss[i := zero_sock]). so_type (ss[i := zero_sock] ! j) = SOCK_DGRAM \<and>
        so_desc (ss[i := zero_sock] ! j) = int k"
      by (intro exI [of _ j]) simp
  qed
qed

lemma wf_udp_socks [simp]: "wf_udp (s\<lparr>socks := ss\<rparr>) = wf_udp s"
  by (simp add: wf_udp_def wf_ip_def wf_arp_def wf_net_def wf_ifaces_def iface_ready_def)

lemma sock_open_cases:
  obtains (refused) "sock_open domain type protocol s = (-1, s)"
      "domain \<noteq> AF_INET \<or> type \<notin> {SOCK_STREAM, SOCK_DGRAM} \<or> protocol \<noteq> 0 \<or> (\<forall>i < length (socks s). so_used (socks s ! i) \<noteq> 0)"
  | (stream) i so where "i < length (socks s)" "so_used (socks s ! i) = 0" "so_used so = 1" "so_type so = SOCK_STREAM"
      "sock_open domain type protocol s = (if so_desc (socks s ! i) = -1 then -1 else int i, s\<lparr>socks := (socks s)[i := so]\<rparr>)"
      "type = SOCK_STREAM"
  | (dgram) i so s' where "i < length (socks s)" "so_used (socks s ! i) = 0" "so_used so = 1" "so_type so = SOCK_DGRAM"
      "so_family so = AF_INET" "udp_open (s\<lparr>socks := (socks s)[i := so\<lparr>so_desc := so_desc (socks s ! i)\<rparr>]\<rparr>) = (so_desc so, s')"
      "sock_open domain type protocol s = (if so_desc so = -1 then -1 else int i, s'\<lparr>socks := (socks s)[i := so]\<rparr>)"
      "type = SOCK_DGRAM"
proof (cases "domain \<noteq> AF_INET \<or> (type \<noteq> SOCK_STREAM \<and> type \<noteq> SOCK_DGRAM) \<or> protocol \<noteq> 0")
  case True
  then show ?thesis by (intro refused) (auto simp: sock_open_def)
next
  case ok: False
  show ?thesis
  proof (cases "find_slot (\<lambda>so. so_used so = 0) (socks s)")
    case None
    then have "\<forall>i < length (socks s). so_used (socks s ! i) \<noteq> 0" by (auto simp: find_slot_None)
    with None show ?thesis by (intro refused) (simp_all add: sock_open_def sock_alloc_def)
  next
    case (Some i)
    have i: "i < length (socks s)" "so_used (socks s ! i) = 0" using find_slot_SomeD [OF Some] by auto
    let ?so = "(socks s ! i)\<lparr>so_used := 1, so_family := domain, so_type := type\<rparr>"
    show ?thesis
    proof (cases "type = SOCK_DGRAM")
      case True
      let ?s = "s\<lparr>socks := (socks s)[i := ?so]\<rparr>"
      obtain d u where u: "udp_open ?s = (d, u)" by fastforce
      have "udp_out ?s u" using udp_open_out [of ?s] u by simp
      then have su: "socks u = (socks s)[i := ?so]" using udp_out_socks by fastforce
      show ?thesis
        by (rule dgram [OF i, of "?so\<lparr>so_desc := d\<rparr>" u])
          (use ok True Some i u su in \<open>simp_all add: sock_open_def sock_alloc_def Let_def\<close>)
    next
      case False
      show ?thesis
        by (rule stream [OF i, of ?so]) (use ok False Some i in \<open>simp_all add: sock_open_def sock_alloc_def Let_def\<close>)
    qed
  qed
qed

lemma sock_open_wf:
  assumes "wf_sock s"
  shows "wf_sock (snd (sock_open domain type protocol s))"
proof (cases rule: sock_open_cases [of domain type protocol s])
  case refused
  with assms show ?thesis by simp
next
  case (stream i so)
  then have "wf_socks (pcbs s) ((socks s)[i := so])"
    using assms by (intro wf_socks_add) (simp_all add: wf_sock_def sock_consts)
  with stream assms show ?thesis by (simp add: wf_sock_def)
next
  case (dgram i so s')
  let ?t = "s\<lparr>socks := (socks s)[i := so\<lparr>so_desc := so_desc (socks s ! i)\<rparr>]\<rparr>"
  have "udp_out ?t s'" using udp_open_out [of ?t] dgram(6) by simp
  then have "wf_udp s'" using assms udp_out_wf [of ?t s'] by (simp add: wf_sock_def)
  moreover have "wf_socks (pcbs s') ((socks s)[i := so])"
    using assms dgram(1-4) udp_open_opens [OF dgram(6)] by (intro wf_socks_add [of "pcbs s"]) (auto simp: wf_sock_def)
  ultimately show ?thesis using dgram(7) by (simp add: wf_sock_def)
qed

lemma sock_close_wf:
  assumes wf: "wf_sock s"
  shows "wf_sock (snd (sock_close ident s))"
proof (cases "sock_get ident")
  case None
  with wf show ?thesis by (simp add: sock_close_def)
next
  case (Some i)
  have i: "i < length (socks s)" using Some wf by (auto simp: sock_get_def wf_sock_def wf_socks_def split: if_splits)
  show ?thesis
  proof (cases "so_type (socks s ! i) = SOCK_DGRAM")
    case True
    obtain r u where u: "udp_close (so_desc (socks s ! i)) s = (r, u)" by fastforce
    have wp: "wf_pcbs (pcbs s)" using wf by (simp add: wf_sock_def wf_udp_def)
    have out: "udp_out s u" using udp_close_out [OF wp, of "so_desc (socks s ! i)"] u by simp
    have su: "socks u = socks s" using udp_out_socks [OF out] .
    have "wf_udp u" using udp_out_wf [OF out] wf by (simp add: wf_sock_def)
    moreover have "wf_socks (pcbs u) ((socks s)[i := zero_sock])"
      using wf True i udp_close_closes [OF wp, of "so_desc (socks s ! i)"] u
      by (intro wf_socks_remove [of "pcbs s"]) (simp_all add: wf_sock_def)
    ultimately show ?thesis using True Some u su by (simp add: sock_close_def sock_free_def wf_sock_def)
  qed (use wf Some in \<open>simp add: sock_close_def\<close>)
qed

lemma sock_bind_wf:
  assumes "wf_sock s"
  shows "wf_sock (snd (sock_bind ident addr s))"
proof -
  have "wf_pcbs (pcbs s)" using assms by (simp add: wf_sock_def wf_udp_def)
  then have "wf_sock (snd (udp_bind d ep s))" for d ep
    by (intro wf_sock_quiet [OF assms] udp_bind_out udp_bind_open)
  with assms show ?thesis by (simp add: sock_bind_def split: option.split)
qed

lemma sock_sendto_wf:
  assumes wf: "wf_sock s" and n: "n \<le> length buf"
  shows "\<exists>r s'. sock_sendto ident buf n addr s = Some (r, s') \<and> wf_sock s' \<and> udp_out s s' \<and> r \<in> {-1, int n}"
proof (cases "sock_dgram ident s")
  case None
  with wf show ?thesis by (simp add: sock_sendto_def)
next
  case (Some d)
  have "wf_udp s" using wf by (simp add: wf_sock_def)
  from udp_sendto_out [OF this n, of d] udp_sendto_open [OF this n, of d] wf_sock_quiet [OF wf] Some show ?thesis
    by (simp add: sock_sendto_def) metis
qed

lemma sock_recvfrom_wf:
  assumes wf: "wf_sock s" and t: "\<forall>pcb \<in> set (pcbs s). t \<notin> pcb_threads pcb" and n: "n \<le> length buf"
  shows "\<exists>r s'. sock_recvfrom t ident buf n ep addr s = Some (r, s') \<and> wf_sock s' \<and> udp_out s s'"
proof (cases "sock_dgram ident s")
  case None
  with wf show ?thesis by (simp add: sock_recvfrom_def)
next
  case (Some d)
  have wp: "wf_pcbs (pcbs s)" using wf by (simp add: wf_sock_def wf_udp_def)
  from udp_recvfrom_out [OF wp t n, of d "Some ep"] obtain r u where
    u: "udp_recvfrom t d buf n (Some ep) s = Some (r, u)" "udp_out s u" by blast
  with wf_sock_quiet [OF wf u(2) udp_recvfrom_open [OF u(1)]] Some show ?thesis by (simp add: sock_recvfrom_def)
qed

lemma sock_recvfrom_resume_wf:
  assumes wf: "wf_sock s" and k: "k < length (pcbs s)" "t \<in> set (sc_ready (pcb_ctx (pcbs s ! k)))" and n: "n \<le> length buf"
  shows "\<exists>r s'. sock_recvfrom_resume t k buf n ep addr s = Some (r, s') \<and> wf_sock s' \<and> udp_out s s'"
proof -
  have wp: "wf_pcbs (pcbs s)" using wf by (simp add: wf_sock_def wf_udp_def)
  from udp_recvfrom_resume_out [OF wp k n, of "Some ep"] obtain r u where
    u: "udp_recvfrom_resume t k buf n (Some ep) s = Some (r, u)" "udp_out s u" by blast
  with wf_sock_quiet [OF wf u(2) udp_recvfrom_resume_open [OF k(1) u(1)]] show ?thesis by (simp add: sock_recvfrom_resume_def)
qed

subsection \<open>Sequences of calls\<close>

datatype sock_cmd =
  Sock_Open int int int
| Sock_Close int
| Sock_Bind int sockaddr_in
| Sock_Sendto int bytes sockaddr_in
| Sock_Recvfrom nat int bytes sockaddr_in
| Sock_Resume nat nat bytes sockaddr_in
| Sock_Input bytes u32 u32 nat
| Sock_Event

text \<open>The last two are what the interrupt thread does to the control blocks.\<close>

fun sock_enabled :: "sock_cmd \<Rightarrow> 'a sock_state_scheme \<Rightarrow> bool" where
  "sock_enabled (Sock_Recvfrom t ident buf addr) s = list_all (\<lambda>pcb. t \<notin> pcb_threads pcb) (pcbs s)"
| "sock_enabled (Sock_Resume t k buf addr) s = (k < length (pcbs s) \<and> t \<in> set (sc_ready (pcb_ctx (pcbs s ! k))))"
| "sock_enabled (Sock_Input data src dst iface) s = (length data \<le> MAX_IP_PAYLOAD_SIZE)"
| "sock_enabled _ s = True"

fun sock_do :: "sock_cmd \<Rightarrow> 'a sock_state_scheme \<Rightarrow> 'a sock_state_scheme option" where
  "sock_do (Sock_Open domain type protocol) s = Some (snd (sock_open domain type protocol s))"
| "sock_do (Sock_Close ident) s = Some (snd (sock_close ident s))"
| "sock_do (Sock_Bind ident addr) s = Some (snd (sock_bind ident addr s))"
| "sock_do (Sock_Sendto ident buf addr) s = map_option snd (sock_sendto ident buf (length buf) addr s)"
| "sock_do (Sock_Recvfrom t ident buf addr) s = map_option snd (sock_recvfrom t ident buf (length buf) ep_none addr s)"
| "sock_do (Sock_Resume t k buf addr) s = map_option snd (sock_recvfrom_resume t k buf (length buf) ep_none addr s)"
| "sock_do (Sock_Input data src dst iface) s = udp_input data (length data) src dst iface s"
| "sock_do Sock_Event s = Some (event_handler_udp s)"

fun sock_run :: "sock_cmd list \<Rightarrow> 'a sock_state_scheme \<Rightarrow> 'a sock_state_scheme option" where
  "sock_run [] s = Some s"
| "sock_run (c # cs) s = (if sock_enabled c s then do { s \<leftarrow> sock_do c s; sock_run cs s } else sock_run cs s)"

lemma wf_sock_lengths: "wf_sock s \<Longrightarrow> length (pcbs s) = 16" "wf_sock s \<Longrightarrow> length (socks s) = 128"
  by (simp_all add: wf_sock_def wf_udp_def wf_pcbs_def UDP_PCB_SIZE_def wf_socks_def MAX_SOCKS_def)

lemma udp_open_cases:
  assumes "wf_pcbs (pcbs s)" "udp_open s = (d, s')"
  obtains (full) "d = -1" "s' = s" "\<forall>k < length (pcbs s). pcb_state (pcbs s ! k) \<noteq> UDP_PCB_STATE_FREE"
  | (got) k pcb where "d = int k" "k < length (pcbs s)" "pcb_state (pcbs s ! k) = UDP_PCB_STATE_FREE" "s' = s\<lparr>pcbs := (pcbs s)[k := pcb]\<rparr>"
      "pcb_state pcb = UDP_PCB_STATE_OPEN" "pcb_local pcb = ep_none"
proof (cases "find_slot (\<lambda>pcb. pcb_state pcb = UDP_PCB_STATE_FREE) (pcbs s)")
  case None
  then have "\<forall>k < length (pcbs s). pcb_state (pcbs s ! k) \<noteq> UDP_PCB_STATE_FREE" by (auto simp: find_slot_None)
  with None show ?thesis using assms(2) by (intro full) (simp_all add: udp_open_def udp_pcb_alloc_def)
next
  case (Some k)
  note k = find_slot_SomeD [OF Some]
  show ?thesis
    by (rule got [of k]) (use k Some assms wf_pcb_nth [OF assms(1), of k] in \<open>auto simp: udp_open_def udp_pcb_alloc_def udp_pcb_id_def Let_def wf_pcb_def\<close>)
qed

lemma udp_input_wf_sock:
  assumes "wf_sock s" "len \<le> length data" "len \<le> MAX_IP_PAYLOAD_SIZE"
  shows "\<exists>s'. udp_input data len src dst iface s = Some s' \<and> wf_sock s' \<and> udp_out s s'"
proof -
  from udp_input_out [OF assms(2,3)] obtain s' where s': "udp_input data len src dst iface s = Some s'" "udp_out s s'" by blast
  with wf_sock_quiet [OF assms(1) s'(2) udp_input_open [OF assms(2,3) s'(1)]] show ?thesis by blast
qed

lemma event_handler_udp_wf_sock: "wf_sock s \<Longrightarrow> wf_sock (event_handler_udp s)"
  using wf_sock_quiet [OF _ event_handler_udp_out event_handler_udp_open] .

lemma sock_do_wf:
  assumes wf: "wf_sock s" and en: "sock_enabled c s"
  shows "\<exists>s'. sock_do c s = Some s' \<and> wf_sock s'"
proof (cases c)
  case (Sock_Sendto ident buf addr)
  then show ?thesis using sock_sendto_wf [OF wf, of "length buf" buf ident addr] by auto
next
  case (Sock_Recvfrom t ident buf addr)
  then show ?thesis using sock_recvfrom_wf [OF wf, of t "length buf" buf ident ep_none addr] en by (auto simp: list_all_iff)
next
  case (Sock_Resume t k buf addr)
  then show ?thesis using sock_recvfrom_resume_wf [OF wf, of k t "length buf" buf ep_none addr] en by auto
next
  case (Sock_Input data src dst iface)
  then show ?thesis using udp_input_wf_sock [OF wf, of "length data" data src dst iface] en by auto
qed (use wf sock_open_wf sock_close_wf sock_bind_wf event_handler_udp_wf_sock in auto)

lemma sock_run_wf: "wf_sock s \<Longrightarrow> \<exists>s'. sock_run cs s = Some s' \<and> wf_sock s'"
proof (induction cs arbitrary: s)
  case (Cons c cs)
  then show ?case using sock_do_wf [of s c] by (cases "sock_enabled c s") auto
qed simp

section \<open>Properties\<close>

definition sock_host :: "u8 \<Rightarrow> u32 \<Rightarrow> (nat \<Rightarrow> timeval) \<Rightarrow> sock_state" where
  "sock_host k ip clk = udp_state.extend (udp_host k ip clk) (sock_state.fields (replicate 128 zero_sock))"

lemmas sock_host_defs = sock_host_def sock_state.defs udp_host_defs

lemma wf_udp_extend: "wf_udp (udp_state.extend s x) = wf_udp (udp_state.truncate s)"
  by (simp add: udp_state.defs wf_udp_def wf_ip_def wf_arp_def wf_net_def wf_ifaces_def iface_ready_def)

lemma sock_host_tables: "pcbs (sock_host k ip clk) = zero_pcb # replicate 15 zero_pcb" "socks (sock_host k ip clk) = zero_sock # replicate 127 zero_sock"
  using udp_host_pcbs(1) [of k ip clk] replicate_Suc [of 127 zero_sock] by (simp_all add: sock_host_def sock_state.defs udp_state.defs)

lemma wf_socks_zero: "wf_socks (replicate 16 zero_pcb) (replicate 128 zero_sock)"
proof -
  have "pcb_open (replicate 16 zero_pcb) = (\<lambda>_. False)" by (simp add: pcb_open_def zero_pcb_def fun_eq_iff)
  then show ?thesis by (simp add: wf_socks_def sock_consts)
qed

lemma sock_host_ok: "wf_sock (sock_host k ip clk)"
proof -
  have "udp_state.truncate (udp_host k ip clk) = udp_host k ip clk" by (cases "udp_host k ip clk") (simp add: udp_state.defs)
  then have "wf_udp (sock_host k ip clk)" using udp_host_ok by (simp add: sock_host_def wf_udp_extend)
  moreover have "wf_socks (zero_pcb # replicate 15 zero_pcb) (zero_sock # replicate 127 zero_sock)"
    using wf_socks_zero by (simp flip: replicate_Suc)
  ultimately show ?thesis by (simp add: wf_sock_def sock_host_tables)
qed





end
