(* ===== verification/Stack.thy ===== *)
theory Stack
  imports Sock
begin

text \<open>
  The layers put together: the handlers of \<^verbatim>\<open>src/lib/net.c\<close> that run the registered protocols, timers and
  events, the thread of \<^verbatim>\<open>handler/interrupt.c\<close> that calls them when signals arrive, and the start of the
  stack. The function pointers that the layers registered are resolved here.

  The interrupt thread is a loop around \<^verbatim>\<open>sigwait\<close>; \<open>intr_step sig\<close> is one round of it, for a signal that
  is pending. A round is one step of the model, as is a socket call up to the point where its thread sleeps;
  what can happen where ARP gives up its mutex inside a round is in \<open>Arp\<close>.
\<close>

section \<open>Definitions\<close>

subsection \<open>Registered functions\<close>

fun ip_call ::
  "ip_handler \<Rightarrow> bytes \<Rightarrow> nat \<Rightarrow> u32 \<Rightarrow> u32 \<Rightarrow> nat \<Rightarrow> 'a udp_state_scheme \<Rightarrow> 'a udp_state_scheme option" where
  "ip_call icmp_input_handler data len src dst iface s = icmp_input data len src dst iface s"
| "ip_call udp_input_handler data len src dst iface s = udp_input data len src dst iface s"

fun proto_call :: "proto_handler \<Rightarrow> bytes \<Rightarrow> nat \<Rightarrow> nat \<Rightarrow> 'a udp_state_scheme \<Rightarrow> 'a udp_state_scheme option" where
  "proto_call arp_input_handler data len dev s = arp_input data len dev s"
| "proto_call ip_input_handler data len dev s = ip_input ip_call data len dev s"

fun timer_call :: "timer_handler \<Rightarrow> 'a arp_state_scheme \<Rightarrow> 'a arp_state_scheme" where
  "timer_call arp_timer_handler s = arp_timer s"

fun event_call :: "event_handler \<Rightarrow> nat option \<Rightarrow> 'a udp_state_scheme \<Rightarrow> 'a udp_state_scheme" where
  "event_call udp_event_handler arg s = event_handler_udp s"

fun irq_call :: "irq_handler \<Rightarrow> nat \<Rightarrow> nat \<Rightarrow> 'a net_state_scheme \<Rightarrow> (int \<times> 'a net_state_scheme) option" where
  "irq_call ether_tap_isr_handler irq dev s = ether_tap_isr irq dev s"
| "irq_call ether_pcap_isr_handler irq dev s = ether_pcap_isr irq dev s"

subsection \<open>Handlers\<close>

text \<open>The inner loop of \<^verbatim>\<open>network_protocol_handler\<close>, for the protocol at position \<open>i\<close> of the list.\<close>

partial_function (option) protocol_drain :: "nat \<Rightarrow> 'a udp_state_scheme \<Rightarrow> 'a udp_state_scheme option" where
  "protocol_drain i s =
     (case lqueue_pop (np_queue (protocols s ! i)) of
        (None, q) \<Rightarrow> Some s
      | (Some entry, q) \<Rightarrow> do {
          let s = s\<lparr>protocols := (protocols s)[i := (protocols s ! i)\<lparr>np_queue := q\<rparr>]\<rparr>;
          _ \<leftarrow> dev_heap s (nq_dev entry);
          s \<leftarrow> proto_call (np_handler (protocols s ! i)) (nq_data entry) (nq_len entry) (nq_dev entry) s;
          protocol_drain i s
        })"

fun drain_protocols :: "nat list \<Rightarrow> 'a udp_state_scheme \<Rightarrow> 'a udp_state_scheme option" where
  "drain_protocols [] s = Some s"
| "drain_protocols (i # is) s = do { s \<leftarrow> protocol_drain i s; drain_protocols is s }"

definition network_protocol_handler :: "'a udp_state_scheme \<Rightarrow> (int \<times> 'a udp_state_scheme) option" where
  "network_protocol_handler s = map_option (\<lambda>s. (0, s)) (drain_protocols [0..<length (protocols s)] s)"

text \<open>The body of the loop over the timers.\<close>

definition timer_tick :: "nat \<Rightarrow> 'a arp_state_scheme \<Rightarrow> 'a arp_state_scheme" where
  "timer_tick i s =
     (let timer = timers s ! i;
          (now, s) = gettimeofday s;
          diff = timersub now (nt_last timer)
      in if timercmp (<) (nt_interval timer) diff
         then let s = timer_call (nt_handler timer) s
              in s\<lparr>timers := (timers s)[i := timer\<lparr>nt_last := now\<rparr>]\<rparr>
         else s)"

definition network_timer_handler :: "'a arp_state_scheme \<Rightarrow> int \<times> 'a arp_state_scheme" where
  "network_timer_handler s = (0, fold timer_tick [0..<length (timers s)] s)"

definition network_event_handler :: "'a udp_state_scheme \<Rightarrow> int \<times> 'a udp_state_scheme" where
  "network_event_handler s = (0, fold (\<lambda>event. event_call (ne_handler event) (ne_arg event)) (events s) s)"

subsection \<open>Interrupt thread\<close>

definition intr_timer_setup :: "'a net_state_scheme \<Rightarrow> int \<times> 'a net_state_scheme" where
  "intr_timer_setup s =
     (let (r, s) = syscall s
      in if r = -1 then (-1, s)
         else let (r, s) = syscall s in if r = -1 then (-1, s) else (0, s))"

fun irq_dispatch :: "nat \<Rightarrow> irq_entry list \<Rightarrow> 'a net_state_scheme \<Rightarrow> 'a net_state_scheme option" where
  "irq_dispatch sig [] s = Some s"
| "irq_dispatch sig (entry # es) s =
     (if ie_irq entry = sig
      then do { (_, s) \<leftarrow> irq_call (ie_handler entry) (ie_irq entry) (ie_dev entry) s; irq_dispatch sig es s }
      else irq_dispatch sig es s)"

definition intr_dispatch :: "nat \<Rightarrow> 'a udp_state_scheme \<Rightarrow> 'a udp_state_scheme option" where
  "intr_dispatch sig s =
     (if sig = SIGUSR1 then map_option snd (network_protocol_handler s)
      else if sig = SIGUSR2 then Some (snd (network_event_handler s))
      else if sig = SIGALRM then Some (snd (network_timer_handler s))
      else irq_dispatch sig (irq_vec s) s)"

text \<open>\<^verbatim>\<open>sigwait\<close> takes a pending signal of the set; without one the thread waits.\<close>

definition intr_step :: "nat \<Rightarrow> 'a udp_state_scheme \<Rightarrow> 'a udp_state_scheme option" where
  "intr_step sig s =
     (if sig \<in> set (pending s) \<and> sig \<in> set (sigmask s)
      then intr_dispatch sig (s\<lparr>pending := remove1 sig (pending s)\<rparr>)
      else Some s)"

text \<open>
  The thread from its start, for a list of what \<^verbatim>\<open>sigwait\<close> gives it: a signal, or \<open>None\<close> for an error number. At
  the end of the list the thread waits.
\<close>

fun intr_loop :: "nat option list \<Rightarrow> 'a udp_state_scheme \<Rightarrow> 'a udp_state_scheme option" where
  "intr_loop [] s = Some s"
| "intr_loop (None # sigs) s = Some s"
| "intr_loop (Some sig # sigs) s = do { s \<leftarrow> intr_step sig s; intr_loop sigs s }"

definition intr_thread :: "nat option list \<Rightarrow> 'a udp_state_scheme \<Rightarrow> 'a udp_state_scheme option" where
  "intr_thread sigs s =
     (let (r, s) = intr_timer_setup s
      in if r = -1 then Some s else intr_loop sigs s)"

text \<open>The two \<^verbatim>\<open>pthread\<close> calls return an error number.\<close>

definition intr_run :: "'a net_state_scheme \<Rightarrow> int \<times> 'a net_state_scheme" where
  "intr_run s =
     (let (err, s) = syscall s
      in if err \<noteq> 0 then (-1, s)
         else let (err, s) = syscall s in if err \<noteq> 0 then (-1, s) else (0, s))"

subsection \<open>Start\<close>

definition network_run :: "'a net_state_scheme \<Rightarrow> (int \<times> 'a net_state_scheme) option" where
  "network_run s =
     (let (r, s) = intr_run s
      in if r = -1 then Some (-1, s)
         else do { s \<leftarrow> open_devices (devices s) s; Some (0, s) })"

definition network_init :: "'a ip_state_scheme \<Rightarrow> int \<times> 'a ip_state_scheme" where
  "network_init s =
     (let (r, s) = intr_init s
      in if r = -1 then (-1, s)
         else let (r, s) = arp_init s
         in if r = -1 then (-1, s)
         else let (r, s) = ip_initialize s
         in if r = -1 then (-1, s)
         else let (r, s) = icmp_init s
         in if r = -1 then (-1, s)
         else let (r, s) = udp_init s
         in if r = -1 then (-1, s) else (0, s))"

lemma arp_request_adds:
  assumes "arp_request ifp tpa s = Some (q, s')" "if_heap s ifp = Some i" "ni_dev i = Some dev" "dev_heap s dev = Some d"
    "dev_ops d \<noteq> Some loopback_ops"
  shows "queue_adds (\<lambda>_ _. False) s s'"
proof -
  from assms(1-4) obtain x l b where "network_device_output dev ETHER_TYPE_ARP x l b s = Some (q, s')"
    by (auto simp: arp_request_def Let_def bind_eq_Some_conv)
  from network_device_output_adds [OF this assms(4)] assms(5) show ?thesis by simp
qed

lemma arp_resolve_adds:
  assumes "arp_resolve ifp pa ha s = Some (r, ha', s')" "if_heap s ifp = Some i" "ni_dev i = Some dev" "dev_heap s dev = Some d"
    "dev_ops d \<noteq> Some loopback_ops"
  shows "queue_adds (\<lambda>_ _. False) s s'"
proof -
  consider "s' = s" | "\<exists>q. arp_request ifp pa s = Some (q, s')"
    | "\<exists>q c. arp_request ifp pa (s\<lparr>clock_n := Suc (clock_n s), caches := c\<rparr>) = Some (q, s')"
    using assms(1-4) by (auto simp: arp_resolve_def gettimeofday_def Let_def bind_eq_Some_conv split: if_splits option.splits)
  then show ?thesis
  proof cases
    case 3
    then obtain q c where "arp_request ifp pa (s\<lparr>clock_n := Suc (clock_n s), caches := c\<rparr>) = Some (q, s')" by blast
    from arp_request_adds [OF this, of i dev d] assms(2-5) show ?thesis by (auto elim: queue_adds_from)
  qed (use arp_request_adds [OF _ assms(2-5)] in \<open>auto intro: queue_adds_same\<close>)
qed

lemma ip_output_device_adds:
  assumes wfa: "wf_arp s" and r: "ip_output_device ifp data len dst s = Some (r, s')"
  shows "queue_adds (\<lambda>t x. t = NETWORK_PROTOCOL_TYPE_IP \<and> x = take len data) s s'"
proof -
  from r obtain i dev d where i: "if_heap s ifp = Some i" "ni_dev i = Some dev" "dev_heap s dev = Some d"
    by (auto simp: ip_output_device_def bind_eq_Some_conv)
  have wf: "wf_net s" using wfa by (simp add: wf_arp_def)
  have "wf_device d" using wf_iface_dev [OF wf i(1,2)] wf_device_heap [OF wf] i(3) by fastforce
  have sent: "queue_adds (\<lambda>t x. t = NETWORK_PROTOCOL_TYPE_IP \<and> x = take len data) u s'"
    if "network_device_output dev NETWORK_PROTOCOL_TYPE_IP data len b u = Some (r, s')" "dev_heap u dev = Some d" for b and u :: "'a arp_state_scheme"
    using network_device_output_adds [OF that] by (rule queue_adds_mono) simp
  consider (direct) b where "network_device_output dev NETWORK_PROTOCOL_TYPE_IP data len b s = Some (r, s')"
    | (arp) q ha u where "dev_flags d AND NETWORK_DEVICE_FLAG_NEED_ARP \<noteq> 0" "arp_resolve ifp dst (replicate NETWORK_DEVICE_ADDR_LEN 0) s = Some (q, ha, u)"
        "s' = u \<or> network_device_output dev NETWORK_PROTOCOL_TYPE_IP data len (Some ha) u = Some (r, s')"
    using r i by (auto simp: ip_output_device_def Let_def bind_eq_Some_conv split: if_splits)
  then show ?thesis
  proof cases
    case direct
    with sent i(3) show ?thesis by blast
  next
    case arp
    from arp(1) \<open>wf_device d\<close> have "dev_ops d \<noteq> Some loopback_ops" by (auto simp: wf_device_def)
    from arp_resolve_adds [OF arp(2) i this]
    have su: "queue_adds (\<lambda>t x. t = NETWORK_PROTOCOL_TYPE_IP \<and> x = take len data) s u" by (rule queue_adds_mono) simp
    have "arp_out s u"
      using arp_resolve_spec [OF wfa i, of "replicate NETWORK_DEVICE_ADDR_LEN 0" dst] arp(2) by (auto simp: NETWORK_DEVICE_ADDR_LEN_def)
    then have "dev_heap u = dev_heap s" by (intro net_ext_same arp_out_ext)
    then show ?thesis using arp(3) su sent [of "Some ha" u] i(3) by (auto intro: queue_adds_trans)
  qed
qed

lemma ip_send_packet_adds:
  assumes wf: "wf_ip s" and len: "len \<le> length data" "20 + length data < 2 ^ 64"
    and r: "ip_send_packet protocol data len src dst s = Some (r, s')"
  shows "queue_adds (\<lambda>t x. t = NETWORK_PROTOCOL_TYPE_IP \<and> len \<le> 65515 \<and>
    (\<exists>src ident. x = ip_packet protocol (take len data) src dst ident 0)) s s'"
proof (cases "s' = s")
  case False
  have b: "\<not> (src = IP_ADDR_ANY \<and> dst = IP_ADDR_BROADCAST)" using r False by (auto simp: ip_send_packet_def)
  obtain route where route: "ip_route_lookup dst (ip_routes s) = Some route"
    using r False b by (auto simp: ip_send_packet_def split: option.splits)
  let ?out = "\<lambda>i. ip_output_device (rt_iface route) (ip_packet protocol (take len data) (if_unicast i) dst (ip_id s) 0) (20 + len)
      (if rt_nexthop route \<noteq> IP_ADDR_ANY then rt_nexthop route else dst) (s\<lparr>ip_id := ip_id s + 1\<rparr>)"
  let ?res = "\<lambda>i d r s'. if (src \<noteq> IP_ADDR_ANY \<and> src \<noteq> if_unicast i) \<or> unat (dev_mtu d) < 20 + len then r = -1 \<and> s' = s
      else \<exists>r0. ?out i = Some (r0, s') \<and> r0 \<in> {-1, 0} \<and> r = (if r0 = -1 then -1 else int len)"
  from ip_send_packet_spec [OF wf len, of protocol src dst, unfolded if_not_P [OF b] route option.case]
  obtain r1 s1 i dev d where rs: "ip_send_packet protocol data len src dst s = Some (r1, s1)" and d: "dev_heap s dev = Some d"
    and i: "if_heap s (rt_iface route) = Some i" and res: "?res i d r1 s1" by blast
  have "r1 = r" "s1 = s'" using rs r by simp_all
  then obtain r0 where mtu: "\<not> unat (dev_mtu d) < 20 + len" and out: "?out i = Some (r0, s')"
    using res False by (cases "(src \<noteq> IP_ADDR_ANY \<and> src \<noteq> if_unicast i) \<or> unat (dev_mtu d) < 20 + len") auto
  have "wf_arp (s\<lparr>ip_id := ip_id s + 1\<rparr>)" using ip_out_wf [OF ip_id_out wf] by (simp add: wf_ip_def)
  from ip_output_device_adds [OF this out] have
    "queue_adds (\<lambda>t x. t = NETWORK_PROTOCOL_TYPE_IP \<and> x = ip_packet protocol (take len data) (if_unicast i) dst (ip_id s) 0) s s'"
    using len(1) by (auto elim!: queue_adds_from simp: min_def)
  moreover have "len \<le> 65515" using mtu unat_u16_bound [of "dev_mtu d"] by simp
  ultimately show ?thesis by (elim queue_adds_mono) blast
qed (simp add: queue_adds_same)

lemma ip_packet_lengths_ok:
  "length payload \<le> 65515 \<Longrightarrow> ip_lengths_ok (ip_packet protocol payload src dst ident offset)"
  using ip_packet_hdr [of protocol payload src dst ident offset "[]"] unat_of_nat_u16 [of "20 + length payload"]
  by (simp add: ip_lengths_ok_def ip_hdr_blank_def IPV4_def MIN_IP_HEADER_SIZE_def)

section \<open>Packets that are answered\<close>

definition ip_asks :: "bytes \<Rightarrow> bool" where
  "ip_asks data \<longleftrightarrow>
     (case read_ip_hdr data of
        None \<Rightarrow> False
      | Some hdr \<Rightarrow> ih_protocol hdr = ICMP_PROTOCOL \<and>
          (case read_icmp_header (drop (4 * unat (ih_vhl hdr AND 0x0f)) data) of
             None \<Rightarrow> False
           | Some h \<Rightarrow> ic_type h = ICMP_TYPE_ECHO))"

definition arp_asks :: "bytes \<Rightarrow> bool" where
  "arp_asks data \<longleftrightarrow> (case read_arp_ether data of None \<Rightarrow> False | Some msg \<Rightarrow> ntoh16 (ar_op msg) = ARP_OP_REQUEST)"

lemma icmp_reply_asks_not: "\<not> ip_asks (ip_packet ICMP_PROTOCOL (icmp_message ICMP_TYPE_ECHOREPLY code vals payload) src dst ident offset)"
proof -
  let ?m = "icmp_message ICMP_TYPE_ECHOREPLY code vals payload"
  have "drop 20 (ip_packet ICMP_PROTOCOL ?m src dst ident offset) = ?m" by (simp add: ip_packet_def Let_def)
  moreover obtain h where "read_icmp_header ?m = Some h" "ic_type h = ICMP_TYPE_ECHOREPLY"
    by (simp add: icmp_message_def Let_def)
  ultimately show ?thesis
    using ip_packet_hdr [of ICMP_PROTOCOL ?m src dst ident offset "[]"]
    by (simp add: ip_asks_def ip_hdr_blank_def IPV4_def MIN_IP_HEADER_SIZE_def icmp_consts)
qed

lemma icmp_input_adds:
  assumes wf: "wf_ip s" and rdy: "iface_ready s iface" and len: "len \<le> length data" "len \<le> MAX_IP_PAYLOAD_SIZE"
    and r: "icmp_input data len src dst iface s = Some s'"
  shows "queue_adds (\<lambda>t x. t = NETWORK_PROTOCOL_TYPE_IP \<and> \<not> ip_asks x \<and> ip_lengths_ok x \<and>
    (\<exists>h. read_icmp_header data = Some h \<and> ic_type h = ICMP_TYPE_ECHO)) s s'"
proof (cases "s' = s")
  case False
  then have l8: "8 \<le> len" using r by (auto simp: icmp_input_def icmp_header_size_def split: if_splits)
  obtain i where i: "if_heap s iface = Some i" using rdy by (auto simp: iface_ready_def)
  obtain hdr where hdr: "read_icmp_header data = Some hdr"
    using l8 len by (simp add: read_icmp_header_def icmp_header_size_def)
  define p where "p = take (len - 8) (drop 8 data)"
  define m where "m = icmp_message ICMP_TYPE_ECHOREPLY (ic_code hdr) (ic_values hdr) p"
  have lm: "length m = len" using l8 len by (simp add: m_def p_def min_absorb2 diff_le_mono)
  obtain q where echo: "ic_type hdr = ICMP_TYPE_ECHO" and q: "ip_send_packet ICMP_PROTOCOL m len (if_unicast i) src s = Some (q, s')"
    using r [unfolded icmp_input_eq [OF i l8 len hdr], folded p_def, folded m_def] False by (auto split: if_splits)
  have "len \<le> length m" "20 + length m < 2 ^ 64"
    using lm len(2) by (simp_all add: MAX_IP_PAYLOAD_SIZE_def MAX_IP_PACKET_SIZE_def MIN_IP_HEADER_SIZE_def)
  from ip_send_packet_adds [OF wf this q] show ?thesis
  proof (rule queue_adds_mono)
    fix t x
    assume "t = NETWORK_PROTOCOL_TYPE_IP \<and> len \<le> 65515 \<and> (\<exists>sa ident. x = ip_packet ICMP_PROTOCOL (take len m) sa src ident 0)"
    then obtain sa ident where "t = NETWORK_PROTOCOL_TYPE_IP" "len \<le> 65515" "x = ip_packet ICMP_PROTOCOL m sa src ident 0"
      using lm by auto
    then show "t = NETWORK_PROTOCOL_TYPE_IP \<and> \<not> ip_asks x \<and> ip_lengths_ok x \<and>
        (\<exists>h. read_icmp_header data = Some h \<and> ic_type h = ICMP_TYPE_ECHO)"
      using lm hdr echo icmp_reply_asks_not [of "ic_code hdr" "ic_values hdr" p sa src ident 0, folded m_def]
        ip_packet_lengths_ok [of m ICMP_PROTOCOL sa src ident 0] by simp
  qed
qed (simp add: queue_adds_same)

lemma udp_input_protocols:
  assumes "len \<le> length data" "len \<le> MAX_IP_PAYLOAD_SIZE" "udp_input data len src dst iface s = Some s'"
  shows "protocols s' = protocols s"
  using assms(3) by (cases rule: udp_input_cases [OF assms(1,2), of src dst iface s]) auto

section \<open>Transport protocols\<close>

text \<open>What the handling of a packet may change.\<close>

definition handler_out :: "'a udp_state_scheme \<Rightarrow> 'a udp_state_scheme \<Rightarrow> bool" where
  "handler_out s s' \<longleftrightarrow> udp_out s s' \<and> pcb_open (pcbs s') = pcb_open (pcbs s) \<and>
     queue_adds (\<lambda>t x. t = NETWORK_PROTOCOL_TYPE_IP \<and> \<not> ip_asks x \<and> ip_lengths_ok x) s s'"

lemma handler_out_refl: "handler_out s s"
  by (simp add: handler_out_def queue_adds_same)

lemma ip_call_out:
  assumes wf: "wf_udp s" and rdy: "iface_ready s ifp" and len: "len \<le> length data" "len \<le> MAX_IP_PAYLOAD_SIZE"
  shows "\<exists>s'. ip_call h data len src dst ifp s = Some s' \<and> handler_out s s'"
proof (cases h)
  case icmp_input_handler
  have wi: "wf_ip s" using wf by (simp add: wf_udp_def)
  from icmp_input_out [OF wi rdy len] obtain s' where
    s': "icmp_input data len src dst ifp s = Some s'" "ip_out s s'" by blast
  moreover have "queue_adds (\<lambda>t x. t = NETWORK_PROTOCOL_TYPE_IP \<and> \<not> ip_asks x \<and> ip_lengths_ok x) s s'"
    using icmp_input_adds [OF wi rdy len s'(1)] by (rule queue_adds_mono) simp
  ultimately show ?thesis
    using icmp_input_handler ip_out_udp [OF s'(2)] ip_out_open [OF s'(2)] by (simp add: handler_out_def)
next
  case udp_input_handler
  from udp_input_out [OF len] obtain s' where s': "udp_input data len src dst ifp s = Some s'" "udp_out s s'" by blast
  with udp_input_handler udp_input_open [OF len s'(1)] queue_adds_same [OF udp_input_protocols [OF len s'(1)]] show ?thesis
    by (simp add: handler_out_def)
qed

interpretation stk: transport ip_call wf_udp handler_out
  by unfold_locales (simp add: wf_udp_def, rule handler_out_refl, rule ip_call_out)

lemma arp_reply_adds:
  assumes "arp_reply ifp tha tpa dst s = Some (r, s')"
  shows "queue_adds (\<lambda>t x. t = ETHER_TYPE_ARP \<and> \<not> arp_asks x) s s'"
proof -
  from assms obtain dev d m where out: "network_device_output dev ETHER_TYPE_ARP (arp_ether_bytes m) arp_ether_size (Some dst) s = Some (r, s')"
    and d: "dev_heap s dev = Some d" and m: "length (ae_sha m) = 6" "length (ae_tha m) = 6" "ar_op m = hton16 ARP_OP_REPLY"
    by (auto simp: arp_reply_def Let_def bind_eq_Some_conv mem_read_def ETHER_ADDR_LEN_def split: if_splits)
  have "take arp_ether_size (arp_ether_bytes m) = arp_ether_bytes m" using m by (simp add: arp_ether_size_def)
  moreover have "\<not> arp_asks (arp_ether_bytes m)"
    using m read_arp_ether_bytes [of m "[]"] by (simp add: arp_asks_def arp_consts)
  ultimately show ?thesis using network_device_output_adds [OF out d] by (auto elim: queue_adds_mono)
qed

lemma arp_cache_protocols:
  "arp_cache_update pa ha s = Some (c, s') \<Longrightarrow> protocols s' = protocols s"
  "arp_cache_insert pa ha s = Some (c, s') \<Longrightarrow> protocols s' = protocols s"
  by (auto simp: arp_cache_update_def arp_cache_insert_def gettimeofday_def Let_def bind_eq_Some_conv split: option.splits)

lemma arp_input_adds:
  assumes "arp_input data len dev s = Some s'"
  shows "queue_adds (\<lambda>t x. arp_asks data \<and> t = ETHER_TYPE_ARP \<and> \<not> arp_asks x) s s'"
proof -
  consider (quiet) "protocols s' = protocols s"
    | (reply) msg ifp u r where "read_arp_ether data = Some msg" "ntoh16 (ar_op msg) = ARP_OP_REQUEST" "protocols u = protocols s"
        "arp_reply ifp (ae_sha msg) (ae_spa msg) (ae_sha msg) u = Some (r, s')"
    using assms by (auto simp: arp_input_def arp_input_update_def arp_input_rest_def bind_eq_Some_conv
        split: if_splits option.splits dest!: arp_cache_protocols)
  then show ?thesis
  proof cases
    case reply
    from arp_reply_adds [OF reply(4)] have "queue_adds (\<lambda>t x. t = ETHER_TYPE_ARP \<and> \<not> arp_asks x) s s'"
      by (rule queue_adds_from) (rule reply(3))
    then show ?thesis using reply(1,2) by (auto simp: arp_asks_def elim: queue_adds_mono)
  qed (rule queue_adds_same)
qed

text \<open>The ICMP handler is registered for ICMP only.\<close>

definition transport_ok :: "ip_protocol list \<Rightarrow> bool" where
  "transport_ok ps \<longleftrightarrow> (\<forall>p \<in> set ps. ipp_handler p = icmp_input_handler \<longrightarrow> ipp_type p = ICMP_PROTOCOL)"

lemma ip_input_silent:
  assumes wf: "wf_udp s" and dev: "dev \<in> set (devices s)" and len: "len \<le> length data" and ok: "ip_lengths_ok data"
    and reg: "transport_ok (ip_protocols s)" and asks: "\<not> ip_asks data" and r: "ip_input ip_call data len dev s = Some s'"
  shows "queue_adds (\<lambda>_ _. False) s s'"
proof -
  have wi: "wf_ip s" and wn: "wf_net s" using wf by (simp_all add: wf_udp_def wf_ip_def wf_arp_def)
  show ?thesis
  proof (cases rule: ip_input_cases [OF wn dev len])
    case 1
    with r show ?thesis by (simp add: queue_adds_same)
  next
    case (2 ifp i hdr k)
    let ?hlen = "4 * unat (ih_vhl hdr AND 0x0f)"
    let ?tot = "unat (ntoh16 (ih_total hdr))"
    have h: "20 \<le> ?hlen" "?hlen \<le> ?tot" using ok 2(4) by (simp_all add: ip_lengths_ok_def)
    have t: "?tot \<le> 65535" by (rule unat_u16_bound)
    have sz: "size_t_of_int (int ?tot - int ?hlen) = ?tot - ?hlen" using h t by (intro size_t_diff) simp_all
    have l: "?tot - ?hlen \<le> length (drop ?hlen data)" "?tot - ?hlen \<le> MAX_IP_PAYLOAD_SIZE"
      using 2(7) len h t by (simp_all add: MAX_IP_PAYLOAD_SIZE_def MAX_IP_PACKET_SIZE_def MIN_IP_HEADER_SIZE_def)
    have rdy: "iface_ready s ifp"
      using network_device_get_interface_spec [OF wn dev, of NETWORK_INTERFACE_FAMILY_IP] 2(1,2) by (auto simp: iface_ready_def)
    have call: "ip_call (ipp_handler (ip_protocols s ! k)) (drop ?hlen data) (?tot - ?hlen) (ih_src hdr) (ih_dst hdr) ifp s = Some s'"
      using r 2(13) sz by simp
    have k: "k < length (ip_protocols s)" "ipp_type (ip_protocols s ! k) = ih_protocol hdr" using find_slot_SomeD [OF 2(12)] by auto
    show ?thesis
    proof (cases "ipp_handler (ip_protocols s ! k)")
      case icmp_input_handler
      with reg k have "ih_protocol hdr = ICMP_PROTOCOL" by (auto simp: transport_ok_def)
      with asks 2(4) have "\<not> (\<exists>h. read_icmp_header (drop ?hlen data) = Some h \<and> ic_type h = ICMP_TYPE_ECHO)"
        by (auto simp: ip_asks_def)
      with icmp_input_adds [OF wi rdy l] call icmp_input_handler show ?thesis by (auto elim: queue_adds_mono)
    next
      case udp_input_handler
      with call have "udp_input (drop ?hlen data) (?tot - ?hlen) (ih_src hdr) (ih_dst hdr) ifp s = Some s'" by simp
      then show ?thesis by (rule queue_adds_same [OF udp_input_protocols [OF l]])
    qed
  qed
qed

section \<open>One packet\<close>

fun handler_type :: "proto_handler \<Rightarrow> u16" where
  "handler_type arp_input_handler = NETWORK_PROTOCOL_TYPE_ARP"
| "handler_type ip_input_handler = NETWORK_PROTOCOL_TYPE_IP"

fun asks :: "proto_handler \<Rightarrow> bytes \<Rightarrow> bool" where
  "asks arp_input_handler data = arp_asks data"
| "asks ip_input_handler data = ip_asks data"

fun data_ok :: "proto_handler \<Rightarrow> bytes \<Rightarrow> bool" where
  "data_ok arp_input_handler data = True"
| "data_ok ip_input_handler data = ip_lengths_ok data"

definition registered_ok :: "'a ip_state_scheme \<Rightarrow> bool" where
  "registered_ok s \<longleftrightarrow> transport_ok (ip_protocols s) \<and> map np_type (protocols s) = map handler_type (map np_handler (protocols s))"

lemma proto_call_step:
  assumes wf: "wf_udp s" and reg: "transport_ok (ip_protocols s)" and dev: "dev \<in> set (devices s)" and ok: "data_ok h data"
  shows "\<exists>s'. proto_call h data (length data) dev s = Some s' \<and> udp_out s s' \<and> pcb_open (pcbs s') = pcb_open (pcbs s) \<and>
    queue_adds (\<lambda>t x. asks h data \<and> t = handler_type h \<and> \<not> asks h x \<and> data_ok h x) s s'"
proof (cases h)
  case arp_input_handler
  have "wf_arp s" using wf by (simp add: wf_udp_def wf_ip_def)
  from arp_input_out [OF this dev order_refl, of data] obtain s' where
    s': "arp_input data (length data) dev s = Some s'" "arp_out s s'" by blast
  have "queue_adds (\<lambda>t x. asks h data \<and> t = handler_type h \<and> \<not> asks h x \<and> data_ok h x) s s'"
    using arp_input_adds [OF s'(1)] arp_input_handler
    by (auto elim!: queue_adds_mono simp: ETHER_TYPE_ARP_def NETWORK_PROTOCOL_TYPE_ARP_def)
  with arp_input_handler s' ip_out_udp [OF arp_out_ip [OF s'(2)]] ip_out_open [OF arp_out_ip [OF s'(2)]] show ?thesis by simp
next
  case ip_input_handler
  with ok have l: "ip_lengths_ok data" by simp
  from stk.ip_input_safe [OF wf dev order_refl l] obtain s' where
    s': "ip_input ip_call data (length data) dev s = Some s'" "handler_out s s'" by blast
  have "queue_adds (\<lambda>t x. asks h data \<and> t = handler_type h \<and> \<not> asks h x \<and> data_ok h x) s s'"
  proof (cases "ip_asks data")
    case True
    with s'(2) ip_input_handler show ?thesis by (simp add: handler_out_def)
  next
    case False
    from ip_input_silent [OF wf dev order_refl l reg False s'(1)] show ?thesis by (rule queue_adds_mono) simp
  qed
  with ip_input_handler s' show ?thesis by (simp add: handler_out_def)
qed

section \<open>Draining the queues\<close>

text \<open>What the interrupt thread leaves alone, and that it keeps the invariant.\<close>

definition run_out :: "'a udp_state_scheme \<Rightarrow> 'a udp_state_scheme \<Rightarrow> bool" where
  "run_out s s' \<longleftrightarrow>
     mem_ok s' = mem_ok s \<and> sys_ret s' = sys_ret s \<and> rx s' = rx s \<and> sigmask s' = sigmask s \<and>
     irq_vec s' = irq_vec s \<and> dev_heap s' = dev_heap s \<and> if_heap s' = if_heap s \<and> devices s' = devices s \<and>
     events s' = events s \<and> set (pending s) \<subseteq> set (pending s') \<and>
     map np_type (protocols s') = map np_type (protocols s) \<and> map np_handler (protocols s') = map np_handler (protocols s) \<and>
     ip_protocols s' = ip_protocols s \<and> ip_routes s' = ip_routes s \<and> ip_ifaces s' = ip_ifaces s \<and>
     pcb_open (pcbs s') = pcb_open (pcbs s) \<and> cond_destroy s' = cond_destroy s \<and> udp_state.more s' = udp_state.more s \<and>
     (wf_udp s \<longrightarrow> wf_udp s')"

lemma run_out_refl [simp]: "run_out s s"
  by (simp add: run_out_def)

lemma run_out_trans [trans]: "run_out s t \<Longrightarrow> run_out t u \<Longrightarrow> run_out s u"
  by (auto simp: run_out_def)

lemma net_ext_protocols:
  assumes "net_ext s s'"
  shows "map np_type (protocols s') = map np_type (protocols s)" "map np_handler (protocols s') = map np_handler (protocols s)"
  using assms unfolding net_ext_def proto_ext_def list_all2_conv_all_nth by (auto intro: nth_equalityI)

lemma udp_out_run:
  assumes "udp_out s s'" "pcb_open (pcbs s') = pcb_open (pcbs s)"
  shows "run_out s s'"
  using assms net_ext_protocols [OF udp_out_ext [OF assms(1)]] udp_out_wf [OF assms(1)]
  by (simp add: run_out_def udp_out_def net_ext_def)

lemma registered_run: "run_out s s' \<Longrightarrow> registered_ok s' = registered_ok s"
  by (simp only: registered_ok_def run_out_def)

lemma registered_type: "registered_ok s \<Longrightarrow> i < length (protocols s) \<Longrightarrow> np_type (protocols s ! i) = handler_type (np_handler (protocols s ! i))"
  by (auto simp: registered_ok_def)

definition proto_queue :: "'a net_state_scheme \<Rightarrow> nat \<Rightarrow> net_queue_entry list" where
  "proto_queue s i = q_items (np_queue (protocols s ! i))"

lemma proto_queue_of:
  assumes "wf_net s" "i < length (protocols s)"
  shows "queue_of (np_type (protocols s ! i)) s = proto_queue s i"
proof -
  have "find_slot (\<lambda>proto. np_type proto = np_type (protocols s ! i)) (protocols s) = Some i"
  proof (rule find_slotI)
    show "np_type (protocols s ! j) \<noteq> np_type (protocols s ! i)" if "j < i" for j
      using assms that nth_eq_iff_index_eq [of "map np_type (protocols s)" j i] by (simp add: wf_net_def)
  qed (use assms in simp_all)
  then show ?thesis by (simp add: queue_of_def proto_queue_def)
qed

text \<open>Taking a packet from a queue.\<close>

lemma pop_run:
  assumes wf: "wf_udp s" and i: "i < length (protocols s)" and q: "proto_queue s i = e # es"
  defines "t \<equiv> s\<lparr>protocols := (protocols s)[i := (protocols s ! i)\<lparr>np_queue := (np_queue (protocols s ! i))
    \<lparr>q_items := es, q_num := q_num (np_queue (protocols s ! i)) - 1\<rparr>\<rparr>]\<rparr>"
  shows "run_out s t" "nq_len e = length (nq_data e)" "nq_dev e \<in> set (devices s)"
    "np_handler (protocols t ! i) = np_handler (protocols s ! i)" "np_type (protocols t ! i) = np_type (protocols s ! i)"
    "proto_queue t i = es" "\<And>j. j \<noteq> i \<Longrightarrow> protocols t ! j = protocols s ! j" "length (protocols t) = length (protocols s)"
proof -
  let ?p = "protocols s ! i"
  have wn: "wf_net s" using wf by (simp add: wf_udp_def wf_ip_def wf_arp_def)
  have wq: "wf_queue (devices s) (np_queue ?p)" using wn i by (simp add: wf_net_def)
  with q show "nq_len e = length (nq_data e)" "nq_dev e \<in> set (devices s)" by (simp_all add: wf_queue_def proto_queue_def)
  have wq': "wf_queue (devices s) ((np_queue ?p)\<lparr>q_items := es, q_num := q_num (np_queue ?p) - 1\<rparr>)"
    using wq q by (simp add: wf_queue_def proto_queue_def)
  have "wf_net t"
    using wn by (rule wf_net_mono) (use wn i wq' in \<open>auto simp: t_def wf_net_def dest!: set_update_subset_insert [THEN subsetD]\<close>)
  then have "wf_udp t" using wf by (simp add: t_def wf_udp_def wf_ip_def wf_arp_def iface_ready_def)
  moreover have "map np_handler (protocols t) = map np_handler (protocols s)"
    using i by (auto simp: t_def nth_list_update intro: nth_equalityI)
  ultimately show "run_out s t" using i by (simp add: run_out_def t_def)
qed (use i in \<open>simp_all add: t_def proto_queue_def\<close>)

definition asking :: "nat \<Rightarrow> 'a net_state_scheme \<Rightarrow> nat" where
  "asking i s = length (filter (\<lambda>e. asks (np_handler (protocols s ! i)) (nq_data e)) (proto_queue s i))"

text \<open>
  One round of the loop: the first packet leaves the queue and is handled; what its handler adds to
  the same queue, over the loopback device, is not answered in turn.
\<close>

lemma protocol_drain_step:
  assumes wf: "wf_udp s" and reg: "registered_ok s" and i: "i < length (protocols s)"
    and ok: "\<forall>e \<in> set (proto_queue s i). data_ok (np_handler (protocols s ! i)) (nq_data e)"
    and q: "proto_queue s i = e # es"
  shows "\<exists>u. protocol_drain i s = protocol_drain i u \<and> run_out s u \<and>
    (u, s) \<in> measures [asking i, \<lambda>s. length (proto_queue s i)] \<and> length (protocols u) = length (protocols s) \<and>
    (\<forall>e \<in> set (proto_queue u i). data_ok (np_handler (protocols u ! i)) (nq_data e)) \<and>
    (\<forall>j < length (protocols s). j \<noteq> i \<longrightarrow> proto_queue u j = proto_queue s j)"
proof -
  let ?h = "np_handler (protocols s ! i)"
  let ?q = "np_queue (protocols s ! i)"
  define t where "t = s\<lparr>protocols := (protocols s)[i := (protocols s ! i)\<lparr>np_queue := ?q\<lparr>q_items := es, q_num := q_num ?q - 1\<rparr>\<rparr>]\<rparr>"
  note pop = pop_run [OF wf i q, folded t_def]
  have wt: "wf_udp t" using pop(1) wf by (simp add: run_out_def)
  have rt: "registered_ok t" using registered_run [OF pop(1)] reg by simp
  have dt: "nq_dev e \<in> set (devices t)" using pop(1,3) by (simp add: run_out_def)
  have oke: "data_ok ?h (nq_data e)" using ok q by simp
  from proto_call_step [OF wt _ dt oke] rt obtain u where
    u: "proto_call ?h (nq_data e) (length (nq_data e)) (nq_dev e) t = Some u" "udp_out t u" "pcb_open (pcbs u) = pcb_open (pcbs t)"
      "queue_adds (\<lambda>ty x. asks ?h (nq_data e) \<and> ty = handler_type ?h \<and> \<not> asks ?h x \<and> data_ok ?h x) t u"
    by (auto simp: registered_ok_def)
  have tu: "run_out t u" using udp_out_run [OF u(2,3)] .
  have su: "run_out s u" using run_out_trans [OF pop(1) tu] .
  have it: "i < length (protocols t)" using pop(8) i by simp
  from u(4) it obtain fs where fs: "length (protocols u) = length (protocols t)" "np_handler (protocols u ! i) = ?h"
    "proto_queue u i = es @ fs" "\<forall>f \<in> set fs. asks ?h (nq_data e) \<and> \<not> asks ?h (nq_data f) \<and> data_ok ?h (nq_data f)"
    using pop(4,6) by (auto simp: proto_queue_def elim!: queue_adds_nth)
  have same: "proto_queue u j = proto_queue s j" if j: "j < length (protocols s)" "j \<noteq> i" for j
  proof -
    have jt: "j < length (protocols t)" using j pop(8) by simp
    from u(4) jt obtain gs where gs: "proto_queue u j = proto_queue t j @ gs"
      "\<forall>g \<in> set gs. np_type (protocols t ! j) = handler_type ?h" by (auto simp: proto_queue_def elim!: queue_adds_nth)
    have "distinct (map np_type (protocols s))" using wf by (simp add: wf_udp_def wf_ip_def wf_arp_def wf_net_def)
    then have "np_type (protocols s ! j) \<noteq> np_type (protocols s ! i)"
      using j i nth_eq_iff_index_eq [of "map np_type (protocols s)" j i] by simp
    with gs(2) pop(7) [OF j(2)] registered_type [OF reg i] have "gs = []" by (cases gs) auto
    with gs(1) pop(7) [OF j(2)] show ?thesis by (simp add: proto_queue_def)
  qed
  have less: "(u, s) \<in> measures [asking i, \<lambda>s. length (proto_queue s i)]"
    using q fs(2-4) by (cases "asks ?h (nq_data e)") (auto simp: asking_def filter_empty_conv)
  have data: "\<forall>e \<in> set (proto_queue u i). data_ok (np_handler (protocols u ! i)) (nq_data e)"
    using ok q fs(2-4) by auto
  have "dev_heap s (nq_dev e) \<noteq> None"
    using wf pop(3) by (auto simp: wf_udp_def wf_ip_def wf_arp_def wf_net_def)
  then have "protocol_drain i s = protocol_drain i u"
    using q u(1) pop(2,4) i by (subst protocol_drain.simps)
      (auto simp: lqueue_pop_def proto_queue_def t_def [symmetric])
  with su less data same fs(1) pop(8) show ?thesis by auto
qed

text \<open>
  The inner loop ends: a packet that is answered on the loopback device is replaced by its answer, and an
  answer is not answered.
\<close>

lemma protocol_drain_ok:
  assumes "wf_udp s" "registered_ok s" "i < length (protocols s)"
    "\<forall>e \<in> set (proto_queue s i). data_ok (np_handler (protocols s ! i)) (nq_data e)"
  shows "\<exists>s'. protocol_drain i s = Some s' \<and> run_out s s' \<and> proto_queue s' i = [] \<and>
    (\<forall>j < length (protocols s). j \<noteq> i \<longrightarrow> proto_queue s' j = proto_queue s j)"
  using assms
proof (induction s rule: wf_induct_rule [OF wf_measures [of "[asking i, \<lambda>s. length (proto_queue s i)]"], case_names less])
  case (less s)
  show ?case
  proof (cases "proto_queue s i")
    case Nil
    then have "protocol_drain i s = Some s"
      by (subst protocol_drain.simps) (simp add: lqueue_pop_def proto_queue_def)
    with Nil show ?thesis by auto
  next
    case (Cons e es)
    from protocol_drain_step [OF less.prems Cons] obtain u where
      u: "protocol_drain i s = protocol_drain i u" "run_out s u"
        "(u, s) \<in> measures [asking i, \<lambda>s. length (proto_queue s i)]" "length (protocols u) = length (protocols s)"
        "\<forall>e \<in> set (proto_queue u i). data_ok (np_handler (protocols u ! i)) (nq_data e)"
        "\<forall>j < length (protocols s). j \<noteq> i \<longrightarrow> proto_queue u j = proto_queue s j" by blast
    have "wf_udp u" "registered_ok u" "i < length (protocols u)"
      using u(2,4) less.prems registered_run [OF u(2)] by (simp_all add: run_out_def)
    with less.IH [OF u(3) _ _ _ u(5)] obtain s' where s': "protocol_drain i u = Some s'" "run_out u s'" "proto_queue s' i = []"
      "\<forall>j < length (protocols u). j \<noteq> i \<longrightarrow> proto_queue s' j = proto_queue u j" by blast
    with u run_out_trans [OF u(2) s'(2)] show ?thesis by auto
  qed
qed

definition packets_ok :: "'a net_state_scheme \<Rightarrow> bool" where
  "packets_ok s \<longleftrightarrow> (\<forall>p \<in> set (protocols s). \<forall>e \<in> set (q_items (np_queue p)). data_ok (np_handler p) (nq_data e))"

lemma drain_protocols_ok:
  assumes "wf_udp s" "registered_ok s" "set is \<subseteq> {..<length (protocols s)}" "distinct is"
    "\<forall>i \<in> set is. \<forall>e \<in> set (proto_queue s i). data_ok (np_handler (protocols s ! i)) (nq_data e)"
  shows "\<exists>s'. drain_protocols is s = Some s' \<and> run_out s s' \<and> (\<forall>i \<in> set is. proto_queue s' i = []) \<and>
    (\<forall>j < length (protocols s). j \<notin> set is \<longrightarrow> proto_queue s' j = proto_queue s j)"
  using assms
proof (induction "is" arbitrary: s)
  case (Cons i "is")
  then have i: "i < length (protocols s)" "\<forall>e \<in> set (proto_queue s i). data_ok (np_handler (protocols s ! i)) (nq_data e)" by auto
  from protocol_drain_ok [OF Cons.prems(1,2) i] obtain t where
    t: "protocol_drain i s = Some t" "run_out s t" "proto_queue t i = []"
      "\<forall>j < length (protocols s). j \<noteq> i \<longrightarrow> proto_queue t j = proto_queue s j" by blast
  have len: "length (protocols t) = length (protocols s)" and h: "map np_handler (protocols t) = map np_handler (protocols s)"
    using t(2) map_eq_imp_length_eq [of np_type "protocols t" np_type "protocols s"] by (simp_all add: run_out_def)
  have ok: "\<forall>e \<in> set (proto_queue t j). data_ok (np_handler (protocols t ! j)) (nq_data e)" if j: "j \<in> set is" for j
  proof -
    have jl: "j < length (protocols s)" "j \<noteq> i" using Cons.prems(3,4) j by auto
    then have "np_handler (protocols t ! j) = np_handler (protocols s ! j)"
      using h len nth_map [of j "protocols t" np_handler] nth_map [of j "protocols s" np_handler] by simp
    with t(4) jl Cons.prems(5) j show ?thesis by auto
  qed
  have "wf_udp t" "registered_ok t" using t(2) Cons.prems(1,2) registered_run [OF t(2)] by (simp_all add: run_out_def)
  moreover have "set is \<subseteq> {..<length (protocols t)}" "distinct is" using Cons.prems(3,4) len by auto
  ultimately obtain s' where s': "drain_protocols is t = Some s'" "run_out t s'" "\<forall>i \<in> set is. proto_queue s' i = []"
    "\<forall>j < length (protocols t). j \<notin> set is \<longrightarrow> proto_queue s' j = proto_queue t j"
    using Cons.IH [of t] ok by blast
  have "proto_queue s' i = []" using s'(4) len i(1) t(3) Cons.prems(4) by simp
  with s' t len run_out_trans [OF t(2) s'(2)] show ?case by auto
qed auto

lemma network_protocol_handler_ok:
  assumes wf: "wf_udp s" "registered_ok s" and ok: "\<forall>e \<in> set (queue_of NETWORK_PROTOCOL_TYPE_IP s). ip_lengths_ok (nq_data e)"
  shows "\<exists>s'. network_protocol_handler s = Some (0, s') \<and> run_out s s' \<and> (\<forall>t. queue_of t s' = []) \<and> softirq_ok s' \<and> packets_ok s'"
proof -
  have wn: "wf_net s" using wf(1) by (simp add: wf_udp_def wf_ip_def wf_arp_def)
  have "data_ok (np_handler (protocols s ! i)) (nq_data e)" if i: "i < length (protocols s)" "e \<in> set (proto_queue s i)" for i e
  proof (cases "np_handler (protocols s ! i)")
    case ip_input_handler
    with proto_queue_of [OF wn i(1)] registered_type [OF wf(2) i(1)] i(2) ok show ?thesis by auto
  qed simp
  then obtain s' where s': "drain_protocols [0..<length (protocols s)] s = Some s'" "run_out s s'"
    "\<forall>i < length (protocols s). proto_queue s' i = []"
    using drain_protocols_ok [OF wf, of "[0..<length (protocols s)]"] by (auto simp: lessThan_atLeast0)
  have len: "length (protocols s') = length (protocols s)"
    using s'(2) map_eq_imp_length_eq [of np_type "protocols s'" np_type "protocols s"] by (simp add: run_out_def)
  then have "queue_of t s' = []" for t
    using s'(3) by (auto simp: queue_of_def proto_queue_def split: option.split dest: find_slot_SomeD)
  moreover have "\<forall>p \<in> set (protocols s'). q_items (np_queue p) = []" using s'(3) len by (auto simp: proto_queue_def in_set_conv_nth)
  then have "softirq_ok s'" "packets_ok s'" by (simp_all add: softirq_ok_def packets_ok_def)
  ultimately show ?thesis using s'(1,2) by (simp add: network_protocol_handler_def)
qed

section \<open>The stack as a whole\<close>

subsection \<open>Timers and events\<close>

lemma timer_tick_run:
  assumes "wf_udp s"
  shows "run_out s (timer_tick i s)" "protocols (timer_tick i s) = protocols s" "pending (timer_tick i s) = pending s"
proof -
  let ?t = "s\<lparr>clock_n := Suc (clock_n s)\<rparr>"
  have t: "run_out s ?t"
    by (rule udp_out_run) (auto simp: udp_out_def intro!: net_ext_quiet)
  then have "wf_arp ?t" using assms by (simp add: run_out_def wf_udp_def wf_ip_def)
  have u: "run_out ?t (arp_timer ?t)" "protocols (arp_timer ?t) = protocols s" "pending (arp_timer ?t) = pending s"
  proof -
    have "arp_out ?t (arp_timer ?t)" using arp_timer_spec [OF \<open>wf_arp ?t\<close>] by blast
    then show "run_out ?t (arp_timer ?t)" by (intro udp_out_run ip_out_udp ip_out_open arp_out_ip)
  qed (simp_all add: arp_timer_def gettimeofday_def)
  have v: "run_out u (u\<lparr>timers := ts\<rparr>)" for u :: "'a udp_state_scheme" and ts
    by (auto simp: run_out_def wf_udp_def wf_ip_def wf_arp_def wf_net_def wf_ifaces_def iface_ready_def)
  have c: "timer_call h u = arp_timer u" for h and u :: "'a udp_state_scheme" by (cases h) simp
  show "run_out s (timer_tick i s)" "protocols (timer_tick i s) = protocols s" "pending (timer_tick i s) = pending s"
    using t u run_out_trans [OF t u(1)] run_out_trans [OF run_out_trans [OF t u(1)] v]
    by (simp_all add: timer_tick_def gettimeofday_def Let_def c)
qed

lemma network_timer_handler_run:
  assumes "wf_udp s"
  shows "run_out s (snd (network_timer_handler s))" "protocols (snd (network_timer_handler s)) = protocols s"
    "pending (snd (network_timer_handler s)) = pending s"
proof -
  have "run_out s (fold timer_tick is s) \<and> protocols (fold timer_tick is s) = protocols s \<and> pending (fold timer_tick is s) = pending s" for "is"
    using assms
  proof (induction "is" arbitrary: s)
    case (Cons i "is")
    note tick = timer_tick_run [OF Cons.prems, of i]
    then have "wf_udp (timer_tick i s)" using Cons.prems by (simp add: run_out_def)
    from Cons.IH [OF this] tick run_out_trans [OF tick(1)] show ?case by simp
  qed simp
  then show "run_out s (snd (network_timer_handler s))" "protocols (snd (network_timer_handler s)) = protocols s"
    "pending (snd (network_timer_handler s)) = pending s" by (simp_all add: network_timer_handler_def)
qed

lemma network_event_handler_run:
  "run_out s (snd (network_event_handler s))" "protocols (snd (network_event_handler s)) = protocols s"
  "pending (snd (network_event_handler s)) = pending s"
proof -
  have c: "event_call h arg u = event_handler_udp u" for h arg and u :: "'a udp_state_scheme" by (cases h) simp
  have "run_out s (fold (\<lambda>event. event_call (ne_handler event) (ne_arg event)) es s) \<and>
      protocols (fold (\<lambda>event. event_call (ne_handler event) (ne_arg event)) es s) = protocols s \<and>
      pending (fold (\<lambda>event. event_call (ne_handler event) (ne_arg event)) es s) = pending s" for es :: "network_event list"
  proof (induction es arbitrary: s)
    case (Cons e es)
    have "run_out s (event_handler_udp s)" by (rule udp_out_run [OF event_handler_udp_out event_handler_udp_open])
    with Cons [of "event_handler_udp s"] show ?case by (auto simp: c intro: run_out_trans) (simp_all add: event_handler_udp_def)
  qed simp
  then show "run_out s (snd (network_event_handler s))" "protocols (snd (network_event_handler s)) = protocols s"
    "pending (snd (network_event_handler s)) = pending s" by (simp_all add: network_event_handler_def)
qed

subsection \<open>Invariant\<close>

text \<open>What a frame must satisfy that does not run into the missing length check of \<open>ip_input\<close>.\<close>

definition frame_ok :: "bytes \<Rightarrow> bool" where
  "frame_ok frame \<longleftrightarrow>
     (let f = take ETHER_FRAME_SIZE_MAX frame
      in case read_ether_hdr f of
           None \<Rightarrow> True
         | Some h \<Rightarrow> ntoh16 (eh_type h) = NETWORK_PROTOCOL_TYPE_IP \<longrightarrow> ip_lengths_ok (drop 14 f))"

definition irqs_ok :: "'a net_state_scheme \<Rightarrow> bool" where
  "irqs_ok s \<longleftrightarrow> (\<forall>e \<in> set (irq_vec s). ie_dev e \<in> set (devices s) \<and> (\<exists>d. dev_heap s (ie_dev e) = Some d \<and> dev_priv d \<noteq> None))"

definition wf_stack :: "'a sock_state_scheme \<Rightarrow> bool" where
  "wf_stack s \<longleftrightarrow>
     wf_sock s \<and> softirq_ok s \<and> registered_ok s \<and> irqs_ok s \<and> packets_ok s \<and>
     (\<forall>fd. \<forall>f \<in> set (rx s fd). frame_ok f) \<and> (\<exists>N. \<forall>n \<ge> N. sys_ret s n \<noteq> -1)"

lemma handler_type_inject [simp]: "handler_type h = handler_type h' \<longleftrightarrow> h = h'"
  by (cases h; cases h') (simp_all add: NETWORK_PROTOCOL_TYPE_ARP_def NETWORK_PROTOCOL_TYPE_IP_def)

lemma packets_ok_ip:
  assumes "packets_ok s" "registered_ok s" "e \<in> set (queue_of NETWORK_PROTOCOL_TYPE_IP s)"
  shows "ip_lengths_ok (nq_data e)"
proof -
  from assms(3) obtain i where i: "i < length (protocols s)" "np_type (protocols s ! i) = NETWORK_PROTOCOL_TYPE_IP"
    "e \<in> set (q_items (np_queue (protocols s ! i)))"
    by (cases "find_slot (\<lambda>proto. np_type proto = NETWORK_PROTOCOL_TYPE_IP) (protocols s)")
      (auto simp: queue_of_def dest: find_slot_SomeD)
  then have "np_handler (protocols s ! i) = ip_input_handler"
    using registered_type [OF assms(2) i(1)] handler_type_inject [of "np_handler (protocols s ! i)" ip_input_handler] by simp
  with assms(1) i show ?thesis by (auto simp: packets_ok_def dest!: bspec [where x = "protocols s ! i"])
qed

lemma packets_ok_adds:
  assumes "packets_ok s" "registered_ok s" "queue_adds (\<lambda>t x. t = NETWORK_PROTOCOL_TYPE_IP \<longrightarrow> ip_lengths_ok x) s s'"
  shows "packets_ok s'"
proof -
  have l: "length (protocols s') = length (protocols s)" using assms(3) by (simp add: queue_adds_def list_all2_lengthD)
  have "data_ok (np_handler (protocols s' ! i)) (nq_data e)"
    if i: "i < length (protocols s)" "e \<in> set (q_items (np_queue (protocols s' ! i)))" for i e
  proof -
    from queue_adds_nth [OF assms(3) i(1)] obtain es where
      es: "np_handler (protocols s' ! i) = np_handler (protocols s ! i)"
        "q_items (np_queue (protocols s' ! i)) = q_items (np_queue (protocols s ! i)) @ es"
        "\<forall>e \<in> set es. np_type (protocols s ! i) = NETWORK_PROTOCOL_TYPE_IP \<longrightarrow> ip_lengths_ok (nq_data e)" by metis
    show ?thesis
    proof (cases "e \<in> set es")
      case True
      with es(1,3) registered_type [OF assms(2) i(1)] show ?thesis by (cases "np_handler (protocols s ! i)") auto
    next
      case False
      with es i assms(1) show ?thesis by (auto simp: packets_ok_def)
    qed
  qed
  then show ?thesis using l by (auto simp: packets_ok_def in_set_conv_nth [of _ "protocols s'"])
qed

lemma wf_sock_run:
  assumes "wf_sock s" "run_out s s'"
  shows "wf_sock s'"
proof -
  have "socks s' = socks s" using assms(2) udp_more_sock [of s' s] by (simp add: run_out_def)
  moreover have "wf_socks (pcbs s') (socks s) = wf_socks (pcbs s) (socks s)"
    using assms(2) by (intro wf_socks_cong) (simp add: run_out_def)
  ultimately show ?thesis using assms by (simp add: wf_sock_def run_out_def)
qed

lemma wf_sock_fields [simp]: "wf_sock (s\<lparr>rx := r\<rparr>) = wf_sock s" "wf_sock (s\<lparr>pending := ps\<rparr>) = wf_sock s"
  by (simp_all add: wf_sock_def wf_udp_def wf_ip_def wf_arp_def wf_net_def wf_ifaces_def iface_ready_def)

lemma wf_stack_rx:
  assumes "wf_stack s" "\<And>fd f. f \<in> set (r fd) \<Longrightarrow> frame_ok f"
  shows "wf_stack (s\<lparr>rx := r\<rparr>)"
proof -
  have "softirq_ok (s\<lparr>rx := r\<rparr>)" "registered_ok (s\<lparr>rx := r\<rparr>)" "irqs_ok (s\<lparr>rx := r\<rparr>)" "packets_ok (s\<lparr>rx := r\<rparr>)"
    using assms(1) by (simp_all add: wf_stack_def softirq_ok_def registered_ok_def irqs_ok_def packets_ok_def)
  with assms show ?thesis by (simp add: wf_stack_def)
qed

lemma wf_stack_run:
  assumes "wf_stack s" "run_out (s\<lparr>pending := ps\<rparr>) s'" "softirq_ok s'" "packets_ok s'"
  shows "wf_stack s'"
proof -
  have "wf_sock (s\<lparr>pending := ps\<rparr>)" using assms(1) by (simp add: wf_stack_def)
  then have "wf_sock s'" using assms(2) by (rule wf_sock_run)
  moreover have "registered_ok s'" using registered_run [OF assms(2)] assms(1) by (simp add: wf_stack_def registered_ok_def)
  ultimately show ?thesis using assms by (simp add: wf_stack_def irqs_ok_def run_out_def)
qed

lemma wf_stack_ext:
  assumes "wf_stack s" "wf_sock s'" "net_ext s s'" "ip_protocols s' = ip_protocols s"
    "queue_adds (\<lambda>t x. t = NETWORK_PROTOCOL_TYPE_IP \<longrightarrow> ip_lengths_ok x) s s'"
  shows "wf_stack s'"
proof -
  have "registered_ok s'" using assms(1,4) net_ext_protocols [OF assms(3)] by (simp add: wf_stack_def registered_ok_def)
  moreover have "packets_ok s'" using packets_ok_adds [OF _ _ assms(5)] assms(1) by (simp add: wf_stack_def)
  ultimately show ?thesis
    using assms(1,2) net_ext_softirq [OF assms(3)] assms(3) by (simp add: wf_stack_def irqs_ok_def net_ext_def)
qed

lemma ether_accept_ok:
  "frame_ok f \<Longrightarrow> ether_accept dev addr f = Some (NETWORK_PROTOCOL_TYPE_IP, e) \<Longrightarrow> ip_lengths_ok (nq_data e)"
  by (auto simp: frame_ok_def ether_accept_def Let_def split: option.splits if_splits)

lemma net_out_udp: "net_out s s' \<Longrightarrow> udp_out s s'" and net_out_pcb_open: "net_out s s' \<Longrightarrow> pcb_open (pcbs s') = pcb_open (pcbs s)"
  by (rule ip_out_udp [OF arp_out_ip [OF net_out_arp]], assumption) (rule ip_out_open [OF arp_out_ip [OF net_out_arp]])

lemma wf_stack_net_out:
  assumes wf: "wf_stack s" and out: "net_out s s'" and adds: "queue_adds (\<lambda>t x. t = NETWORK_PROTOCOL_TYPE_IP \<longrightarrow> ip_lengths_ok x) s s'"
  shows "wf_stack s'"
proof -
  have "run_out s s'" by (rule udp_out_run [OF net_out_udp [OF out] net_out_pcb_open [OF out]])
  moreover have "wf_sock s" using wf by (simp add: wf_stack_def)
  ultimately have ws: "wf_sock s'" by (rule wf_sock_run [rotated])
  show ?thesis
    by (rule wf_stack_ext [OF wf ws net_outD [OF out] _ adds]) (use net_out_udp [OF out] in \<open>simp add: udp_out_def\<close>)
qed

lemma irq_call_stack:
  assumes wf: "wf_stack s" and e: "e \<in> set (irq_vec s)"
  shows "\<exists>r s'. irq_call (ie_handler e) irq (ie_dev e) s = Some (r, s') \<and> wf_stack s' \<and> irq_vec s' = irq_vec s"
proof -
  from wf e obtain d pv where d: "ie_dev e \<in> set (devices s)" "dev_heap s (ie_dev e) = Some d" "dev_priv d = Some pv"
    by (auto simp: wf_stack_def irqs_ok_def)
  have wn: "wf_net s" using wf by (simp add: wf_stack_def wf_sock_def wf_udp_def wf_ip_def wf_arp_def)
  obtain N where sys: "\<forall>k \<ge> N. sys_ret s k \<noteq> -1" using wf by (auto simp: wf_stack_def)
  define isr :: "nat \<Rightarrow> nat \<Rightarrow> 'a sock_state_scheme \<Rightarrow> (int \<times> 'a sock_state_scheme) option" where "isr = irq_call (ie_handler e)"
  have "isr \<in> {ether_tap_isr, ether_pcap_isr}"
    by (cases "ie_handler e") (auto simp: isr_def fun_eq_iff)
  from ether_isr_out [OF wn d sys this, of irq] obtain r gs s' where
    s': "isr irq (ie_dev e) s = Some (r, s')" "net_out (s\<lparr>rx := (rx s)(pv_fd pv := gs)\<rparr>) s'"
      "queue_adds (\<lambda>t x. \<exists>f \<in> set (rx s (pv_fd pv)). \<exists>en. ether_accept (ie_dev e) (take 6 (dev_address d)) f = Some (t, en) \<and> x = nq_data en) s s'"
      "set gs \<subseteq> set (rx s (pv_fd pv))"
    by blast
  define u where "u = s\<lparr>rx := (rx s)(pv_fd pv := gs)\<rparr>"
  have out: "net_out u s'" using s'(2) by (simp add: u_def)
  have wu: "wf_stack u"
    unfolding u_def using wf s'(4) by (intro wf_stack_rx) (auto simp: wf_stack_def split: if_splits)
  have "queue_adds (\<lambda>t x. t = NETWORK_PROTOCOL_TYPE_IP \<longrightarrow> ip_lengths_ok x) s s'"
    using s'(3) by (rule queue_adds_mono) (use wf in \<open>auto simp: wf_stack_def intro: ether_accept_ok\<close>)
  then have "queue_adds (\<lambda>t x. t = NETWORK_PROTOCOL_TYPE_IP \<longrightarrow> ip_lengths_ok x) u s'"
    by (rule queue_adds_from) (simp add: u_def)
  then have "wf_stack s'" by (rule wf_stack_net_out [OF wu out])
  moreover have "irq_vec s' = irq_vec s" using net_ext_same(6) [OF net_outD [OF out]] by (simp add: u_def)
  ultimately show ?thesis using s'(1) by (simp add: isr_def)
qed

lemma irq_dispatch_stack:
  assumes "wf_stack s" "set es \<subseteq> set (irq_vec s)"
  shows "\<exists>s'. irq_dispatch sig es s = Some s' \<and> wf_stack s'"
  using assms
proof (induction es arbitrary: s)
  case (Cons e es)
  show ?case
  proof (cases "ie_irq e = sig")
    case True
    from irq_call_stack [OF Cons.prems(1), of e "ie_irq e"] Cons.prems(2) obtain r t where
      t: "irq_call (ie_handler e) (ie_irq e) (ie_dev e) s = Some (r, t)" "wf_stack t" "irq_vec t = irq_vec s" by auto
    with Cons.IH [OF t(2)] Cons.prems(2) True show ?thesis by auto
  qed (use Cons in auto)
qed simp

lemma wf_stack_pending:
  assumes "wf_stack s" "SIGUSR1 \<in> set (pending s) \<longrightarrow> SIGUSR1 \<in> set ps"
  shows "wf_stack (s\<lparr>pending := ps\<rparr>)"
proof (rule wf_stack_run [OF assms(1) run_out_refl])
  show "softirq_ok (s\<lparr>pending := ps\<rparr>)" "packets_ok (s\<lparr>pending := ps\<rparr>)"
    using assms by (auto simp: wf_stack_def softirq_ok_def packets_ok_def)
qed

lemma intr_step_stack:
  assumes wf: "wf_stack s"
  shows "\<exists>s'. intr_step sig s = Some s' \<and> wf_stack s' \<and>
    (sig = SIGUSR1 \<and> sig \<in> set (pending s) \<and> sig \<in> set (sigmask s) \<longrightarrow> (\<forall>t. queue_of t s' = []))"
proof (cases "sig \<in> set (pending s) \<and> sig \<in> set (sigmask s)")
  case False
  then show ?thesis using wf by (auto simp: intr_step_def)
next
  case True
  let ?ps = "remove1 sig (pending s)"
  let ?u = "s\<lparr>pending := ?ps\<rparr>"
  consider (soft) "sig = SIGUSR1" | (event) "sig = SIGUSR2" | (timer) "sig = SIGALRM" | (irq) "sig \<notin> {SIGUSR1, SIGUSR2, SIGALRM}" by blast
  then show ?thesis
  proof cases
    case soft
    have "wf_udp ?u" using wf wf_sock_fields(2) [of ?ps s] by (simp add: wf_stack_def wf_sock_def)
    moreover have "registered_ok ?u" "packets_ok ?u" using wf by (simp_all add: wf_stack_def registered_ok_def packets_ok_def)
    ultimately obtain s' where
      s': "network_protocol_handler ?u = Some (0, s')" "run_out ?u s'" "\<forall>t. queue_of t s' = []" "softirq_ok s'" "packets_ok s'"
      using network_protocol_handler_ok [of ?u] packets_ok_ip [of ?u] by blast
    with wf_stack_run [OF wf s'(2,4,5)] s' True soft show ?thesis by (simp add: intr_step_def intr_dispatch_def)
  next
    case event
    then have wu: "wf_stack ?u" using wf by (intro wf_stack_pending) (simp_all add: SIGUSR1_def SIGUSR2_def)
    note ev = network_event_handler_run [of ?u]
    have "wf_stack (snd (network_event_handler ?u))"
      using wu ev by (intro wf_stack_run [OF wf ev(1)]) (simp_all add: wf_stack_def softirq_ok_def packets_ok_def)
    with event True show ?thesis by (simp add: intr_step_def intr_dispatch_def SIGUSR1_def SIGUSR2_def)
  next
    case timer
    then have wu: "wf_stack ?u" using wf by (intro wf_stack_pending) (simp_all add: SIGUSR1_def SIGALRM_def)
    then have "wf_udp ?u" by (simp add: wf_stack_def wf_sock_def)
    note ev = network_timer_handler_run [OF this]
    have "wf_stack (snd (network_timer_handler ?u))"
      using wu ev by (intro wf_stack_run [OF wf ev(1)]) (simp_all add: wf_stack_def softirq_ok_def packets_ok_def)
    with timer True show ?thesis by (simp add: intr_step_def intr_dispatch_def SIGUSR1_def SIGUSR2_def SIGALRM_def)
  next
    case irq
    then have "wf_stack ?u" using wf by (intro wf_stack_pending) simp_all
    from irq_dispatch_stack [OF this, of "irq_vec s" sig] obtain s' where "irq_dispatch sig (irq_vec s) ?u = Some s'" "wf_stack s'" by auto
    with irq True show ?thesis by (simp add: intr_step_def intr_dispatch_def)
  qed
qed

lemma syscall_stack: "wf_stack s \<Longrightarrow> wf_stack (snd (syscall s))"
  by (rule wf_stack_net_out [OF _ syscall_same(1)]) (simp_all add: queue_adds_same syscall_frame)

lemma intr_loop_stack: "wf_stack s \<Longrightarrow> \<exists>s'. intr_loop sigs s = Some s' \<and> wf_stack s'"
proof (induction sigs s rule: intr_loop.induct)
  case (3 sig sigs s)
  from intr_step_stack [OF 3(2), of sig] obtain t where "intr_step sig s = Some t" "wf_stack t" by blast
  with 3(1) show ?case by simp
qed auto

lemma intr_thread_stack: "wf_stack s \<Longrightarrow> \<exists>s'. intr_thread sigs s = Some s' \<and> wf_stack s'"
  using syscall_stack [of s] syscall_stack [OF syscall_stack [of s]] intr_loop_stack
  by (auto simp: intr_thread_def intr_timer_setup_def split_beta Let_def)

subsection \<open>Socket calls\<close>

lemma udp_output_adds:
  assumes wf: "wf_ip s" and len: "len \<le> length data" and r: "udp_output src dst data len s = Some (r, s')"
  shows "queue_adds (\<lambda>t x. t = NETWORK_PROTOCOL_TYPE_IP \<longrightarrow> ip_lengths_ok x) s s'"
proof (cases "len > 65507")
  case True
  then show ?thesis using udp_output_eq [OF len, of src dst s] r by (simp add: queue_adds_same)
next
  case False
  let ?d = "udp_datagram src dst (take len data)"
  have l: "8 + len \<le> length ?d" "20 + length ?d < 2 ^ 64" using False len by (simp_all add: min_def)
  have "udp_output src dst data len s = do {
       (r, s) \<leftarrow> ip_send_packet UDP_PROTOCOL ?d (8 + len) (ep_address src) (ep_address dst) s;
       Some (if r = -1 then -1 else int len, s)}"
    unfolding udp_output_eq [OF len] using False by simp
  with r obtain q where "ip_send_packet UDP_PROTOCOL ?d (8 + len) (ep_address src) (ep_address dst) s = Some (q, s')"
    by (auto simp: bind_eq_Some_conv)
  from ip_send_packet_adds [OF wf l this] show ?thesis
    by (rule queue_adds_mono) (use ip_packet_lengths_ok in auto)
qed

lemma udp_sendto_adds:
  assumes wf: "wf_udp s" and len: "len \<le> length data" and r: "udp_sendto ident data len foreign s = Some (r, s')"
  shows "queue_adds (\<lambda>t x. t = NETWORK_PROTOCOL_TYPE_IP \<longrightarrow> ip_lengths_ok x) s s'"
proof (cases "udp_pcb_get ident s")
  case None
  with r show ?thesis by (simp add: udp_sendto_def queue_adds_same)
next
  case (Some k)
  have wi: "wf_ip s" and wp: "wf_pcbs (pcbs s)" using wf by (simp_all add: wf_udp_def)
  obtain a where a: "udp_source_address (pcbs s ! k) foreign s = Some a" using udp_source_address_defined [OF wi] by blast
  show ?thesis
  proof (cases a)
    case None
    with Some a r show ?thesis by (simp add: udp_sendto_def Let_def queue_adds_same)
  next
    case addr: (Some addr)
    from udp_sendto_eq [OF wp Some a [unfolded addr], of data len] r obtain src ps where
      "udp_output src foreign data len (s\<lparr>pcbs := ps\<rparr>) = Some (r, s')" by metis
    moreover have "wf_ip (s\<lparr>pcbs := ps\<rparr>)" using wi by (simp add: wf_ip_pcbs)
    ultimately have "queue_adds (\<lambda>t x. t = NETWORK_PROTOCOL_TYPE_IP \<longrightarrow> ip_lengths_ok x) (s\<lparr>pcbs := ps\<rparr>) s'"
      using udp_output_adds [OF _ len] by blast
    then show ?thesis by (rule queue_adds_from) simp
  qed
qed

lemma udp_calls_protocols:
  "protocols (snd (udp_open s)) = protocols s" "protocols (snd (udp_close ident s)) = protocols s"
  "protocols (snd (udp_bind ident local s)) = protocols s"
  "udp_recvfrom t ident buf sz foreign s = Some (r, s') \<Longrightarrow> protocols s' = protocols s"
  "udp_recvfrom_resume t k buf sz foreign s = Some (r, s') \<Longrightarrow> protocols s' = protocols s"
proof -
  have pop: "udp_recv_pop t k buf sz foreign s = Some (r, s') \<Longrightarrow> protocols s' = protocols s" for k and s :: "'a udp_state_scheme"
    by (auto simp: udp_recv_pop_def Let_def lqueue_pop_def sched_sleep_begin_def bind_eq_Some_conv split: list.splits if_splits)
  show "protocols (snd (udp_open s)) = protocols s"
    by (simp add: udp_open_def udp_pcb_alloc_def Let_def split: option.split)
  show "protocols (snd (udp_close ident s)) = protocols s"
    by (simp add: udp_close_def udp_pcb_release_def Let_def split: option.split)
  show "protocols (snd (udp_bind ident local s)) = protocols s"
    by (simp add: udp_bind_def split: option.split)
  show "protocols s' = protocols s" if "udp_recvfrom t ident buf sz foreign s = Some (r, s')"
    using that pop by (auto simp: udp_recvfrom_def split: option.splits)
  show "protocols s' = protocols s" if "udp_recvfrom_resume t k buf sz foreign s = Some (r, s')"
    using that by (auto simp: udp_recvfrom_resume_def Let_def split_beta udp_pcb_release_def dest: pop split: if_splits)
qed

text \<open>A socket call may add a packet to the queue of IP, and changes nothing else that the interrupt thread reads.\<close>

definition call_out :: "'a sock_state_scheme \<Rightarrow> 'a sock_state_scheme \<Rightarrow> bool" where
  "call_out s s' \<longleftrightarrow> net_ext s s' \<and> ip_protocols s' = ip_protocols s \<and>
     queue_adds (\<lambda>t x. t = NETWORK_PROTOCOL_TYPE_IP \<longrightarrow> ip_lengths_ok x) s s'"

lemma call_out_udp: "udp_out s s' \<Longrightarrow> protocols s' = protocols s \<Longrightarrow> call_out s s'"
  by (simp add: call_out_def udp_out_def queue_adds_same)

lemma call_out_socks:
  assumes "call_out (s\<lparr>socks := a\<rparr>) s'"
  shows "call_out s (s'\<lparr>socks := b\<rparr>)"
proof -
  have "wf_net (u\<lparr>socks := c\<rparr>) = wf_net u" "softirq_ok (u\<lparr>socks := c\<rparr>) = softirq_ok u" for u :: "'a sock_state_scheme" and c
    by (simp_all add: wf_net_def wf_ifaces_def softirq_ok_def)
  with assms show ?thesis by (simp add: call_out_def net_ext_def queue_adds_def)
qed

lemma wf_stack_call: "wf_stack s \<Longrightarrow> wf_sock s' \<Longrightarrow> call_out s s' \<Longrightarrow> wf_stack s'"
  unfolding call_out_def by (blast intro: wf_stack_ext)

lemma sock_open_call: "call_out s (snd (sock_open domain type protocol s))"
proof (cases rule: sock_open_cases [of domain type protocol s])
  case refused
  then show ?thesis by (simp add: call_out_udp)
next
  case (stream i so)
  have "call_out (s\<lparr>socks := socks s\<rparr>) s" by (simp add: call_out_udp)
  from call_out_socks [OF this] stream(5) show ?thesis by simp
next
  case (dgram i so s')
  let ?t = "s\<lparr>socks := (socks s)[i := so\<lparr>so_desc := so_desc (socks s ! i)\<rparr>]\<rparr>"
  have "call_out ?t s'"
    using call_out_udp [OF udp_open_out udp_calls_protocols(1), of ?t] dgram(6) by simp
  from call_out_socks [OF this] dgram(7) show ?thesis by simp
qed

lemma sock_close_call:
  assumes "wf_sock s"
  shows "call_out s (snd (sock_close ident s))"
proof -
  have wp: "wf_pcbs (pcbs s)" using assms by (simp add: wf_sock_def wf_udp_def)
  have "call_out (s\<lparr>socks := socks s\<rparr>) (snd (udp_close d s))" for d
    using call_out_udp [OF udp_close_out [OF wp] udp_calls_protocols(2)] by simp
  then have "call_out s ((snd (udp_close d s))\<lparr>socks := b\<rparr>)" for d b by (rule call_out_socks)
  moreover have "call_out s s" by (simp add: call_out_udp)
  ultimately show ?thesis by (auto simp: sock_close_def sock_free_def split_beta Let_def split: option.split)
qed

lemma sock_do_call:
  assumes wf: "wf_sock s" and en: "sock_enabled c s" and s': "sock_do c s = Some s'"
  shows "call_out s s'"
proof -
  have wp: "wf_pcbs (pcbs s)" and wu: "wf_udp s" using wf by (simp_all add: wf_sock_def wf_udp_def)
  have id: "call_out s s" by (simp add: call_out_udp)
  show ?thesis
  proof (cases c)
    case (Sock_Open domain type protocol)
    then show ?thesis using s' sock_open_call [of s domain type protocol] by simp
  next
    case (Sock_Close ident)
    then show ?thesis using s' sock_close_call [OF wf, of ident] by simp
  next
    case (Sock_Bind ident addr)
    then show ?thesis
      using s' id call_out_udp [OF udp_bind_out [OF wp] udp_calls_protocols(3)] by (auto simp: sock_bind_def split: option.splits)
  next
    case (Sock_Sendto ident buf addr)
    have "call_out s u" if "udp_sendto d buf (length buf) ep s = Some (r, u)" for d ep r u
      using udp_sendto_out [OF wu order_refl, of d buf ep] udp_sendto_adds [OF wu order_refl that] that
      by (auto simp: call_out_def udp_out_def)
    then show ?thesis using Sock_Sendto s' id by (auto simp: sock_sendto_def split: option.splits)
  next
    case (Sock_Recvfrom t ident buf addr)
    then have t: "\<forall>pcb \<in> set (pcbs s). t \<notin> pcb_threads pcb" using en by (simp add: list_all_iff)
    have "call_out s u" if "udp_recvfrom t d buf (length buf) (Some ep_none) s = Some (r, u)" for d r u
      using udp_recvfrom_out [OF wp t order_refl, of d buf "Some ep_none"] udp_calls_protocols(4) [OF that] that
      by (auto intro: call_out_udp)
    then show ?thesis using Sock_Recvfrom s' id by (auto simp: sock_recvfrom_def split: option.splits)
  next
    case (Sock_Resume t k buf addr)
    then have k: "k < length (pcbs s)" "t \<in> set (sc_ready (pcb_ctx (pcbs s ! k)))" using en by simp_all
    have "call_out s u" if "udp_recvfrom_resume t k buf (length buf) (Some ep_none) s = Some (r, u)" for r u
      using udp_recvfrom_resume_out [OF wp k order_refl, of buf "Some ep_none"] udp_calls_protocols(5) [OF that] that
      by (auto intro: call_out_udp)
    then show ?thesis using Sock_Resume s' by (auto simp: sock_recvfrom_resume_def)
  next
    case (Sock_Input data src dst iface)
    then have l: "length data \<le> MAX_IP_PAYLOAD_SIZE" using en by simp
    show ?thesis
      using Sock_Input s' udp_input_out [OF order_refl l, of src dst iface s] udp_input_protocols [OF order_refl l, of src dst iface s s']
      by (auto intro: call_out_udp)
  next
    case Sock_Event
    then show ?thesis using s' call_out_udp [OF event_handler_udp_out [of s]] by (auto simp: event_handler_udp_def)
  qed
qed

subsection \<open>Runs of the stack\<close>

text \<open>
  What can happen to a running stack: an application thread makes a socket call or wakes up in one, a frame
  arrives at a descriptor and the kernel raises the signal that was set for it, any signal is raised, and the
  interrupt thread handles a pending signal.
\<close>

datatype stack_cmd = Call sock_cmd | Arrive int bytes nat | Raise nat | Interrupt nat

fun stack_enabled :: "stack_cmd \<Rightarrow> 'a sock_state_scheme \<Rightarrow> bool" where
  "stack_enabled (Call c) s = sock_enabled c s"
| "stack_enabled (Arrive fd frame irq) s = frame_ok frame"
| "stack_enabled _ s = True"

fun stack_do :: "stack_cmd \<Rightarrow> 'a sock_state_scheme \<Rightarrow> 'a sock_state_scheme option" where
  "stack_do (Call c) s = sock_do c s"
| "stack_do (Arrive fd frame irq) s = Some (raise_signal irq (s\<lparr>rx := (rx s)(fd := rx s fd @ [frame])\<rparr>))"
| "stack_do (Raise sig) s = Some (raise_signal sig s)"
| "stack_do (Interrupt sig) s = intr_step sig s"

fun stack_run :: "stack_cmd list \<Rightarrow> 'a sock_state_scheme \<Rightarrow> 'a sock_state_scheme option" where
  "stack_run [] s = Some s"
| "stack_run (c # cs) s = (if stack_enabled c s then do { s \<leftarrow> stack_do c s; stack_run cs s } else stack_run cs s)"

lemma wf_stack_raise: "wf_stack s \<Longrightarrow> wf_stack (raise_signal sig s)"
  using wf_stack_pending [of s "pending s @ [sig]"] by (simp add: raise_signal_def)

lemma stack_do_wf:
  assumes wf: "wf_stack s" and en: "stack_enabled c s"
  shows "\<exists>s'. stack_do c s = Some s' \<and> wf_stack s'"
proof (cases c)
  case (Call sc)
  have ws: "wf_sock s" using wf by (simp add: wf_stack_def)
  have es: "sock_enabled sc s" using Call en by simp
  from sock_do_wf [OF ws es] obtain s' where "sock_do sc s = Some s'" "wf_sock s'" by blast
  with wf_stack_call [OF wf _ sock_do_call [OF ws es]] Call show ?thesis by simp
next
  case (Arrive fd frame irq)
  have "wf_stack (s\<lparr>rx := (rx s)(fd := rx s fd @ [frame])\<rparr>)"
    using wf en Arrive by (intro wf_stack_rx) (auto simp: wf_stack_def split: if_splits)
  with Arrive show ?thesis by (simp add: wf_stack_raise del: fun_upd_apply)
next
  case (Raise sig)
  with wf show ?thesis by (simp add: wf_stack_raise)
next
  case (Interrupt sig)
  with intr_step_stack [OF wf, of sig] show ?thesis by auto
qed

lemma stack_run_wf: "wf_stack s \<Longrightarrow> \<exists>s'. stack_run cs s = Some s' \<and> wf_stack s'"
proof (induction cs arbitrary: s)
  case (Cons c cs)
  then show ?case using stack_do_wf [of s c] by (cases "stack_enabled c s") auto
qed simp

end
