(* ===== verification/App.thy ===== *)
theory App
  imports Stack
begin

text \<open>
  The echo server \<^verbatim>\<open>apps/udp_app.c\<close> on top of the stack, with the configuration of \<^verbatim>\<open>params.h\<close>. The main
  thread is the number \<open>0\<close> of the model. What it does between two points where it can sleep is one step of
  \<open>app_step\<close>; \<open>app_pc\<close> says where it is.
\<close>

section \<open>Definitions\<close>

subsection \<open>Configuration\<close>

definition LOOPBACK_IP_ADDR :: string where "LOOPBACK_IP_ADDR = ''127.0.0.1''"
definition LOOPBACK_NETMASK :: string where "LOOPBACK_NETMASK = ''255.0.0.0''"
definition ETHER_TAP_NAME :: string where "ETHER_TAP_NAME = ''tap0''"
definition ETHER_TAP_HW_ADDR :: string where "ETHER_TAP_HW_ADDR = ''00:00:5e:00:53:01''"
definition ETHER_TAP_IP_ADDR :: string where "ETHER_TAP_IP_ADDR = ''192.0.2.2''"
definition ETHER_TAP_NETMASK :: string where "ETHER_TAP_NETMASK = ''255.255.255.0''"
definition DEFAULT_GATEWAY :: string where "DEFAULT_GATEWAY = ''192.0.2.1''"

definition IPPROTO_UDP :: int where "IPPROTO_UDP = 0"

lemmas app_consts = LOOPBACK_IP_ADDR_def LOOPBACK_NETMASK_def ETHER_TAP_NAME_def ETHER_TAP_HW_ADDR_def ETHER_TAP_IP_ADDR_def
  ETHER_TAP_NETMASK_def DEFAULT_GATEWAY_def IPPROTO_UDP_def

record app_state = sock_state +
  terminate :: int

definition on_signal :: "int \<Rightarrow> 'a app_state_scheme \<Rightarrow> 'a app_state_scheme" where
  "on_signal sig s = snd (network_interrupt (s\<lparr>terminate := 1\<rparr>))"

subsection \<open>Setup\<close>

definition app_setup :: "'a ip_state_scheme \<Rightarrow> (int \<times> 'a ip_state_scheme) option" where
  "app_setup s =
     (let (r, s) = network_init s
      in if r = -1 then Some (-1, s)
         else do {
           (dev, s) \<leftarrow> ether_tap_init ETHER_TAP_NAME (Some ETHER_TAP_HW_ADDR) s;
           (case dev of
              None \<Rightarrow> Some (-1, s)
            | Some dev \<Rightarrow>
                (case ip_allocate_interface ETHER_TAP_IP_ADDR ETHER_TAP_NETMASK s of
                   (None, s) \<Rightarrow> Some (-1, s)
                 | (Some iface, s) \<Rightarrow> do {
                     (r, s) \<leftarrow> ip_register_interface dev iface s;
                     if r = -1 then Some (-1, s)
                     else do {
                       (r, s) \<leftarrow> ip_set_default_gateway iface DEFAULT_GATEWAY s;
                       if r = -1 then Some (-1, s)
                       else do {
                         (r, s) \<leftarrow> network_run s;
                         Some (if r = -1 then -1 else 0, s)
                       }
                     }
                   }))
         })"

subsection \<open>Main program\<close>

text \<open>The arguments, of which the first is the name of the program; \<open>None\<close> is the exit with \<open>-1\<close>.\<close>

definition app_args :: "string list \<Rightarrow> sockaddr_in option" where
  "app_args argv =
     (let local = \<lparr>sin_family = of_int AF_INET, sin_port = 0, sin_addr = 0\<rparr>;
          argc = length argv
      in if argc \<noteq> 2 \<and> argc \<noteq> 3 then None
         else
           (let (r, addr) = (if argc = 3 then ip_string_to_address (argv ! 1) (sin_addr local) else (0, sin_addr local))
            in if r = -1 then None
               else
                 (let port = fst (strtol 10 (argv ! (argc - 1)))
                  in if port < 0 \<or> port > 65535 then None
                     else Some (local\<lparr>sin_addr := addr, sin_port := hton16 (of_int port)\<rparr>))))"

record app_vars =
  av_soc :: int
  av_buf :: bytes
  av_foreign :: sockaddr_in

datatype app_pc = App_Loop | App_Asleep nat | App_Done int

text \<open>After the loop.\<close>

definition app_exit :: "app_vars \<Rightarrow> 'a app_state_scheme \<Rightarrow> (app_vars \<times> app_pc \<times> 'a app_state_scheme) option" where
  "app_exit v s = do {
     let (_, s) = udp_close (av_soc v) s;
     s \<leftarrow> network_shutdown s;
     Some (v, App_Done 0, s)
   }"

text \<open>The rest of the loop body, when \<^verbatim>\<open>sock_recvfrom\<close> has returned.\<close>

definition app_received :: "int \<Rightarrow> app_vars \<Rightarrow> 'a app_state_scheme \<Rightarrow> (app_vars \<times> app_pc \<times> 'a app_state_scheme) option" where
  "app_received ret v s =
     (if ret = -1
      then if errno s = EINTR then Some (v, App_Loop, s) else app_exit v s
      else do {
        (r, s) \<leftarrow> sock_sendto (av_soc v) (av_buf v) (nat ret) (av_foreign v) s;
        if r = -1 then app_exit v s else Some (v, App_Loop, s)
      })"

text \<open>\<open>ep\<close> is the uninitialised local variable of \<^verbatim>\<open>sock_recvfrom\<close>.\<close>

fun app_back :: "app_vars \<Rightarrow> sock_recv \<Rightarrow> 'a app_state_scheme \<Rightarrow> (app_vars \<times> app_pc \<times> 'a app_state_scheme) option" where
  "app_back v (Sock_Returned ret buf foreign) s = app_received ret (v\<lparr>av_buf := buf, av_foreign := foreign\<rparr>) s"
| "app_back v Sock_Asleep s = Some (v, App_Asleep (nat (so_desc (socks s ! nat (av_soc v)))), s)"

fun app_step :: "IP_ENDPOINT \<Rightarrow> app_vars \<times> app_pc \<Rightarrow> 'a app_state_scheme \<Rightarrow> (app_vars \<times> app_pc \<times> 'a app_state_scheme) option" where
  "app_step ep (v, App_Loop) s =
     (if terminate s \<noteq> 0 then app_exit v s
      else do { (r, s) \<leftarrow> sock_recvfrom 0 (av_soc v) (av_buf v) 1024 ep (av_foreign v) s; app_back v r s })"
| "app_step ep (v, App_Asleep k) s =
     (if 0 \<in> set (sc_ready (pcb_ctx (pcbs s ! k)))
      then do { (r, s) \<leftarrow> sock_recvfrom_resume 0 k (av_buf v) 1024 ep (av_foreign v) s; app_back v r s }
      else Some (v, App_Asleep k, s))"
| "app_step ep (v, App_Done r) s = Some (v, App_Done r, s)"

text \<open>The program up to its loop; \<open>buf\<close> and \<open>foreign\<close> are the uninitialised variables.\<close>

definition app_start ::
  "string list \<Rightarrow> bytes \<Rightarrow> sockaddr_in \<Rightarrow> 'a app_state_scheme \<Rightarrow> (app_vars \<times> app_pc \<times> 'a app_state_scheme) option" where
  "app_start argv buf foreign s =
     (let v = \<lparr>av_soc = -1, av_buf = buf, av_foreign = foreign\<rparr>
      in case app_args argv of
        None \<Rightarrow> Some (v, App_Done (-1), s)
      | Some local \<Rightarrow> do {
          (r, s) \<leftarrow> app_setup s;
          if r = -1 then Some (v, App_Done (-1), s)
          else
            (let (soc, s) = sock_open AF_INET SOCK_DGRAM IPPROTO_UDP s; v = v\<lparr>av_soc := soc\<rparr>
             in if soc = -1 then Some (v, App_Done (-1), s)
                else
                  (let (r, s) = sock_bind soc local s
                   in if r = -1 then Some (v, App_Done (-1), s) else Some (v, App_Loop, s)))
        })"

section \<open>Start of the program\<close>

text \<open>
  The state in which the program starts: the static variables are as initialised, the operating system
  is unknown.
\<close>

definition boot ::
  "(nat \<Rightarrow> bool) \<Rightarrow> (nat \<Rightarrow> timeval) \<Rightarrow> (nat \<Rightarrow> int) \<Rightarrow> (nat \<Rightarrow> int) \<Rightarrow> (nat \<Rightarrow> bytes) \<Rightarrow> (sched_ctx \<Rightarrow> int) \<Rightarrow> app_state" where
  "boot mok clk ret err data cd =
     \<lparr>mem_ok = mok, mem_n = 0, clock = clk, clock_n = 0, sys_ret = ret, sys_errno = err, sys_data = data, sys_n = 0,
      errno = 0, requests = [], wire = [], rx = (\<lambda>_. []), pending = [], sigmask = [], irq_vec = [], dev_heap = Map.empty,
      if_heap = Map.empty, devices = [], next_index = 0, protocols = [], timers = [], events = [],
      caches = replicate 32 arp_free, ip_ifaces = [], ip_protocols = [], ip_routes = [], ip_id = 128,
      pcbs = replicate 16 zero_pcb, cond_destroy = cd, socks = replicate 128 zero_sock, terminate = 0\<rparr>"

lemma ip_texts:
  "ip_string_to_address ETHER_TAP_IP_ADDR 0 = (0, 0x020200c0)" "ip_string_to_address ETHER_TAP_NETMASK 0 = (0, 0x00ffffff)"
  "ip_string_to_address DEFAULT_GATEWAY 0 = (0, 0x010200c0)"
  by code_simp+

lemma hw_text: "ether_addr_pton (Some ETHER_TAP_HW_ADDR) (Some (replicate 16 0)) = (0, Some ([0, 0, 0x5e, 0, 0x53, 1] @ replicate 10 0))"
  by code_simp

abbreviation proto_entry :: "string \<Rightarrow> u16 \<Rightarrow> proto_handler \<Rightarrow> network_protocol" where
  "proto_entry name type h \<equiv> \<lparr>np_name = name, np_type = type, np_queue = lqueue_init, np_handler = h\<rparr>"

lemma network_init_fresh:
  assumes "\<forall>n. mem_ok s n" "protocols s = []" "ip_protocols s = []"
  shows "network_init s = (0, s\<lparr>mem_n := mem_n s + 6, clock_n := Suc (clock_n s), sigmask := [10, 12, 14],
    protocols := [proto_entry ''IP'' 0x800 ip_input_handler, proto_entry ''ARP'' 0x806 arp_input_handler],
    timers := \<lparr>nt_name = ''ARP Timer'', nt_interval = Timeval 1 0, nt_last = clock s (clock_n s), nt_handler = arp_timer_handler\<rparr> # timers s,
    events := \<lparr>ne_handler = udp_event_handler, ne_arg = None\<rparr> # events s,
    ip_protocols := [\<lparr>ipp_name = ''UDP'', ipp_type = 0x11, ipp_handler = udp_input_handler\<rparr>,
      \<lparr>ipp_name = ''ICMP'', ipp_type = 0x01, ipp_handler = icmp_input_handler\<rparr>]\<rparr>)"
  using assms
  by (simp add: network_init_def intr_init_def sigaddset_def SIGUSR1_def SIGUSR2_def SIGALRM_def arp_init_def network_protocol_register_def
      memory_alloc_def network_timer_register_def gettimeofday_def ip_initialize_def icmp_init_def udp_init_def ip_register_protocol_def
      network_event_subscribe_def strncpy16_def NETWORK_PROTOCOL_TYPE_ARP_def NETWORK_PROTOCOL_TYPE_IP_def ICMP_PROTOCOL_def UDP_PROTOCOL_def
      Let_def)

definition tap_device :: "u32 \<Rightarrow> int \<Rightarrow> nat list \<Rightarrow> network_device" where
  "tap_device k fd is = (ether_setup_helper zero_device)\<lparr>dev_interfaces := is, dev_index := k,
     dev_name := snprintf IFNAMSIZ (''net'' @ show_int (sint k)), dev_address := [0, 0, 0x5e, 0, 0x53, 1] @ replicate 10 0,
     dev_ops := Some ether_tap_ops, dev_priv := Some \<lparr>pv_name = ''tap0'', pv_fd = fd, pv_irq = 36\<rparr>\<rparr>"

lemma zero_device_address: "dev_address zero_device = replicate 16 0"
  by (simp add: zero_device_def)

lemma ether_tap_init_fresh:
  assumes "\<forall>n. mem_ok s n" "irq_vec s = []" "36 \<notin> set (sigmask s)"
  shows "ether_tap_init ETHER_TAP_NAME (Some ETHER_TAP_HW_ADDR) s = Some (Some (mem_n s),
    s\<lparr>mem_n := Suc (Suc (Suc (mem_n s))), dev_heap := (dev_heap s)(mem_n s \<mapsto> tap_device (next_index s) (-1) []), devices := mem_n s # devices s,
      next_index := next_index s + 1,
      irq_vec := [\<lparr>ie_irq = 36, ie_handler = ether_tap_isr_handler, ie_flags = 1,
        ie_name = take 15 (dev_name (tap_device (next_index s) (-1) [])), ie_dev = mem_n s\<rparr>],
      sigmask := sigmask s @ [36]\<rparr>)"
  using assms
  by (simp add: ether_tap_init_def network_device_allocate_def memory_alloc_def Let_def zero_device_address hw_text
      network_device_register_def intr_request_irq_def strncpy16_def ETHER_TAP_NAME_def ETHER_TAP_IRQ_def NETWORK_IRQ_SHARED_def
      sigaddset_def tap_device_def) (simp add: ether_setup_helper_def zero_device_def)

definition tap_iface :: "nat \<Rightarrow> IP_INTERFACE" where
  "tap_iface dev = \<lparr>ni_dev = Some dev, ni_family = 1, if_unicast = 0x020200c0, if_netmask = 0x00ffffff, if_broadcast = (0x020200c0 AND 0x00ffffff) OR NOT 0x00ffffff\<rparr>"

lemma ip_allocate_fresh:
  "\<forall>n. mem_ok s n \<Longrightarrow> ip_allocate_interface ETHER_TAP_IP_ADDR ETHER_TAP_NETMASK s =
     (Some (mem_n s), s\<lparr>mem_n := Suc (mem_n s), if_heap := (if_heap s)(mem_n s \<mapsto> (tap_iface 0)\<lparr>ni_dev := None\<rparr>)\<rparr>)"
  by (simp add: ip_allocate_interface_def memory_alloc_def ip_texts tap_iface_def NETWORK_INTERFACE_FAMILY_IP_def)

lemma ip_register_fresh:
  assumes "\<forall>n. mem_ok s n" "dev_heap s dev = Some (tap_device k fd [])" "if_heap s ifp = Some ((tap_iface 0)\<lparr>ni_dev := None\<rparr>)"
  shows "ip_register_interface dev ifp s = Some (0, s\<lparr>mem_n := Suc (mem_n s),
    if_heap := (if_heap s)(ifp \<mapsto> tap_iface dev), dev_heap := (dev_heap s)(dev \<mapsto> tap_device k fd [ifp]),
    ip_routes := \<lparr>rt_network = 0x000200c0, rt_netmask = 0x00ffffff, rt_nexthop = 0, rt_iface = ifp\<rparr> # ip_routes s,
    ip_ifaces := ifp # ip_ifaces s\<rparr>)"
  using assms by (cases s) (simp add: ip_register_interface_def network_device_add_interface_def tap_device_def tap_iface_def ip_route_add_def
      memory_alloc_def IP_ADDR_ANY_def Let_def ether_setup_helper_def zero_device_def)

lemma ip_gateway_fresh:
  assumes "\<forall>n. mem_ok s n" "dev_heap s dev = Some d" "if_heap s ifp = Some (tap_iface dev)"
  shows "ip_set_default_gateway ifp DEFAULT_GATEWAY s = Some (0, s\<lparr>mem_n := Suc (mem_n s),
    ip_routes := \<lparr>rt_network = 0, rt_netmask = 0, rt_nexthop = 0x010200c0, rt_iface = ifp\<rparr> # ip_routes s\<rparr>)"
  using assms by (simp add: ip_set_default_gateway_def ip_texts ip_route_add_def memory_alloc_def tap_iface_def IP_ADDR_ANY_def Let_def)

lemma network_run_fresh:
  assumes "devices s = [dev]" "dev_heap s dev = Some (tap_device k (-1) ifs)" "sys_ret s (sys_n s) = 0" "sys_ret s (Suc (sys_n s)) = 0"
    "\<forall>n. sys_ret s n \<noteq> -1"
  shows "network_run s = Some (0, s\<lparr>sys_n := Suc (Suc (Suc (Suc (Suc (Suc (Suc (sys_n s))))))),
    requests := (sys_ret s (sys_n s + 2), F_SETSIG 36) # (sys_ret s (sys_n s + 2), F_SETFL_ASYNC) # (sys_ret s (sys_n s + 2), F_SETOWN_SELF) #
      (sys_ret s (sys_n s + 2), TUNSETIFF ''tap0'') # requests s,
    dev_heap := (dev_heap s)(dev \<mapsto> (tap_device k (sys_ret s (sys_n s + 2)) ifs)\<lparr>dev_flags := 0x121\<rparr>)\<rparr>)"
  using assms
  by (cases s) (simp add: network_run_def intr_run_def syscall_def Let_def network_device_open_def tap_device_def NETWORK_DEVICE_IS_UP_def ops_open_def ether_tap_open_def
      device_priv_def set_priv_fd_def set_flags_def mem_read_def ETHER_ADDR_LEN_def ETHER_ADDR_ANY_def strncpy16_def ether_setup_helper_def
      ether_consts zero_device_def NETWORK_DEVICE_FLAG_UP_def NETWORK_DEVICE_FLAG_BROADCAST_def NETWORK_DEVICE_FLAG_NEED_ARP_def)

text \<open>The state of the running program.\<close>

definition booted ::
  "(nat \<Rightarrow> bool) \<Rightarrow> (nat \<Rightarrow> timeval) \<Rightarrow> (nat \<Rightarrow> int) \<Rightarrow> (nat \<Rightarrow> int) \<Rightarrow> (nat \<Rightarrow> bytes) \<Rightarrow> (sched_ctx \<Rightarrow> int) \<Rightarrow> app_state" where
  "booted mok clk ret err data cd =
     (boot mok clk ret err data cd)\<lparr>mem_n := 12, clock_n := 1, sys_n := 7,
      requests := [(ret 2, F_SETSIG 36), (ret 2, F_SETFL_ASYNC), (ret 2, F_SETOWN_SELF), (ret 2, TUNSETIFF ''tap0'')],
      sigmask := [10, 12, 14, 36],
      irq_vec := [\<lparr>ie_irq = 36, ie_handler = ether_tap_isr_handler, ie_flags = 1, ie_name = take 15 (dev_name (tap_device 0 (-1) [])), ie_dev = 6\<rparr>],
      dev_heap := [6 \<mapsto> (tap_device 0 (ret 2) [9])\<lparr>dev_flags := 0x121\<rparr>], if_heap := [9 \<mapsto> tap_iface 6], devices := [6], next_index := 1,
      protocols := [proto_entry ''IP'' 0x800 ip_input_handler, proto_entry ''ARP'' 0x806 arp_input_handler],
      timers := [\<lparr>nt_name = ''ARP Timer'', nt_interval = Timeval 1 0, nt_last = clk 0, nt_handler = arp_timer_handler\<rparr>],
      events := [\<lparr>ne_handler = udp_event_handler, ne_arg = None\<rparr>],
      ip_ifaces := [9],
      ip_protocols := [\<lparr>ipp_name = ''UDP'', ipp_type = 0x11, ipp_handler = udp_input_handler\<rparr>,
        \<lparr>ipp_name = ''ICMP'', ipp_type = 0x01, ipp_handler = icmp_input_handler\<rparr>],
      ip_routes := [\<lparr>rt_network = 0, rt_netmask = 0, rt_nexthop = 0x010200c0, rt_iface = 9\<rparr>,
        \<lparr>rt_network = 0x000200c0, rt_netmask = 0x00ffffff, rt_nexthop = 0, rt_iface = 9\<rparr>]\<rparr>"

lemma app_setup_boot:
  assumes "\<forall>n. mok n" "ret 0 = 0" "ret 1 = 0" "\<forall>n. ret n \<noteq> -1"
  shows "app_setup (boot mok clk ret err data cd) = Some (0, booted mok clk ret err data cd)"
  using assms
  by (simp add: app_setup_def boot_def network_init_fresh ether_tap_init_fresh ip_allocate_fresh
      ip_register_fresh [where k = 0 and fd = "-1"] ip_gateway_fresh [where dev = 6 and d = "tap_device 0 (-1) [9]"]
      network_run_fresh [where dev = 6 and k = 0 and ifs = "[9]"] booted_def) (simp add: numeral_2_eq_2)

lemma booted_ok:
  assumes "\<forall>n. ret n \<noteq> -1"
  shows "wf_stack (booted mok clk ret err data cd)"
proof -
  let ?s = "booted mok clk ret err data cd"
  have "wf_net ?s"
    by (simp add: booted_def boot_def wf_net_def wf_ifaces_def wf_device_def tap_device_def tap_iface_def zero_device_def wf_queue_def
      NETWORK_DEVICE_ADDR_LEN_def lqueue_init_def ether_setup_helper_def ether_consts)
  moreover have "wf_caches (caches ?s)"
    by (simp add: booted_def boot_def wf_caches_def ARP_CACHE_SIZE_def arp_free_def ETHER_ADDR_LEN_def arp_used_def)
  moreover have "wf_pcbs (pcbs ?s)" "wf_socks (pcbs ?s) (socks ?s)"
    using wf_pcbs_zero wf_socks_zero by (simp_all add: booted_def boot_def)
  moreover have "iface_ready ?s 9"
    by (simp add: iface_ready_def booted_def tap_iface_def NETWORK_INTERFACE_FAMILY_IP_def)
  ultimately have "wf_sock ?s"
    by (simp add: wf_sock_def wf_udp_def wf_ip_def wf_arp_def) (simp add: booted_def)
  moreover have "softirq_ok ?s" "packets_ok ?s" by (simp_all add: booted_def softirq_ok_def packets_ok_def lqueue_init_def)
  moreover have "registered_ok ?s"
    by (simp add: booted_def registered_ok_def transport_ok_def ICMP_PROTOCOL_def NETWORK_PROTOCOL_TYPE_IP_def NETWORK_PROTOCOL_TYPE_ARP_def)
  moreover have "irqs_ok ?s" by (simp add: booted_def irqs_ok_def tap_device_def)
  ultimately show ?thesis using assms by (simp add: wf_stack_def) (simp add: booted_def boot_def)
qed

section \<open>Lemmas\<close>

text \<open>Only the first \<open>len\<close> bytes of the data matter.\<close>

lemma udp_sendto_take:
  assumes "len \<le> length data"
  shows "udp_sendto d (take len data) len f s = udp_sendto d data len f s"
proof -
  have "mem_read (take len data) 0 len = mem_read data 0 len" using assms by (simp add: mem_read_def)
  then have "udp_output src dst (take len data) len u = udp_output src dst data len u" for src dst and u :: "'a udp_state_scheme"
    by (simp only: udp_output_def)
  then show ?thesis by (simp only: udp_sendto_def)
qed

lemma sock_dgram_open:
  assumes wf: "wf_sock s" and d: "sock_dgram ident s = Some (int k)"
  shows "udp_pcb_get (int k) s = Some k" "k < length (pcbs s)" "pcb_state (pcbs s ! k) = UDP_PCB_STATE_OPEN"
proof -
  note len = wf_sock_lengths [OF wf]
  from d obtain i where i: "i < 128" "so_type (socks s ! i) = SOCK_DGRAM" "so_desc (socks s ! i) = int k"
    by (auto simp: sock_dgram_def sock_get_def MAX_SOCKS_def not_le split: option.splits if_splits)
  with wf len have "pcb_open (pcbs s) k" by (auto simp: wf_sock_def wf_socks_def)
  then show "k < length (pcbs s)" "pcb_state (pcbs s ! k) = UDP_PCB_STATE_OPEN" by (simp_all add: pcb_open_def)
  then show "udp_pcb_get (int k) s = Some k" using len by (simp add: udp_pcb_get_def UDP_PCB_SIZE_def)
qed

lemma find_slot_zero: "P z \<Longrightarrow> 0 < n \<Longrightarrow> find_slot P (replicate n z) = Some 0"
  by (cases n) simp_all

text \<open>The first socket of a program.\<close>

definition first_pcb :: udp_pcb where
  "first_pcb = zero_pcb\<lparr>pcb_state := UDP_PCB_STATE_OPEN, pcb_ctx := snd (sched_ctx_init (pcb_ctx zero_pcb))\<rparr>"

lemma sock_open_first:
  assumes "socks s = replicate 128 zero_sock" "pcbs s = replicate 16 zero_pcb"
  shows "sock_open AF_INET SOCK_DGRAM IPPROTO_UDP s =
    (0, s\<lparr>pcbs := (replicate 16 zero_pcb)[0 := first_pcb],
        socks := (replicate 128 zero_sock)[0 := \<lparr>so_used = 1, so_family = 2, so_type = 2, so_desc = 0\<rparr>]\<rparr>)"
proof -
  have "pcb_state zero_pcb = UDP_PCB_STATE_FREE" by (simp add: zero_pcb_def)
  with assms show ?thesis
    by (simp add: sock_open_def sock_alloc_def udp_open_def udp_pcb_alloc_def udp_pcb_id_def find_slot_zero first_pcb_def
        IPPROTO_UDP_def sock_consts Let_def)
qed

lemma sock_bind_first:
  assumes "socks s = (replicate 128 zero_sock)[0 := \<lparr>so_used = 1, so_family = 2, so_type = 2, so_desc = 0\<rparr>]"
    "pcbs s = (replicate 16 zero_pcb)[0 := first_pcb]"
  shows "sock_bind 0 addr s =
    (if sin_port addr = 0 then (-1, s)
     else (0, s\<lparr>pcbs := (replicate 16 zero_pcb)[0 := first_pcb\<lparr>pcb_local := \<lparr>ep_address = sin_addr addr, ep_port = sin_port addr\<rparr>\<rparr>]\<rparr>))"
proof -
  have first: "pcb_state first_pcb = UDP_PCB_STATE_OPEN" "pcb_local first_pcb = \<lparr>ep_address = 0, ep_port = 0\<rparr>"
    by (simp_all add: first_pcb_def zero_pcb_def IP_ADDR_ANY_def)
  have "sock_dgram 0 s = Some 0" using assms(1) by (simp add: sock_dgram_def sock_get_def sock_consts)
  moreover have "udp_pcb_get 0 s = Some 0" using assms(2) first by (simp add: udp_pcb_get_def UDP_PCB_SIZE_def)
  moreover have "udp_pcb_select (sin_addr addr) 0 (pcbs s) = Some 0"
    unfolding udp_pcb_select_def by (rule find_slotI) (use assms(2) first in \<open>simp_all add: IP_ADDR_ANY_def\<close>)
  moreover have "udp_pcb_select (sin_addr addr) (sin_port addr) (pcbs s) = None" if "sin_port addr \<noteq> 0"
    using that assms(2) first
    by (auto simp: udp_pcb_select_def find_slot_None zero_pcb_def dest!: set_update_subset_insert [THEN subsetD])
  ultimately show ?thesis using assms(2) by (auto simp: sock_bind_def udp_bind_def)
qed

lemma app_args_text:
  assumes "p \<le> 65535"
  shows "app_args [nm, ip_address_text a, show_dec p] = Some \<lparr>sin_family = 2, sin_port = hton16 (of_nat p), sin_addr = a\<rparr>"
proof -
  have "strtol 10 (show_dec p) = (int p, [])" using strtol_show_dec [of "[]" p] assms by (simp add: starts_digit_def LONG_MAX_def)
  then show ?thesis using assms by (simp add: app_args_def ip_string_to_address_text AF_INET_def Let_def)
qed

section \<open>Properties\<close>

text \<open>
  C5. When every allocation and every system call succeeds, \<open>setup\<close> brings the stack from the state in which the
  program starts to one that satisfies the invariant of the whole stack: the tap device is up with the configured
  address, its interrupt is registered and in the set of the interrupt thread, ARP and IP, ICMP and UDP are
  registered, and every destination has a route, directly in the network of the interface and through the
  gateway otherwise.
\<close>

theorem app_setup_ready:
  assumes "\<forall>n. mok n" "ret 0 = 0" "ret 1 = 0" "\<forall>n. ret n \<noteq> -1"
  shows "\<exists>s' dev d. app_setup (boot mok clk ret err data cd) = Some (0, s') \<and> wf_stack s' \<and>
    devices s' = [dev] \<and> dev_heap s' dev = Some d \<and> NETWORK_DEVICE_IS_UP d \<and> take 6 (dev_address d) = [0, 0, 0x5e, 0, 0x53, 1] \<and>
    map (\<lambda>e. (ie_irq e, ie_dev e)) (irq_vec s') = [(36, dev)] \<and> set (sigmask s') = {SIGUSR1, SIGUSR2, SIGALRM, 36} \<and>
    map_option snd (protocol_of 0x800 s') = Some ip_input_handler \<and> map_option snd (protocol_of 0x806 s') = Some arp_input_handler \<and>
    map_option snd (ip_protocol_of 1 s') = Some icmp_input_handler \<and> map_option snd (ip_protocol_of 17 s') = Some udp_input_handler \<and>
    (\<forall>dst. \<exists>route i. ip_route_lookup dst (ip_routes s') = Some route \<and> if_heap s' (rt_iface route) = Some i \<and> ni_dev i = Some dev \<and>
       if_unicast i = 0x020200c0 \<and> rt_nexthop route = (if dst AND 0xffffff = 0x200c0 then 0 else 0x010200c0))"
proof -
  let ?s = "booted mok clk ret err data cd"
  have "app_setup (boot mok clk ret err data cd) = Some (0, ?s)" using app_setup_boot [OF assms] .
  moreover have "wf_stack ?s" using booted_ok [OF assms(4)] .
  moreover have "ntoh32 0 < ntoh32 0xffffff" by code_simp
  then have "ip_route_lookup dst (ip_routes ?s) = Some (if dst AND 0xffffff = 0x200c0 then ip_routes ?s ! 1 else ip_routes ?s ! 0)" for dst
    by (simp add: booted_def ip_route_lookup_def)
  ultimately show ?thesis
    by (intro exI [of _ ?s] exI [of _ 6] exI [of _ "(tap_device 0 (ret 2) [9])\<lparr>dev_flags := 0x121\<rparr>"])
      (simp add: booted_def NETWORK_DEVICE_IS_UP_def tap_device_def tap_iface_def protocol_of_def ip_protocol_of_def
        SIGUSR1_def SIGUSR2_def SIGALRM_def NETWORK_DEVICE_FLAG_UP_def)
qed

theorem app_setup_ready_witness:
  "\<exists>s'. app_setup (boot (\<lambda>_. True) (\<lambda>_. Timeval 0 0) (\<lambda>_. 0) (\<lambda>_. 0) (\<lambda>_. []) (\<lambda>_. 0)) = Some (0, s') \<and> wf_stack s'"
  using app_setup_ready [of "\<lambda>_. True" "\<lambda>_. 0" "\<lambda>_. Timeval 0 0" "\<lambda>_. 0" "\<lambda>_. []" "\<lambda>_. 0"] by auto

text \<open>
  C6. The program with an address and a port as arguments comes up, when every allocation and system call succeeds: the
  arguments are read as they were printed, the stack is set up and satisfies its invariant, and the first socket is open and bound to
  that endpoint when the loop is entered. Port 0 is the exception: the fresh control block itself counts as bound to it, the
  call of \<open>sock_bind\<close> fails and the program exits.
\<close>

theorem udp_app_starts:
  assumes "\<forall>n. mok n" "ret 0 = 0" "ret 1 = 0" "\<forall>n. ret n \<noteq> -1" "p \<le> 65535"
  shows "\<exists>v s'. app_start [nm, ip_address_text a, show_dec p] buf foreign (boot mok clk ret err data cd) =
      Some (v, if p = 0 then App_Done (-1) else App_Loop, s') \<and> wf_stack s' \<and> av_soc v = 0 \<and> sock_dgram 0 s' = Some 0 \<and>
    pcb_state (pcbs s' ! 0) = UDP_PCB_STATE_OPEN \<and> pcb_local (pcbs s' ! 0) =
      (if p = 0 then \<lparr>ep_address = 0, ep_port = 0\<rparr> else \<lparr>ep_address = a, ep_port = hton16 (of_nat p)\<rparr>)"
proof -
  define s where "s = booted mok clk ret err data cd"
  let ?addr = "\<lparr>sin_family = 2, sin_port = hton16 (of_nat p), sin_addr = a\<rparr>"
  have ws: "wf_stack s" using booted_ok [OF assms(4)] by (simp add: s_def)
  have "socks s = replicate 128 zero_sock" "pcbs s = replicate 16 zero_pcb" by (simp_all add: s_def booted_def boot_def)
  note op = sock_open_first [OF this]
  define t where "t = snd (sock_open AF_INET SOCK_DGRAM IPPROTO_UDP s)"
  have t: "socks t = (replicate 128 zero_sock)[0 := \<lparr>so_used = 1, so_family = 2, so_type = 2, so_desc = 0\<rparr>]"
    "pcbs t = (replicate 16 zero_pcb)[0 := first_pcb]" unfolding t_def op by simp_all
  have wt: "wf_stack t" using stack_do_wf [OF ws, of "Call (Sock_Open AF_INET SOCK_DGRAM IPPROTO_UDP)"] by (simp add: t_def)
  note bd = sock_bind_first [OF t, of ?addr]
  define u where "u = snd (sock_bind 0 ?addr t)"
  have wu: "wf_stack u" using stack_do_wf [OF wt, of "Call (Sock_Bind 0 ?addr)"] by (simp add: u_def)
  have "hton16 (of_nat p) = 0 \<longleftrightarrow> p = 0"
  proof -
    have "hton16 0 = 0" by code_simp
    then have "hton16 (of_nat p) = 0 \<longleftrightarrow> (of_nat p :: u16) = 0" using hton16_inj [of "of_nat p" 0] by simp
    then show ?thesis using assms(5) by (simp add: word_unat_eq_iff unsigned_of_nat take_bit_eq_mod)
  qed
  then have b: "sock_bind 0 ?addr t = (if p = 0 then -1 else 0, u)" "socks u = socks t"
    "pcbs u = (replicate 16 zero_pcb)[0 := if p = 0 then first_pcb else first_pcb\<lparr>pcb_local := \<lparr>ep_address = a, ep_port = hton16 (of_nat p)\<rparr>\<rparr>]"
    using t unfolding u_def bd by auto
  have "app_setup (boot mok clk ret err data cd) = Some (0, s)" unfolding s_def by (rule app_setup_boot [OF assms(1-4)])
  moreover have "sock_open AF_INET SOCK_DGRAM IPPROTO_UDP s = (0, t)" unfolding t_def op by simp
  ultimately have "app_start [nm, ip_address_text a, show_dec p] buf foreign (boot mok clk ret err data cd) =
      Some (\<lparr>av_soc = 0, av_buf = buf, av_foreign = foreign\<rparr>, if p = 0 then App_Done (-1) else App_Loop, u)"
    using b(1) by (simp add: app_start_def app_args_text [OF assms(5)])
  moreover have "sock_dgram 0 u = Some 0" using b(2) t(1) by (simp add: sock_dgram_def sock_get_def sock_consts)
  ultimately show ?thesis using wu b(3) by (auto simp: first_pcb_def zero_pcb_def IP_ADDR_ANY_def)
qed

theorem udp_app_starts_witness:
  "\<exists>v s'. app_start [''udp_app'', ip_address_text 0x020200c0, ''7''] (replicate 1024 0) \<lparr>sin_family = 0, sin_port = 0, sin_addr = 0\<rparr>
      (boot (\<lambda>_. True) (\<lambda>_. Timeval 0 0) (\<lambda>_. 0) (\<lambda>_. 0) (\<lambda>_. []) (\<lambda>_. 0)) = Some (v, App_Loop, s') \<and>
    pcb_local (pcbs s' ! 0) = \<lparr>ep_address = 0x020200c0, ep_port = 0x0700\<rparr>"
proof -
  have "show_dec 7 = ''7''" "hton16 7 = 0x0700" by code_simp+
  then show ?thesis
    using udp_app_starts [of "\<lambda>_. True" "\<lambda>_. 0" 7 "''udp_app''" "0x020200c0" "replicate 1024 0" "\<lparr>sin_family = 0, sin_port = 0, sin_addr = 0\<rparr>"
        "\<lambda>_. Timeval 0 0" "\<lambda>_. 0" "\<lambda>_. []" "\<lambda>_. 0"] by auto
qed


text \<open>The booted program with its socket open and bound to port 7, with datagrams and sleepers as given.\<close>

definition serving_pcb :: "udp_queue_entry list \<Rightarrow> nat list \<Rightarrow> udp_pcb" where
  "serving_pcb q ts = \<lparr>pcb_state = UDP_PCB_STATE_OPEN, pcb_local = \<lparr>ep_address = 0, ep_port = hton16 7\<rparr>,
     pcb_queue = \<lparr>q_items = q, q_num = of_nat (length q)\<rparr>,
     pcb_ctx = \<lparr>sc_wait = ts, sc_ready = [], sc_interrupted = 0, sc_wc = int (length ts)\<rparr>\<rparr>"

definition serving :: "udp_queue_entry list \<Rightarrow> nat list \<Rightarrow> app_state" where
  "serving q ts = (booted (\<lambda>_. True) (\<lambda>_. Timeval 0 0) (\<lambda>_. 0) (\<lambda>_. 0) (\<lambda>_. []) (\<lambda>_. 0))
     \<lparr>pcbs := (replicate 16 zero_pcb)[0 := serving_pcb q ts],
      socks := (replicate 128 zero_sock)[0 := \<lparr>so_used = 1, so_family = 2, so_type = 2, so_desc = 0\<rparr>]\<rparr>"

lemma serving_tables:
  "pcbs (serving q ts) = (replicate 16 zero_pcb)[0 := serving_pcb q ts]"
  "socks (serving q ts) = (replicate 128 zero_sock)[0 := \<lparr>so_used = 1, so_family = 2, so_type = 2, so_desc = 0\<rparr>]"
  "terminate (serving q ts) = 0" "sigmask (serving q ts) = [10, 12, 14, 36]" "events (serving q ts) = [\<lparr>ne_handler = udp_event_handler, ne_arg = None\<rparr>]"
  by (simp_all add: serving_def) (simp_all add: booted_def boot_def)

lemma serving_ok:
  assumes "\<forall>e \<in> set q. unat (uq_len e) = length (uq_data e)" "distinct ts"
  shows "wf_stack (serving q ts)"
proof -
  let ?b = "booted (\<lambda>_. True) (\<lambda>_. Timeval 0 0) (\<lambda>_. 0) (\<lambda>_. 0) (\<lambda>_. []) (\<lambda>_. 0)"
  let ?s = "serving q ts"
  have b: "wf_stack ?b" by (rule booted_ok) simp
  have wp: "wf_pcbs ((replicate 16 zero_pcb)[0 := serving_pcb q ts])"
    by (rule wf_pcbs_update [OF wf_pcbs_zero]) (use assms in \<open>auto simp: wf_pcb_def sched_inv_def zero_pcb_def serving_pcb_def\<close>)
  have "wf_ip ?b" using b by (simp add: wf_stack_def wf_sock_def wf_udp_def)
  with wp have "wf_udp ?s" unfolding serving_def wf_udp_socks by (simp add: wf_udp_def wf_ip_pcbs)
  moreover have "wf_socks (pcbs ?s) (socks ?s)"
    unfolding serving_tables
    by (rule wf_socks_add [OF wf_socks_zero])
      (auto simp: sock_consts pcb_open_update pcb_open_def zero_pcb_def serving_pcb_def fun_eq_iff nth_list_update split: if_splits)
  ultimately have "wf_sock ?s" by (simp add: wf_sock_def)
  moreover have "softirq_ok ?s" "registered_ok ?s" "irqs_ok ?s" "packets_ok ?s" "rx ?s = rx ?b" "sys_ret ?s = sys_ret ?b"
    using b by (simp_all add: wf_stack_def serving_def softirq_ok_def registered_ok_def irqs_ok_def packets_ok_def)
  ultimately show ?thesis using b by (simp add: wf_stack_def)
qed

lemma serving_sock: "sock_dgram 0 (serving q ts) = Some (int 0)" "pcbs (serving q ts) ! 0 = serving_pcb q ts"
  by (simp_all add: serving_tables sock_dgram_def sock_get_def MAX_SOCKS_def sock_consts)


lemma wf_stack_terminate: "wf_stack s \<Longrightarrow> wf_stack (s\<lparr>terminate := b\<rparr>)"
proof -
  have "wf_sock (s\<lparr>terminate := b\<rparr>) = wf_sock s"
    by (simp add: wf_sock_def wf_udp_def wf_ip_def wf_arp_def wf_net_def wf_ifaces_def iface_ready_def)
  then show "wf_stack s \<Longrightarrow> wf_stack (s\<lparr>terminate := b\<rparr>)"
    by (simp add: wf_stack_def) (simp add: softirq_ok_def registered_ok_def irqs_ok_def packets_ok_def)
qed

lemma event_wakes:
  assumes "k < length (pcbs s)" "pcb_state (pcbs s ! k) = UDP_PCB_STATE_OPEN"
    "t \<in> set (sc_wait (pcb_ctx (pcbs s ! k))) \<union> set (sc_ready (pcb_ctx (pcbs s ! k)))"
  shows "k < length (pcbs (event_handler_udp s))" "pcb_state (pcbs (event_handler_udp s) ! k) = UDP_PCB_STATE_OPEN"
    "t \<in> set (sc_ready (pcb_ctx (pcbs (event_handler_udp s) ! k)))" "sc_interrupted (pcb_ctx (pcbs (event_handler_udp s) ! k)) = 1"
  using assms by (auto simp: event_handler_udp_def sched_interrupt_def pthread_cond_broadcast_def)

lemma network_event_handler_wakes:
  assumes "events s \<noteq> []" "k < length (pcbs s)" "pcb_state (pcbs s ! k) = UDP_PCB_STATE_OPEN" "t \<in> set (sc_wait (pcb_ctx (pcbs s ! k)))"
  defines "u \<equiv> snd (network_event_handler s)"
  shows "k < length (pcbs u) \<and> pcb_state (pcbs u ! k) = UDP_PCB_STATE_OPEN \<and>
    t \<in> set (sc_ready (pcb_ctx (pcbs u ! k))) \<and> sc_interrupted (pcb_ctx (pcbs u ! k)) = 1"
proof -
  let ?P = "\<lambda>u :: 'a udp_state_scheme. k < length (pcbs u) \<and> pcb_state (pcbs u ! k) = UDP_PCB_STATE_OPEN \<and>
    t \<in> set (sc_ready (pcb_ctx (pcbs u ! k))) \<and> sc_interrupted (pcb_ctx (pcbs u ! k)) = 1"
  let ?f = "\<lambda>event. event_call (ne_handler event) (ne_arg event)"
  have c: "event_call h arg u = event_handler_udp u" for h arg and u :: "'a udp_state_scheme" by (cases h) simp
  have step: "?P u \<Longrightarrow> ?P (fold ?f es u)" for es and u :: "'a udp_state_scheme"
  proof (induction es arbitrary: u)
    case (Cons e es)
    then have "?P (event_handler_udp u)" using event_wakes [of k u t] by simp
    from Cons.IH [OF this] show ?case by (simp add: c)
  qed simp
  obtain e es where "events s = e # es" using assms(1) by (cases "events s") auto
  moreover have "?P (event_handler_udp s)" using event_wakes [OF assms(2,3), of t] assms(4) by simp
  ultimately show ?thesis using step [of "event_handler_udp s" es] by (simp add: u_def network_event_handler_def c)
qed

text \<open>What is left to do after the loop always works.\<close>

lemma app_exit_ok:
  assumes "wf_udp s" "softirq_ok s"
  shows "\<exists>s'. app_exit v s = Some (v, App_Done 0, s') \<and> devices s' = devices s \<and> (\<forall>dev \<in> set (devices s). \<not> device_up s' dev)"
proof -
  obtain r u where u: "udp_close (av_soc v) s = (r, u)" by fastforce
  have out: "udp_out s u" using udp_close_out [of s "av_soc v"] assms(1) u by (simp add: wf_udp_def)
  have dv: "devices u = devices s" using net_ext_same(3) [OF udp_out_ext [OF out]] .
  have wn: "wf_net u" using udp_out_wf [OF out assms(1)] by (simp add: wf_udp_def wf_ip_def wf_arp_def)
  moreover have "softirq_ok u" using net_ext_softirq [OF udp_out_ext [OF out] assms(2)] .
  moreover have "distinct (devices u)" using wn by (simp add: wf_net_def)
  ultimately obtain s' where "close_devices (devices u) u = Some s'" "devices s' = devices u" "\<forall>dev \<in> set (devices u). \<not> device_up s' dev"
    using close_devices_spec [of u "devices u"] by blast
  with u dv show ?thesis by (simp add: app_exit_def network_shutdown_def)
qed

text \<open>
  C7. Ctrl-C stops the server even while it waits for a datagram: the signal handler, one round of the interrupt
  thread and two turns of the main thread lead to the exit with all devices closed. The receive call returns
  with \<^verbatim>\<open>EINTR\<close> and the loop finds the flag set.
\<close>

theorem udp_app_terminates:
  assumes "wf_stack s" "SIGUSR2 \<in> set (sigmask s)" "events s \<noteq> []"
    "k < 16" "pcb_state (pcbs s ! k) = UDP_PCB_STATE_OPEN" "0 \<in> set (sc_wait (pcb_ctx (pcbs s ! k)))"
    and len: "length (av_buf v) = 1024"
  shows "\<exists>t u w s'. intr_step SIGUSR2 (on_signal sig s) = Some t \<and>
    app_step ep (v, App_Asleep k) t = Some (w, App_Loop, u) \<and>
    app_step ep (w, App_Loop) u = Some (w, App_Done 0, s') \<and> devices s' = devices s \<and> (\<forall>dev \<in> set (devices s). \<not> device_up s' dev)"
proof -
  define a where "a = on_signal sig s"
  have a: "pcbs a = pcbs s" "events a = events s" "sigmask a = sigmask s" "terminate a = 1" "SIGUSR2 \<in> set (pending a)" "devices a = devices s"
    by (simp_all add: a_def on_signal_def network_interrupt_def raise_signal_def)
  have wa: "wf_stack a"
    using wf_stack_raise [OF wf_stack_terminate [OF assms(1)], of SIGUSR2] by (simp add: a_def on_signal_def network_interrupt_def)
  define t where "t = snd (network_event_handler (a\<lparr>pending := remove1 SIGUSR2 (pending a)\<rparr>))"
  have st: "intr_step SIGUSR2 a = Some t"
    using a(3,5) assms(2) by (simp add: intr_step_def intr_dispatch_def t_def SIGUSR1_def SIGUSR2_def)
  with intr_step_stack [OF wa, of SIGUSR2] have wt: "wf_stack t" by auto
  have rt: "run_out (a\<lparr>pending := remove1 SIGUSR2 (pending a)\<rparr>) t" unfolding t_def by (rule network_event_handler_run(1))
  have dt: "devices t = devices s" "terminate t = 1"
  proof -
    from rt a show "devices t = devices s" by (simp add: run_out_def)
    from rt have "sock_state.more t = sock_state.more a" using udp_more_sock [of t a] by (auto simp: run_out_def dest: udp_more_sock)
    then show "terminate t = 1" using a(4) by (cases t, cases a) simp
  qed
  have kt: "k < length (pcbs t)" "0 \<in> set (sc_ready (pcb_ctx (pcbs t ! k)))" "sc_interrupted (pcb_ctx (pcbs t ! k)) = 1"
    using network_event_handler_wakes [of "a\<lparr>pending := remove1 SIGUSR2 (pending a)\<rparr>" k 0] assms(3-6) a(1,2) wf_sock_lengths(1) [of s] assms(1)
    by (simp_all add: t_def wf_stack_def)
  obtain ctx where ctx: "sched_sleep_end 0 0 (pcb_ctx (pcbs t ! k)) = (-1, ctx)"
    using kt(3) by (simp add: sched_sleep_end_def Let_def)
  define u where "u = t\<lparr>pcbs := (pcbs t)[k := (pcbs t ! k)\<lparr>pcb_ctx := ctx\<rparr>], errno := EINTR\<rparr>"
  have rs: "udp_recvfrom_resume 0 k (av_buf v) 1024 (Some ep) t = Some (Recv_Returned (-1) (av_buf v) (Some ep), u)"
    using ctx by (simp add: udp_recvfrom_resume_def Let_def u_def)
  have s1: "app_step ep (v, App_Asleep k) t = Some (v, App_Loop, u)"
    using kt(2) rs by (simp add: sock_recvfrom_resume_def app_received_def u_def)
  have wpt: "wf_pcbs (pcbs t)" and wut: "wf_udp t" using wt by (simp_all add: wf_stack_def wf_sock_def wf_udp_def)
  have out: "udp_out t u" using udp_recvfrom_resume_out [OF wpt kt(1,2), of 1024 "av_buf v" "Some ep"] rs len by auto
  have wu: "wf_udp u" "softirq_ok u" "devices u = devices s" "terminate u \<noteq> 0"
    using udp_out_wf [OF out wut] net_ext_softirq [OF udp_out_ext [OF out]] wt dt by (simp_all add: wf_stack_def u_def)
  from app_exit_ok [OF wu(1,2), of v] wu(3) obtain s' where
    s': "app_exit v u = Some (v, App_Done 0, s')" "devices s' = devices s" "\<forall>dev \<in> set (devices s). \<not> device_up s' dev" by auto
  have s2: "app_step ep (v, App_Loop) u = Some (v, App_Done 0, s')" using s'(1) wu(4) by simp
  show ?thesis using st [unfolded a_def] s1 s2 s'(2,3) by blast
qed

theorem udp_app_terminates_witness:
  "\<exists>t u w s'. intr_step SIGUSR2 (on_signal 2 (serving [] [0])) = Some t \<and>
    app_step \<lparr>ep_address = 0, ep_port = 0\<rparr> (\<lparr>av_soc = 0, av_buf = replicate 1024 0, av_foreign = \<lparr>sin_family = 0, sin_port = 0, sin_addr = 0\<rparr>\<rparr>, App_Asleep 0) t =
      Some (w, App_Loop, u) \<and>
    app_step \<lparr>ep_address = 0, ep_port = 0\<rparr> (w, App_Loop) u = Some (w, App_Done 0, s')"
proof -
  have "wf_stack (serving [] [0])" by (rule serving_ok) simp_all
  moreover have "SIGUSR2 \<in> set (sigmask (serving [] [0]))" "events (serving [] [0]) \<noteq> []" by (simp_all add: serving_tables SIGUSR2_def)
  moreover have "pcb_state (pcbs (serving [] [0]) ! 0) = UDP_PCB_STATE_OPEN" "0 \<in> set (sc_wait (pcb_ctx (pcbs (serving [] [0]) ! 0)))"
    by (simp_all add: serving_sock(2) serving_pcb_def)
  ultimately show ?thesis
    using udp_app_terminates [of "serving [] [0]" 0
        "\<lparr>av_soc = 0, av_buf = replicate 1024 0, av_foreign = \<lparr>sin_family = 0, sin_port = 0, sin_addr = 0\<rparr>\<rparr>" 2 "\<lparr>ep_address = 0, ep_port = 0\<rparr>"]
    by (simp del: app_step.simps) blast
qed

end
