(* ===== verification/Wire.thy ===== *)
theory Wire
  imports App
begin

text \<open>
  Frames on their way through the whole stack: what the rounds of the interrupt thread do with a frame that has
  a UDP datagram in it, from the descriptor of the device to the queue of a control block. The states
  \<open>serving\<close> and \<open>waiting\<close> are running stacks for examples.
\<close>

section \<open>Definitions\<close>

text \<open>A datagram from one endpoint to another, as a frame between two stations.\<close>

definition udp_frame :: "bytes \<Rightarrow> bytes \<Rightarrow> u16 \<Rightarrow> IP_ENDPOINT \<Rightarrow> IP_ENDPOINT \<Rightarrow> bytes \<Rightarrow> bytes" where
  "udp_frame da sa ident src dst payload =
     ether_frame da sa NETWORK_PROTOCOL_TYPE_IP (ip_packet UDP_PROTOCOL (udp_datagram src dst payload) (ep_address src) (ep_address dst) ident 0)"

text \<open>The server with one, malformed, ARP packet waiting.\<close>

definition waiting :: app_state where
  "waiting = input_enqueue 1 \<lparr>nq_dev = 6, nq_len = 3, nq_data = [1, 2, 3]\<rparr> (serving [] [])"

section \<open>The echo server, running\<close>

lemma serving_net:
  "protocols (serving q ts) = [proto_entry ''IP'' 0x800 ip_input_handler, proto_entry ''ARP'' 0x806 arp_input_handler]"
  "mem_ok (serving q ts) n" "dev_heap (serving q ts) = [6 \<mapsto> (tap_device 0 0 [9])\<lparr>dev_flags := 0x121\<rparr>]" "devices (serving q ts) = [6]"
  "if_heap (serving q ts) = [9 \<mapsto> tap_iface 6]" "rx (serving q ts) fd = []" "ip_protocols (serving q ts) =
    [\<lparr>ipp_name = ''UDP'', ipp_type = 0x11, ipp_handler = udp_input_handler\<rparr>, \<lparr>ipp_name = ''ICMP'', ipp_type = 0x01, ipp_handler = icmp_input_handler\<rparr>]"
  "irq_vec (serving q ts) = [\<lparr>ie_irq = 36, ie_handler = ether_tap_isr_handler, ie_flags = 1, ie_name = take 15 (dev_name (tap_device 0 (-1) [])), ie_dev = 6\<rparr>]"
  by (simp_all add: serving_def booted_def boot_def)

lemma serving_calls: "\<forall>n. sys_ret (serving q ts) n \<noteq> -1"
  by (simp add: serving_def booted_def boot_def)

lemma waiting_ok: "wf_stack waiting" "queue_of 0x806 waiting \<noteq> []" "SIGUSR1 \<in> set (sigmask waiting)"
proof -
  let ?s = "serving [] []"
  have ws: "wf_stack ?s" by (rule serving_ok) simp_all
  have inp: "network_input_handler 0x806 [1, 2, 3] 3 6 ?s = Some (0, waiting)"
    by (simp add: waiting_def network_input_handler_def serving_net memory_alloc_def lqueue_push_def mem_read_def input_enqueue_def numeral_3_eq_3)
  have out: "net_out ?s waiting"
    unfolding waiting_def by (rule input_enqueue_out) (simp_all add: serving_net)
  show "wf_stack waiting"
    by (rule wf_stack_net_out [OF ws out queue_adds_mono [OF network_input_handler_adds [OF inp]]]) (simp add: NETWORK_PROTOCOL_TYPE_IP_def)
  show "queue_of 0x806 waiting \<noteq> []"
    by (simp add: waiting_def input_enqueue_def raise_softirq_def raise_signal_def queue_of_def serving_net lqueue_init_def)
  show "SIGUSR1 \<in> set (sigmask waiting)"
    using net_ext_same(10) [OF net_outD [OF out]] by (simp add: serving_tables SIGUSR1_def)
qed

section \<open>A datagram and the two interrupts\<close>

lemma drain_empty: "proto_queue s i = [] \<Longrightarrow> protocol_drain i s = Some s"
  by (subst protocol_drain.simps) (simp add: lqueue_pop_def proto_queue_def)

lemma drain_protocols_empty: "\<forall>i \<in> set is. proto_queue s i = [] \<Longrightarrow> drain_protocols is s = Some s"
  by (induction "is") (simp_all add: drain_empty)

lemma drain_protocols_append: "drain_protocols (is @ js) s = Option.bind (drain_protocols is s) (drain_protocols js)"
proof (induction "is" arbitrary: s)
  case (Cons i "is")
  then show ?case by (cases "protocol_drain i s") simp_all
qed simp

text \<open>One packet waits, and handling it queues nothing.\<close>

lemma network_protocol_handler_one:
  assumes wf: "wf_udp s" and i: "i < length (protocols s)" and q: "proto_queue s i = [e]"
    and others: "\<And>j. j < length (protocols s) \<Longrightarrow> j \<noteq> i \<Longrightarrow> proto_queue s j = []"
  defines "t \<equiv> s\<lparr>protocols := (protocols s)[i := (protocols s ! i)\<lparr>np_queue := (np_queue (protocols s ! i))
    \<lparr>q_items := [], q_num := q_num (np_queue (protocols s ! i)) - 1\<rparr>\<rparr>]\<rparr>"
  assumes call: "proto_call (np_handler (protocols s ! i)) (nq_data e) (length (nq_data e)) (nq_dev e) t = Some u" "protocols u = protocols t"
  shows "network_protocol_handler s = Some (0, u)"
proof -
  note pop = pop_run [OF wf i q, folded t_def]
  have empty: "proto_queue u j = []" if "j < length (protocols s)" for j
    using that pop(6,7) others call(2) by (cases "j = i") (auto simp: proto_queue_def)
  have "dev_heap s (nq_dev e) \<noteq> None"
    using wf pop(3) by (auto simp: wf_udp_def wf_ip_def wf_arp_def wf_net_def)
  then have "protocol_drain i s = protocol_drain i u"
    using q call(1) pop(2,4) i by (subst protocol_drain.simps) (auto simp: lqueue_pop_def proto_queue_def t_def [symmetric])
  then have "protocol_drain i s = Some u" using drain_empty empty [OF i] by simp
  moreover have "[0..<length (protocols s)] = [0..<i] @ i # [Suc i..<length (protocols s)]"
    using i upt_add_eq_append [of 0 i "length (protocols s) - i"] by (simp add: upt_conv_Cons)
  ultimately show ?thesis
    using i others empty by (simp add: network_protocol_handler_def drain_protocols_append drain_protocols_empty)
qed

lemma ip_packet_pad_lengths_ok:
  "length payload \<le> 65515 \<Longrightarrow> ip_lengths_ok (ip_packet protocol payload src dst ident offset @ pad)"
  using ip_packet_hdr [of protocol payload src dst ident offset pad] unat_of_nat_u16 [of "20 + length payload"]
  by (simp add: ip_lengths_ok_def ip_hdr_blank_def IPV4_def MIN_IP_HEADER_SIZE_def)

lemma udp_frame_accept:
  assumes "length da = 6" "length sa = 6" "length payload \<le> 1472"
  shows "ether_accept dev da (udp_frame da sa ident src dst payload) =
    Some (NETWORK_PROTOCOL_TYPE_IP, \<lparr>nq_dev = dev, nq_len = max 46 (28 + length payload),
      nq_data = ip_packet UDP_PROTOCOL (udp_datagram src dst payload) (ep_address src) (ep_address dst) ident 0 @ replicate (46 - (28 + length payload)) 0\<rparr>)"
  using assms by (simp add: udp_frame_def ether_accept_frame)

lemma udp_frame_ok:
  assumes "length da = 6" "length sa = 6" "length payload \<le> 1472"
  shows "frame_ok (udp_frame da sa ident src dst payload)"
proof -
  let ?p = "ip_packet UDP_PROTOCOL (udp_datagram src dst payload) (ep_address src) (ep_address dst) ident 0"
  have l: "length (udp_frame da sa ident src dst payload) \<le> 1514" using assms by (simp add: udp_frame_def length_ether_frame)
  have "ip_lengths_ok (?p @ replicate (46 - length ?p) 0)" using assms by (intro ip_packet_pad_lengths_ok) simp
  with assms l show ?thesis
    by (simp add: frame_ok_def Let_def ETHER_FRAME_SIZE_MAX_def) (simp add: udp_frame_def read_ether_hdr_frame drop_ether_frame)
qed

text \<open>The packet of such a frame reaches the control block.\<close>

lemma udp_frame_handled:
  assumes get: "network_device_get_interface dev NETWORK_INTERFACE_FAMILY_IP s = Some (Some ifp)" "if_heap s ifp = Some i"
    and dst: "ep_address dst = if_unicast i" and proto: "ip_protocol_of UDP_PROTOCOL s = Some (name, udp_input_handler)"
    and mem: "\<forall>n. mem_ok s n" and sel: "udp_pcb_select (ep_address dst) (ep_port dst) (pcbs s) = Some k" and len: "length payload \<le> 1472"
  shows "proto_call ip_input_handler (ip_packet UDP_PROTOCOL (udp_datagram src dst payload) (ep_address src) (ep_address dst) ident 0 @ pad)
      (28 + length payload + length pad) dev s =
    Some (s\<lparr>mem_n := Suc (Suc (mem_n s)),
      pcbs := udp_deliver k \<lparr>uq_foreign = src, uq_len = of_nat (length payload), uq_data = payload\<rparr> (pcbs s)\<rparr>)"
proof -
  obtain j where j: "find_slot (\<lambda>p. ipp_type p = UDP_PROTOCOL) (ip_protocols s) = Some j" "ipp_handler (ip_protocols s ! j) = udp_input_handler"
    using proto by (auto simp: ip_protocol_of_def)
  have "20 + length (udp_datagram src dst payload) \<le> 65535" using len by simp
  from ip_input_packet [OF get _ j(1) this, of "ep_address dst" ip_call "ep_address src" ident pad] dst j(2) len
    udp_input_datagram [OF order_refl _ mem sel, of payload src pad ifp]
  show ?thesis by simp
qed

text \<open>The interrupt of the device puts the packet in the queue of IP, which is then the only one.\<close>

lemma udp_frame_interrupt:
  assumes wf: "wf_stack s" and mem: "\<forall>n. mem_ok s n" and irq: "irq_vec s = [ie]" "ie_handler ie = ether_tap_isr_handler"
    and dev: "dev_heap s (ie_dev ie) = Some d" "dev_priv d = Some pv" and rx: "rx s (pv_fd pv) = [f]" and empty: "\<forall>t. queue_of t s = []"
    and sig: "ie_irq ie \<notin> {SIGUSR1, SIGUSR2, SIGALRM}" "ie_irq ie \<in> set (pending s)" "ie_irq ie \<in> set (sigmask s)"
    and acc: "ether_accept (ie_dev ie) (take 6 (dev_address d)) f = Some (NETWORK_PROTOCOL_TYPE_IP, e)"
    and ip: "protocol_of NETWORK_PROTOCOL_TYPE_IP s \<noteq> None" and calls: "\<forall>n. sys_ret s n \<noteq> -1"
  shows "\<exists>t. intr_step (ie_irq ie) s = Some t \<and>
    net_out (s\<lparr>pending := remove1 (ie_irq ie) (pending s), rx := (rx s)(pv_fd pv := [])\<rparr>) t \<and>
    (\<forall>ty. queue_of ty t = (if ty = NETWORK_PROTOCOL_TYPE_IP then [e] else []))"
proof -
  let ?a = "s\<lparr>pending := remove1 (ie_irq ie) (pending s)\<rparr>"
  have wa: "wf_stack ?a" using sig(1) by (intro wf_stack_pending [OF wf]) auto
  then have wn: "wf_net ?a" by (simp add: wf_stack_def wf_sock_def wf_udp_def wf_ip_def wf_arp_def)
  have sys: "\<forall>k \<ge> 0. sys_ret ?a k \<noteq> -1" using calls by simp
  have dv: "ie_dev ie \<in> set (devices ?a)" using wf irq(1) by (simp add: wf_stack_def irqs_ok_def)
  have d: "dev_heap ?a (ie_dev ie) = Some d" using dev(1) by simp
  have q: "queue_of ty ?a = []" "protocol_of ty ?a = protocol_of ty s" for ty
    using empty queue_of_cong [of ?a s ty] by (simp_all add: protocol_of_def)
  have m: "\<forall>n. mem_ok ?a n" "rx ?a (pv_fd pv) = [f]" using mem rx by simp_all
  from ether_isr_out [OF wn dv d dev(2) sys, of ether_tap_isr "ie_irq ie"] m calls obtain t where
    t: "ether_tap_isr (ie_irq ie) (ie_dev ie) ?a = Some (0, t)" "net_out (?a\<lparr>rx := (rx ?a)(pv_fd pv := [])\<rparr>) t"
      "\<forall>ty. queue_of ty t = queue_of ty ?a @ (if protocol_of ty ?a = None then [] else frames_for (ie_dev ie) (take 6 (dev_address d)) ty [f])"
    by auto
  have "intr_step (ie_irq ie) s = Some t"
    using sig irq t(1) by (simp add: intr_step_def intr_dispatch_def)
  moreover have "queue_of ty t = (if ty = NETWORK_PROTOCOL_TYPE_IP then [e] else [])" for ty
    using t(3) q acc ip by auto
  ultimately show ?thesis using t(2) by auto
qed

text \<open>The software interrupt then hands it to UDP.\<close>

lemma udp_frame_softirq:
  assumes wf: "wf_stack t" and mem: "\<forall>n. mem_ok t n" and sig: "SIGUSR1 \<in> set (sigmask t)"
    and q: "\<forall>ty. queue_of ty t = (if ty = NETWORK_PROTOCOL_TYPE_IP then [\<lparr>nq_dev = dev, nq_len = max 46 (28 + length payload),
      nq_data = ip_packet UDP_PROTOCOL (udp_datagram src dst payload) (ep_address src) (ep_address dst) ident 0 @ replicate (46 - (28 + length payload)) 0\<rparr>] else [])"
    and proto: "ip_protocol_of UDP_PROTOCOL t = Some (name, udp_input_handler)"
    and get: "network_device_get_interface dev NETWORK_INTERFACE_FAMILY_IP t = Some (Some ifp)" "if_heap t ifp = Some i"
    and dst: "ep_address dst = if_unicast i" and sel: "udp_pcb_select (ep_address dst) (ep_port dst) (pcbs t) = Some k" and len: "length payload \<le> 1472"
  shows "\<exists>s'. intr_step SIGUSR1 t = Some s' \<and>
    pcbs s' = udp_deliver k \<lparr>uq_foreign = src, uq_len = of_nat (length payload), uq_data = payload\<rparr> (pcbs t)"
proof -
  let ?pad = "replicate (46 - (28 + length payload)) 0 :: bytes"
  let ?d = "ip_packet UDP_PROTOCOL (udp_datagram src dst payload) (ep_address src) (ep_address dst) ident 0 @ ?pad"
  let ?e = "\<lparr>nq_dev = dev, nq_len = max 46 (28 + length payload), nq_data = ?d\<rparr>"
  define a where "a = t\<lparr>pending := remove1 SIGUSR1 (pending t)\<rparr>"
  have wn: "wf_net t" and reg: "registered_ok t" and soft: "softirq_ok t"
    using wf by (simp_all add: wf_stack_def wf_sock_def wf_udp_def wf_ip_def wf_arp_def)
  have wa: "wf_udp a" using wf wf_sock_fields(2) [of "remove1 SIGUSR1 (pending t)" t] by (simp add: a_def wf_stack_def wf_sock_def)
  have pa: "protocols a = protocols t" by (simp add: a_def)
  obtain j where j: "j < length (protocols t)" "np_type (protocols t ! j) = NETWORK_PROTOCOL_TYPE_IP"
  proof (cases "find_slot (\<lambda>proto. np_type proto = NETWORK_PROTOCOL_TYPE_IP) (protocols t)")
    case None
    then have "queue_of NETWORK_PROTOCOL_TYPE_IP t = []" by (simp add: queue_of_def)
    with q show ?thesis by simp
  next
    case (Some j)
    with that show ?thesis by (auto dest: find_slot_SomeD)
  qed
  have h: "np_handler (protocols t ! j) = ip_input_handler"
    using registered_type [OF reg j(1)] j(2) handler_type_inject [of "np_handler (protocols t ! j)" ip_input_handler] by simp
  have qj: "proto_queue a j = [?e]" using proto_queue_of [OF wn j(1)] j(2) q pa by (simp add: proto_queue_def)
  have ql: "proto_queue a l = []" if l: "l < length (protocols a)" "l \<noteq> j" for l
  proof -
    have "np_type (protocols t ! l) \<noteq> NETWORK_PROTOCOL_TYPE_IP"
      using wn l j pa nth_eq_iff_index_eq [of "map np_type (protocols t)" l j] by (simp add: wf_net_def)
    with proto_queue_of [OF wn, of l] l q pa show ?thesis by (simp add: proto_queue_def)
  qed
  define b where "b = a\<lparr>protocols := (protocols a)[j := (protocols a ! j)\<lparr>np_queue := (np_queue (protocols a ! j))
    \<lparr>q_items := [], q_num := q_num (np_queue (protocols a ! j)) - 1\<rparr>\<rparr>]\<rparr>"
  have b: "network_device_get_interface dev NETWORK_INTERFACE_FAMILY_IP b = Some (Some ifp)" "if_heap b ifp = Some i"
    "ip_protocol_of UDP_PROTOCOL b = Some (name, udp_input_handler)" "\<forall>n. mem_ok b n" "pcbs b = pcbs t"
    using get proto mem by (simp_all add: a_def b_def network_device_get_interface_def ip_protocol_of_def)
  have ld: "length ?d = 28 + length payload + length ?pad" by simp
  note call = udp_frame_handled [OF b(1,2) dst b(3,4) sel [folded b(5)] len, of src ident ?pad, folded ld]
  have "network_protocol_handler a = Some (0, b\<lparr>mem_n := Suc (Suc (mem_n b)),
      pcbs := udp_deliver k \<lparr>uq_foreign = src, uq_len = of_nat (length payload), uq_data = payload\<rparr> (pcbs b)\<rparr>)"
    by (rule network_protocol_handler_one [OF wa _ qj ql]) (use j(1) h pa call in \<open>simp_all add: b_def\<close>)
  moreover have "SIGUSR1 \<in> set (pending t)"
    using soft j(1) qj pa by (auto simp: softirq_ok_def proto_queue_def dest!: bspec [where x = "protocols t ! j"])
  ultimately show ?thesis using sig b(5) by (simp add: intr_step_def intr_dispatch_def a_def [symmetric])
qed

end
