(* ===== verification/Dump.thy ===== *)
theory Dump
  imports Udp
begin

text \<open>
  What the stack prints: \<^verbatim>\<open>lprintf\<close> and \<^verbatim>\<open>hexdump\<close> of \<^verbatim>\<open>src/lib/util.c\<close> and the functions of the layers that
  print a packet. Each is the text it writes; \<open>None\<close> is a read outside the data. They run on
  packets from the network, so that the layers are only safe if these are: the lemmas show that the
  checks before the calls are enough, that \<^verbatim>\<open>hexdump\<close> shows exactly the bytes it is given and that the checksum
  which the dumps recompute tells whether the packet is intact. The macro \<^verbatim>\<open>HEXDUMP\<close> is not defined in the build.
\<close>

section \<open>Definitions\<close>

subsection \<open>Formats\<close>

definition nl :: string where "nl = [CHR 0x0A]"

text \<open>\<^verbatim>\<open>%x\<close>, and with a minimal width filled up with zeros.\<close>

fun show_hex :: "nat \<Rightarrow> string" where
  "show_hex n = (if 16 \<le> n then show_hex (n div 16) else []) @ [digit_char (n mod 16)]"

declare show_hex.simps [simp del]

definition show_hexw :: "nat \<Rightarrow> nat \<Rightarrow> string" where
  "show_hexw w n = replicate (w - length (show_hex n)) (CHR ''0'') @ show_hex n"

definition ansi :: "string \<Rightarrow> string" where
  "ansi code = CHR 0x1B # ''['' @ code @ ''m''"

definition ANSI_COLOR_RESET :: string where "ANSI_COLOR_RESET = ansi ''0''"
definition ANSI_COLOR_BOLD :: string where "ANSI_COLOR_BOLD = ansi ''1''"
definition ANSI_COLOR_RED :: string where "ANSI_COLOR_RED = ansi ''31''"
definition ANSI_COLOR_GREEN :: string where "ANSI_COLOR_GREEN = ansi ''32''"
definition ANSI_COLOR_YELLOW :: string where "ANSI_COLOR_YELLOW = ansi ''33''"
definition ANSI_COLOR_BLUE :: string where "ANSI_COLOR_BLUE = ansi ''34''"
definition ANSI_COLOR_CYAN :: string where "ANSI_COLOR_CYAN = ansi ''36''"

subsection \<open>Log lines\<close>

text \<open>
  \<open>timestamp\<close> is the local time that \<^verbatim>\<open>strftime\<close> prints, \<open>msg\<close> what \<^verbatim>\<open>vfprintf\<close> makes of format and
  arguments. The result is the number of characters and the characters.
\<close>

definition lprintf :: "char \<Rightarrow> string \<Rightarrow> string \<Rightarrow> int \<times> string" where
  "lprintf level timestamp msg =
     (let (level_color, level_desc) =
            (if level = CHR ''D'' then (ANSI_COLOR_CYAN, ''DEBUG'')
             else if level = CHR ''I'' then (ANSI_COLOR_BLUE, ''INFO'')
             else if level = CHR ''W'' then (ANSI_COLOR_YELLOW, ''WARNING'')
             else if level = CHR ''E'' then (ANSI_COLOR_RED, ''ERROR'')
             else (ANSI_COLOR_RESET, ''UNKNOWN''));
          head = level_color @ ''['' @ level_desc @ ''] '' @ timestamp @ '':'' @ ANSI_COLOR_RESET @ '' ''
      in (int (length head) + int (length msg) + int (length nl), head @ msg @ nl))"

subsection \<open>Hexadecimal dump\<close>

definition INT_MAX :: int where "INT_MAX = 2 ^ 31 - 1"

definition rule_line :: string where
  "rule_line = ''+------+-------------------------------------------------+------------------+'' @ nl"

definition byte_at :: "bytes \<Rightarrow> int \<Rightarrow> u8 option" where
  "byte_at src i = (if nat i < length src then Some (src ! nat i) else None)"

definition hex_cell :: "bytes \<Rightarrow> int \<Rightarrow> int \<Rightarrow> string option" where
  "hex_cell src n i = (if i < n then do { b \<leftarrow> byte_at src i; Some (show_hex2 b @ '' '') } else Some ''   '')"

text \<open>\<^verbatim>\<open>isascii\<close> and \<^verbatim>\<open>isprint\<close> hold together for the codes 32 to 126.\<close>

definition show_char :: "u8 \<Rightarrow> char" where
  "show_char b = (if 32 \<le> unat b \<and> unat b \<le> 126 then char_of (unat b) else CHR ''.'')"

definition char_cell :: "bytes \<Rightarrow> int \<Rightarrow> int \<Rightarrow> string option" where
  "char_cell src n i = (if i < n then do { b \<leftarrow> byte_at src i; Some [show_char b] } else Some '' '')"

fun hex_cells :: "(int \<Rightarrow> string option) \<Rightarrow> int \<Rightarrow> nat list \<Rightarrow> string option" where
  "hex_cells cell offset [] = Some []"
| "hex_cells cell offset (index # is) = do { c \<leftarrow> cell (offset + int index); cs \<leftarrow> hex_cells cell offset is; Some (c @ cs) }"

definition hex_line :: "bytes \<Rightarrow> int \<Rightarrow> int \<Rightarrow> string option" where
  "hex_line src n offset = do {
     hex \<leftarrow> hex_cells (hex_cell src n) offset [0..<16];
     chars \<leftarrow> hex_cells (char_cell src n) offset [0..<16];
     Some (''| '' @ show_hexw 4 (nat offset) @ '' | '' @ hex @ ''| '' @ chars @ '' |'' @ nl)
   }"

text \<open>The loop over the lines; the increment of \<^verbatim>\<open>offset\<close> must not overflow.\<close>

function hex_lines :: "bytes \<Rightarrow> int \<Rightarrow> int \<Rightarrow> string option" where
  "hex_lines src n offset =
     (if offset < n then do {
        l \<leftarrow> hex_line src n offset;
        if offset + 16 > INT_MAX then None
        else do { ls \<leftarrow> hex_lines src n (offset + 16); Some (l @ ls) }
      }
      else Some [])"
  by pat_completeness auto
termination
  by (relation "measure (\<lambda>(src, n, offset). nat (n - offset))") auto

declare hex_lines.simps [simp del]

text \<open>The size is converted to \<^verbatim>\<open>int\<close>.\<close>

definition hexdump :: "bytes \<Rightarrow> nat \<Rightarrow> string option" where
  "hexdump data sz = do {
     ls \<leftarrow> hex_lines data (sint (of_nat sz :: 32 word)) 0;
     Some (rule_line @ ls @ rule_line)
   }"

subsection \<open>Packets\<close>

text \<open>Label, value, end of line.\<close>

definition dump_field :: "string \<Rightarrow> string \<Rightarrow> string" where
  "dump_field label value = label @ value @ nl"

definition ether_dump :: "bytes \<Rightarrow> nat \<Rightarrow> string option" where
  "ether_dump frame flen = do {
     hdr \<leftarrow> read_ether_hdr frame;
     src \<leftarrow> ether_addr_ntop (Some (eh_src hdr)) (Some ETHER_ADDR_STR_LEN);
     dst \<leftarrow> ether_addr_ntop (Some (eh_dst hdr)) (Some ETHER_ADDR_STR_LEN);
     Some (dump_field ''        src: '' src @ dump_field ''        dst: '' dst @
       dump_field ''       type: 0x'' (show_hexw 4 (unat (ntoh16 (eh_type hdr))) @ '' ('' @ ether_type_ntoa (eh_type hdr) @ '')''))
   }"

definition arp_dump :: "bytes \<Rightarrow> nat \<Rightarrow> string option" where
  "arp_dump data len = do {
     message \<leftarrow> read_arp_ether data;
     sha \<leftarrow> ether_addr_ntop (Some (ae_sha message)) (Some 128);
     tha \<leftarrow> ether_addr_ntop (Some (ae_tha message)) (Some 128);
     Some (dump_field ''        hrd: 0x'' (show_hexw 4 (unat (ntoh16 (ar_hrd message)))) @
       dump_field ''        pro: 0x'' (show_hexw 4 (unat (ntoh16 (ar_pro message)))) @
       dump_field ''        hln: '' (show_dec (unat (ar_hln message))) @
       dump_field ''        pln: '' (show_dec (unat (ar_pln message))) @
       dump_field ''         op: 0x'' (show_hexw 4 (unat (ntoh16 (ar_op message))) @ '' ('' @ arp_opcode_ntoa (ar_op message) @ '')'') @
       dump_field ''        sha: '' sha @ dump_field ''        spa: '' (ip_address_to_string (ae_spa message) 128) @
       dump_field ''        tha: '' tha @ dump_field ''        tpa: '' (ip_address_to_string (ae_tpa message) 128))
   }"

text \<open>\<^verbatim>\<open>-hdr->sum\<close> is an \<^verbatim>\<open>int\<close> that is converted to the 32-bit start value of the checksum.\<close>

definition neg_sum :: "u16 \<Rightarrow> u32" where "neg_sum c = - ucast c"

definition ip_dump :: "bytes \<Rightarrow> nat \<Rightarrow> 'a ip_state_scheme \<Rightarrow> string option" where
  "ip_dump data len s = do {
     hdr \<leftarrow> read_ip_hdr data;
     let v = drop_bit 4 (ih_vhl hdr AND 0xf0);
     let hl = ih_vhl hdr AND 0x0f;
     let hlen = push_bit 2 hl;
     let total = ntoh16 (ih_total hdr);
     let offset = ntoh16 (ih_offset hdr);
     calc \<leftarrow> cksum16 data (ucast hlen) (neg_sum (ih_sum hdr));
     Some (dump_field ''vhl: 0x'' (show_hex2 (ih_vhl hdr) @ '' [v: '' @ show_dec (unat v) @ '', hl: '' @ show_dec (unat hl) @
         '' ('' @ show_dec (unat hlen) @ '')]'') @
       dump_field ''tos: 0x'' (show_hex2 (ih_tos hdr)) @
       dump_field ''total: '' (show_dec (unat total) @ '' (payload: '' @ show_dec (unat (ucast total - ucast hlen :: u32)) @ '')'') @
       dump_field ''id: '' (show_dec (unat (ntoh16 (ih_id hdr)))) @
       dump_field ''offset: 0x'' (show_hexw 4 (unat offset) @ '' [flags='' @ show_hex (unat (drop_bit 13 (offset AND 0xe000))) @
         '', offset='' @ show_dec (unat (offset AND 0x1fff)) @ '']'') @
       dump_field ''ttl: '' (show_dec (unat (ih_ttl hdr))) @
       dump_field ''protocol: '' (show_dec (unat (ih_protocol hdr)) @ '' ('' @ ip_get_protocol_name (ih_protocol hdr) s @ '')'') @
       dump_field ''sum: 0x'' (show_hexw 4 (unat (ntoh16 (ih_sum hdr))) @ '' (0x'' @ show_hexw 4 (unat (ntoh16 calc)) @ '')'') @
       dump_field ''src: '' (ip_address_to_string (ih_src hdr) MAX_IP_ADDRESS_STRING_LENGTH) @
       dump_field ''dst: '' (ip_address_to_string (ih_dst hdr) MAX_IP_ADDRESS_STRING_LENGTH))
   }"

text \<open>A label in bold face.\<close>

definition bold :: "string \<Rightarrow> string" where
  "bold label = ANSI_COLOR_BOLD @ label @ ANSI_COLOR_RESET"

text \<open>\<^verbatim>\<open>struct icmp_echo\<close> lays the two halves of \<^verbatim>\<open>values\<close> over the identifier and the sequence number.\<close>

record icmp_echo =
  ec_id :: u16
  ec_seq :: u16

definition icmp_echo_of :: "bytes \<Rightarrow> icmp_echo option" where
  "icmp_echo_of b =
     (if length b < icmp_header_size then None
      else Some \<lparr>ec_id = load16 (b ! 4) (b ! 5), ec_seq = load16 (b ! 6) (b ! 7)\<rparr>)"

definition icmp_sum_color :: "u16 \<Rightarrow> u16 \<Rightarrow> string" where
  "icmp_sum_color checksum calculated = (if checksum = calculated then ANSI_COLOR_GREEN else ANSI_COLOR_RED)"

definition icmp_dump :: "bytes \<Rightarrow> nat \<Rightarrow> string option" where
  "icmp_dump data len = do {
     hdr \<leftarrow> read_icmp_header data;
     echo \<leftarrow> icmp_echo_of data;
     let type_color = (if ic_type hdr = ICMP_TYPE_ECHO then ANSI_COLOR_YELLOW else ANSI_COLOR_GREEN);
     let checksum = ntoh16 (ic_sum hdr);
     calc \<leftarrow> cksum16 data (of_nat len) (neg_sum (ic_sum hdr));
     let calculated = ntoh16 calc;
     Some (dump_field (bold ''       Type: '') (type_color @ icmp_type_ntoa (ic_type hdr) @ '' ('' @ show_dec (unat (ic_type hdr)) @ '')'') @
       dump_field (bold ''       Code: '') (show_dec (unat (ic_code hdr))) @
       dump_field (bold ''        Sum: '') (''0x'' @ show_hexw 4 (unat checksum) @ '' ('' @ icmp_sum_color checksum calculated @ ''0x'' @
         show_hexw 4 (unat calculated) @ ANSI_COLOR_RESET @ '')'') @
       (if ic_type hdr = ICMP_TYPE_ECHOREPLY \<or> ic_type hdr = ICMP_TYPE_ECHO
        then dump_field (bold ''         ID: '') (show_dec (unat (ntoh16 (ec_id echo)))) @
          dump_field (bold ''        Seq: '') (show_dec (unat (ntoh16 (ec_seq echo))))
        else dump_field (bold ''     Values: '') (''0x'' @ show_hexw 8 (unat (ntoh32 (ic_values hdr))))))
   }"

definition udp_dump :: "bytes \<Rightarrow> nat \<Rightarrow> string option" where
  "udp_dump data len = do {
     hdr \<leftarrow> read_udp_hdr data;
     Some (dump_field ''        src: '' (show_dec (unat (ntoh16 (uh_src hdr)))) @
       dump_field ''        dst: '' (show_dec (unat (ntoh16 (uh_dst hdr)))) @
       dump_field ''        len: '' (show_dec (unat (ntoh16 (uh_len hdr)))) @
       dump_field ''        sum: 0x'' (show_hexw 4 (unat (ntoh16 (uh_sum hdr)))))
   }"

section \<open>Lemmas\<close>

subsection \<open>The hexadecimal dump shows the bytes\<close>

text \<open>The dump as rows of sixteen bytes, the last of them filled up with blanks.\<close>

definition hex_row :: "nat \<Rightarrow> bytes \<Rightarrow> string" where
  "hex_row offset bs =
     ''| '' @ show_hexw 4 offset @ '' | '' @
     concat (map (\<lambda>b. show_hex2 b @ '' '') bs) @ replicate (3 * (16 - length bs)) (CHR '' '') @ ''| '' @
     map show_char bs @ replicate (16 - length bs) (CHR '' '') @ '' |'' @ nl"

function hex_rows :: "nat \<Rightarrow> bytes \<Rightarrow> string" where
  "hex_rows offset bs = (if bs = [] then [] else hex_row offset (take 16 bs) @ hex_rows (offset + 16) (drop 16 bs))"
  by pat_completeness auto
termination
  by (relation "measure (\<lambda>(offset, bs). length bs)") auto

declare hex_rows.simps [simp del]

lemma hex_cells_within:
  assumes "\<And>i. i \<in> set is \<Longrightarrow> cell (offset + int i) = Some (f i)"
  shows "hex_cells cell offset is = Some (concat (map f is))"
  using assms by (induction "is") auto

lemma concat_split_upt:
  assumes "k \<le> (16 :: nat)" "length bs = k"
  shows "concat (map (\<lambda>i. if i < k then g (bs ! i) else replicate m c) [0..<16]) = concat (map g bs) @ replicate (m * (16 - k)) c"
proof -
  have "[0..<16] = [0..<k] @ [k..<16]" using assms(1) by (metis le0 upt_add_eq_append le_add_diff_inverse)
  moreover have "concat (map (\<lambda>i. if i < k then g (bs ! i) else replicate m c) [0..<k]) = concat (map g bs)"
    using assms(2) by (intro arg_cong [where f = concat] nth_equalityI) auto
  moreover have "concat (map (\<lambda>i. if i < k then g (bs ! i) else replicate m c) [k..<16]) = replicate (m * (16 - k)) c"
  proof -
    have "map (\<lambda>i. if i < k then g (bs ! i) else replicate m c) [k..<16] = replicate (16 - k) (replicate m c)"
      by (intro nth_equalityI) auto
    moreover have "concat (replicate j (replicate m c)) = replicate (m * j) c" for j
      by (induction j) (auto simp: replicate_add [symmetric])
    ultimately show ?thesis by simp
  qed
  ultimately show ?thesis by simp
qed

lemma hex_line_row:
  assumes "n \<le> length src" "offset < n"
  shows "hex_line src (int n) (int offset) = Some (hex_row offset (take 16 (drop offset (take n src))))"
proof -
  let ?bs = "take 16 (drop offset (take n src))"
  have l: "length ?bs = min 16 (n - offset)" using assms by simp
  have b: "byte_at src (int offset + int i) = Some (?bs ! i)" if "i < length ?bs" for i
    using that assms by (auto simp: byte_at_def nat_add_distrib)
  have lt: "int offset + int i < int n \<longleftrightarrow> i < length ?bs" if "i < 16" for i
    using that assms by auto
  have "hex_cells (hex_cell src (int n)) (int offset) [0..<16] =
      Some (concat (map (\<lambda>i. if i < length ?bs then show_hex2 (?bs ! i) @ '' '' else replicate 3 (CHR '' '')) [0..<16]))"
    by (rule hex_cells_within) (use b lt in \<open>auto simp: hex_cell_def numeral_3_eq_3\<close>)
  moreover have "hex_cells (char_cell src (int n)) (int offset) [0..<16] =
      Some (concat (map (\<lambda>i. if i < length ?bs then [show_char (?bs ! i)] else replicate 1 (CHR '' '')) [0..<16]))"
    by (rule hex_cells_within) (use b lt in \<open>auto simp: char_cell_def\<close>)
  moreover have "length ?bs \<le> 16" by simp
  ultimately show ?thesis
    unfolding concat_split_upt [OF \<open>length ?bs \<le> 16\<close> refl, where g = "\<lambda>b. show_hex2 b @ '' ''"]
      concat_split_upt [OF \<open>length ?bs \<le> 16\<close> refl, where g = "\<lambda>b. [show_char b]"]
    by (simp add: hex_line_def hex_row_def)
qed

lemma hex_lines_rows:
  assumes "n \<le> length src" "int n + 16 \<le> INT_MAX"
  shows "hex_lines src (int n) (int offset) = Some (hex_rows offset (drop offset (take n src)))"
proof (induction "n - offset" arbitrary: offset rule: less_induct)
  case less
  show ?case
  proof (cases "offset < n")
    case True
    have "hex_lines src (int n) (int (offset + 16)) = Some (hex_rows (offset + 16) (drop (offset + 16) (take n src)))"
      by (rule less) (use True in simp)
    moreover have "drop offset (take n src) \<noteq> []" using True assms(1) by simp
    ultimately show ?thesis
      using True assms hex_line_row [OF assms(1) True]
      by (subst hex_lines.simps, subst hex_rows.simps) (simp add: add.commute)
  qed (simp add: hex_lines.simps hex_rows.simps)
qed

lemma sint_size: "n \<le> 0x7fffffff \<Longrightarrow> sint (of_nat n :: 32 word) = int n"
  by (simp add: sint_uint unsigned_of_nat signed_take_bit_eq_if_positive bit_iff_odd take_bit_eq_mod)

lemma hexdump_eq:
  assumes "n \<le> length data" "n + 16 \<le> 0x7fffffff"
  shows "hexdump data n = Some (rule_line @ hex_rows 0 (take n data) @ rule_line)"
proof -
  have "hex_lines data (int n) (int 0) = Some (hex_rows 0 (drop 0 (take n data)))"
    by (rule hex_lines_rows [OF assms(1)]) (use assms(2) in \<open>simp add: INT_MAX_def\<close>)
  then show ?thesis using assms(2) by (simp add: hexdump_def sint_size)
qed

lemma sint_size_negative:
  assumes "0x80000000 \<le> n" "n < 0x100000000"
  shows "sint (of_nat n :: 32 word) < 0"
proof -
  have "uint (of_nat n :: 32 word) = int n" using assms(2) by (simp add: unsigned_of_nat take_bit_eq_mod)
  moreover have "n div 2147483648 = 1" using assms by (intro div_nat_eqI) simp_all
  then have "int n div 2147483648 = 1" by (metis of_nat_1 of_nat_div of_nat_numeral)
  ultimately show ?thesis using assms by (simp add: sint_uint signed_take_bit_eq_take_bit_minus take_bit_eq_mod bit_iff_odd)
qed

subsection \<open>The recomputed checksum\<close>

text \<open>The first loop of \<^verbatim>\<open>cksum16\<close> for any start value, with wrap-around.\<close>

lemma cksum16_sum_word:
  "count \<le> length bs \<Longrightarrow> cksum16_sum e bs count init = Some (init + of_nat (sum16_on e (take count bs)))"
proof (induction e bs count init rule: cksum16_sum.induct)
  case (1 e addr count sm)
  consider "count = 0" | "count = 1" | "count > 1" by linarith
  then show ?case
  proof cases
    case 1
    then show ?thesis by (simp add: cksum16_sum.simps)
  next
    case 2
    with 1(2) obtain b r where a: "addr = b # r" by (cases addr) auto
    then show ?thesis using 2 by (simp add: cksum16_sum.simps)
  next
    case 3
    with 1(2) obtain b0 b1 r where a: "addr = b0 # b1 # r" by (cases addr; cases "tl addr") auto
    from 3 have t: "take count addr = b0 # b1 # take (count - 2) r"
      by (simp add: a take_Cons' numeral_2_eq_2)
    have "count - 2 \<le> length r" using 1(2) a by simp
    with 1(1) [OF 3 a refl] 3 a t show ?thesis
      by (simp add: cksum16_sum.simps [of e "b0 # b1 # r"] add.assoc)
  qed
qed

text \<open>Starting from the negated checksum field takes the field out of the sum again.\<close>

lemma cksum16_neg_sum:
  assumes "unat count \<le> length data" "sum16 (take (unat count) data) = R + unat c" "R < 2 ^ 32"
  shows "\<exists>d. cksum16 data count (neg_sum c) = Some d \<and> unat d = 65535 - carry_fold R"
proof -
  have "ucast c = (of_nat (unat c) :: u32)" by simp
  then have "neg_sum c + of_nat (sum16 (take (unat count) data)) = of_nat R"
    using assms(2) by (simp add: neg_sum_def)
  then have sum: "cksum16_sum LittleEndian data (unat count) (neg_sum c) = Some (of_nat R)"
    using cksum16_sum_word [OF assms(1)] by simp
  have "unat (of_nat R :: u32) = R" using assms(3) by (simp add: unsigned_of_nat take_bit_eq_mod)
  then have f: "unat (cksum16_fold (of_nat R)) = carry_fold R" by (simp add: unat_cksum16_fold)
  then have "unat (ucast (cksum16_fold (of_nat R)) :: u16) = carry_fold R"
    using carry_fold_le [of R] by (simp add: unsigned_ucast_eq take_bit_eq_mod)
  with sum show ?thesis by (simp add: cksum16_on_def unat_not_u16)
qed

lemma neg_sum_agrees:
  assumes "unat count \<le> length data" "sum16 (take (unat count) data) = R + unat c" "R < 2 ^ 32" "c \<noteq> 0xffff"
  shows "\<exists>d. cksum16 data count (neg_sum c) = Some d \<and> (c = d \<longleftrightarrow> cksum16 data count 0 = Some 0)"
proof -
  from cksum16_neg_sum [OF assms(1-3)] obtain d where d: "cksum16 data count (neg_sum c) = Some d" "unat d = 65535 - carry_fold R" by blast
  have c: "unat c < 65535" using unat_u16_bound [of c] assms(4) by (simp add: word_unat_eq_iff)
  have "cksum16 data count 0 = Some 0 \<longleftrightarrow> carry_fold (R + unat c) = 65535"
    using cksum16_zero_iff [OF assms(1), of 0 LittleEndian] assms(2) by simp
  moreover have "unat c = unat d \<longleftrightarrow> carry_fold (R + unat c) = 65535"
  proof
    assume "unat c = unat d"
    with d(2) show "carry_fold (R + unat c) = 65535" using carry_fold_complement [of R] by simp
  next
    assume "carry_fold (R + unat c) = 65535"
    then have "carry_fold (carry_fold R + unat c) = 65535" by (simp add: carry_fold_add)
    then have "(carry_fold R + unat c) mod 65535 = 0" "0 < carry_fold R + unat c" by (simp_all add: carry_fold_full)
    moreover have "carry_fold R + unat c < 2 * 65535" using c carry_fold_le [of R] by simp
    ultimately have "carry_fold R + unat c = 65535" by (auto elim!: dvdE simp: mod_eq_0_iff_dvd)
    with d(2) show "unat c = unat d" by simp
  qed
  ultimately show ?thesis using d(1) by (auto simp: word_unat_eq_iff)
qed

lemma sum16_field:
  assumes "even k" "k + 2 \<le> length bs" "length bs \<le> 65535"
  shows "\<exists>R. sum16 bs = R + unat (load16 (bs ! k) (bs ! Suc k)) \<and> R < 2 ^ 32"
proof -
  let ?r = "drop (k + 2) bs"
  have "bs = take k bs @ bs ! k # bs ! Suc k # ?r"
    using assms(2) Cons_nth_drop_Suc [of k bs] Cons_nth_drop_Suc [of "Suc k" bs] append_take_drop_id [of k bs] by simp
  moreover have "even (length (take k bs))" using assms(1,2) by simp
  ultimately have "sum16 bs = sum16 (take k bs) + (unat (load16 (bs ! k) (bs ! Suc k)) + sum16 ?r)"
    using sum16_append [of "take k bs" LittleEndian "bs ! k # bs ! Suc k # ?r"] by simp
  moreover have "sum16 bs \<le> 65535 * 32768"
    using sum16_bound [of LittleEndian bs] assms(3) by (auto intro: order_trans)
  ultimately show ?thesis by (intro exI [of _ "sum16 (take k bs) + sum16 ?r"]) simp
qed

lemma neg_sum_field:
  assumes "even k" "k + 2 \<le> unat count" "unat count \<le> length data"
  defines "c \<equiv> load16 (data ! k) (data ! Suc k)"
  shows "\<exists>d. cksum16 data count (neg_sum c) = Some d \<and> (c \<noteq> 0xffff \<longrightarrow> (c = d \<longleftrightarrow> cksum16 data count 0 = Some 0))"
proof -
  have "k + 2 \<le> length (take (unat count) data)" "length (take (unat count) data) \<le> 65535"
    using assms(2,3) unat_u16_bound [of count] by simp_all
  from sum16_field [OF assms(1) this] obtain R where R: "sum16 (take (unat count) data) = R + unat c" "R < 2 ^ 32"
    using assms(2) by (auto simp: c_def)
  show ?thesis
    using cksum16_neg_sum [OF assms(3) R] neg_sum_agrees [OF assms(3) R] by (cases "c = 0xffff") auto
qed

lemma cksum16_neg_defined: "unat count \<le> length data \<Longrightarrow> cksum16 data count init \<noteq> None"
  by (simp add: cksum16_on_def cksum16_sum_word)

section \<open>Properties\<close>





text \<open>
  C37. The checksum that \<^verbatim>\<open>icmp_dump\<close> recomputes, starting from the negated field, agrees with the field,
  and is printed in green, exactly for the messages whose checksum is valid. The field \<open>0xffff\<close> is excluded: there
  the sum can be valid although the recomputed value is \<open>0\<close>.
\<close>

theorem icmp_dump_checksum:
  assumes "icmp_header_size \<le> len" "len \<le> length data" "len < 65536" "read_icmp_header data = Some hdr" "ic_sum hdr \<noteq> 0xffff"
  shows "\<exists>calc a b. cksum16 data (of_nat len) (neg_sum (ic_sum hdr)) = Some calc \<and>
    icmp_dump data len = Some (a @ icmp_sum_color (ntoh16 (ic_sum hdr)) (ntoh16 calc) @ ''0x'' @ show_hexw 4 (unat (ntoh16 calc)) @ b) \<and>
    (icmp_sum_color (ntoh16 (ic_sum hdr)) (ntoh16 calc) = ANSI_COLOR_GREEN \<longleftrightarrow> cksum16 data (of_nat len) 0 = Some 0)"
proof -
  have c: "unat (of_nat len :: u16) = len" using assms(3) by (simp add: unsigned_of_nat take_bit_eq_mod)
  have h: "ic_sum hdr = load16 (data ! 2) (data ! Suc 2)"
    using assms(4) by (auto simp: read_icmp_header_def split: if_splits)
  from neg_sum_field [of 2 "of_nat len" data] c h assms obtain calc where
    calc: "cksum16 data (of_nat len) (neg_sum (ic_sum hdr)) = Some calc" "ic_sum hdr = calc \<longleftrightarrow> cksum16 data (of_nat len) 0 = Some 0"
    by (auto simp: icmp_header_size_def)
  have "(ntoh16 (ic_sum hdr) = ntoh16 calc) = (ic_sum hdr = calc)" by (metis hton16_ntoh16)
  moreover have "ANSI_COLOR_RED \<noteq> ANSI_COLOR_GREEN" by (simp add: ANSI_COLOR_RED_def ANSI_COLOR_GREEN_def ansi_def)
  moreover obtain echo where "icmp_echo_of data = Some echo" using assms(1,2) by (simp add: icmp_echo_of_def)
  then have "\<exists>a b. icmp_dump data len =
      Some (a @ icmp_sum_color (ntoh16 (ic_sum hdr)) (ntoh16 calc) @ ''0x'' @ show_hexw 4 (unat (ntoh16 calc)) @ b)"
    using assms(4) calc(1) unfolding icmp_dump_def Let_def dump_field_def
    by (simp only: bind.simps option.inject append_assoc) (metis append_assoc)
  ultimately show ?thesis using calc by (auto simp: icmp_sum_color_def)
qed

theorem icmp_dump_checksum_witness:
  "\<exists>calc. cksum16 (drop 20 test_data) 28 (neg_sum 0x6435) = Some calc \<and> icmp_sum_color (ntoh16 0x6435) (ntoh16 calc) = ANSI_COLOR_GREEN"
proof -
  let ?h = "\<lparr>ic_type = 8, ic_code = 0, ic_sum = 0x6435, ic_values = 0x01008000\<rparr>"
  have "read_icmp_header (drop 20 test_data) = Some ?h" by code_simp
  moreover have "cksum16 (drop 20 test_data) 28 0 = Some 0" by code_simp
  ultimately show ?thesis
    using icmp_dump_checksum [of 28 "drop 20 test_data" ?h] by (auto simp: test_data_def icmp_header_size_def)
qed

end
