(* ===== verification/Samples.thy ===== *)
theory Samples
  imports App
begin

text \<open>
  The sample programs \<^verbatim>\<open>apps/server.c\<close> and \<^verbatim>\<open>apps/client.c\<close>. Both open a socket of the stack and then make system calls
  of the host on the number they got. The model records these calls; their results come from the environment, as
  for the calls of the drivers.
\<close>

section \<open>Definitions\<close>

definition SERVER_PORT :: u16 where "SERVER_PORT = 4000"
definition SERVER_IP :: string where "SERVER_IP = ''127.0.0.1''"

datatype os_call =
    Os_bind (os_fd: int) sockaddr_in
  | Os_recvfrom (os_fd: int) nat
  | Os_sendto (os_fd: int) bytes sockaddr_in
  | Os_close (os_fd: int)

datatype prog_end = Running | Returned int | Exited int

text \<open>\<^verbatim>\<open>recvfrom\<close> of the host: the length and the bytes received, at most \<open>n\<close>.\<close>

definition os_recvfrom :: "nat \<Rightarrow> 'a net_state_scheme \<Rightarrow> int \<times> bytes \<times> 'a net_state_scheme" where
  "os_recvfrom n s =
     (let data = sys_data s (sys_n s); (r, s) = syscall s
      in if r < 0 then (-1, [], s)
         else let buf = take (min (nat r) n) data in (int (length buf), buf, s))"

subsection \<open>Server\<close>

text \<open>
  The loop of the server, up to a number of rounds; \<open>peer k\<close> is the address that the \<open>k\<close>-th system call
  stores.
\<close>

fun server_loop ::
  "(nat \<Rightarrow> sockaddr_in) \<Rightarrow> nat \<Rightarrow> int \<Rightarrow> 'a net_state_scheme \<Rightarrow> prog_end \<times> os_call list \<times> 'a net_state_scheme" where
  "server_loop peer 0 soc s = (Running, [], s)"
| "server_loop peer (Suc n) soc s =
     (let addr = peer (sys_n s); (ret, buf, s) = os_recvfrom 1024 s
      in if ret = -1 then (Exited 1, [Os_recvfrom soc 1024, Os_close soc], sys_close s)
         else
           (let (r, s) = syscall s
            in if r = -1 then (Exited 1, [Os_recvfrom soc 1024, Os_sendto soc buf addr, Os_close soc], sys_close s)
               else
                 (let (e, calls, s) = server_loop peer n soc s
                  in (e, Os_recvfrom soc 1024 # Os_sendto soc buf addr # calls, s))))"

definition server_main ::
  "(nat \<Rightarrow> sockaddr_in) \<Rightarrow> nat \<Rightarrow> 'a sock_state_scheme \<Rightarrow> prog_end \<times> os_call list \<times> 'a sock_state_scheme" where
  "server_main peer n s =
     (let addr = \<lparr>sin_family = of_int AF_INET, sin_port = hton16 SERVER_PORT, sin_addr = 0\<rparr>;
          (soc, s) = sock_open AF_INET SOCK_DGRAM IPPROTO_UDP s
      in if soc = -1 then (Returned (-1), [], s)
         else
           (let (r, s) = syscall s
            in if r = -1 then (Exited 1, [Os_bind soc addr, Os_close soc], sys_close s)
               else (let (e, calls, s) = server_loop peer n soc s in (e, Os_bind soc addr # calls, s))))"

subsection \<open>Client\<close>

definition client_greeting :: bytes where
  "client_greeting = map (\<lambda>c. of_nat (char_code c)) ''Hello from client''"

text \<open>
  \<^verbatim>\<open>inet_pton\<close> returns 1 for the dotted quad. Printing the reply as a string reads up to a null byte: without
  one in the buffer the behaviour is undefined.
\<close>

definition client_main :: "'a sock_state_scheme \<Rightarrow> (prog_end \<times> os_call list \<times> 'a sock_state_scheme) option" where
  "client_main s =
     (let buf = client_greeting @ replicate (1024 - length client_greeting) 0;
          (q, sin) = ip_string_to_address SERVER_IP 0;
          addr = \<lparr>sin_family = of_int AF_INET, sin_port = hton16 SERVER_PORT, sin_addr = sin\<rparr>
      in if q = -1 then Some (Exited 1, [], s)
         else
           (let (soc, s) = sock_open AF_INET SOCK_DGRAM IPPROTO_UDP s
            in if soc = -1 then Some (Exited 1, [], s)
               else
                 (let (r, s) = syscall s; sent = Os_sendto soc (takeWhile (\<lambda>b. b \<noteq> 0) buf) addr
                  in if r = -1 then Some (Exited 1, [sent, Os_close soc], sys_close s)
                     else
                       (let (ret, data, s) = os_recvfrom 1024 s; buf = data @ drop (length data) buf
                        in if ret \<noteq> -1 \<and> 0 \<notin> set buf then None
                           else Some (Returned 0, [sent, Os_recvfrom soc 1024, Os_close soc], sys_close s)))))"

section \<open>Lemmas\<close>

lemma sock_open_wire: "wire (snd (sock_open domain type protocol s)) = wire s"
  by (auto simp: sock_open_def sock_alloc_def udp_open_def udp_pcb_alloc_def Let_def split_beta split: option.splits)

lemma os_calls_frame:
  "pcbs (snd (syscall u)) = pcbs u" "wire (snd (syscall s)) = wire s"
  "pcbs (sys_close u) = pcbs u" "wire (sys_close s) = wire s"
  "pcbs (snd (snd (os_recvfrom n u))) = pcbs u" "wire (snd (snd (os_recvfrom n s))) = wire s"
  by (simp_all add: syscall_def sys_close_def os_recvfrom_def Let_def)

lemma server_loop_calls:
  fixes s :: "'a udp_state_scheme"
  assumes "server_loop peer n soc s = (e, calls, s')"
  shows "(\<forall>c \<in> set calls. os_fd c = soc) \<and> pcbs s' = pcbs s \<and> wire s' = wire s"
  using assms
proof (induction n arbitrary: e calls s s')
  case (Suc n)
  obtain ret buf t where t: "os_recvfrom 1024 s = (ret, buf, t)" by (cases "os_recvfrom 1024 s") auto
  obtain r u where u: "syscall t = (r, u)" by (cases "syscall t")
  obtain e' calls' v where v: "server_loop peer n soc u = (e', calls', v)" by (cases "server_loop peer n soc u") auto
  have "pcbs t = pcbs s" "wire t = wire s" "pcbs u = pcbs t" "wire u = wire t"
    using os_calls_frame(5) [of 1024 s] os_calls_frame(6) [of 1024 s] os_calls_frame(1,2) [of t] t u by simp_all
  with Suc.IH [OF v] Suc.prems t u v show ?case
    by (auto simp: os_calls_frame Let_def split: if_splits)
qed simp

lemma sock_open_fresh:
  assumes "socks s = replicate 128 zero_sock" "pcbs s = replicate 16 zero_pcb"
  shows "fst (sock_open AF_INET SOCK_DGRAM IPPROTO_UDP s) = 0 \<and>
    (\<forall>pcb \<in> set (pcbs (snd (sock_open AF_INET SOCK_DGRAM IPPROTO_UDP s))). ep_port (pcb_local pcb) = 0)"
  unfolding sock_open_first [OF assms]
  by (auto simp: first_pcb_def zero_pcb_def dest!: set_update_subset_insert [THEN subsetD])

section \<open>Properties\<close>

text \<open>
  C40. The sample programs do not use the stack beyond opening a socket: the calls they make afterwards go to the
  descriptor 0 of the host, the number of their first socket and the standard input of the process. Nothing is
  sent through the stack, and no datagram for the port of the server reaches a control block.
\<close>

theorem samples_bypass_stack:
  assumes "socks s = replicate 128 zero_sock" "pcbs s = replicate 16 zero_pcb"
    "server_main peer n s = (e, calls, s') \<or> client_main s = Some (e, calls, s')"
  shows "(\<forall>c \<in> set calls. os_fd c = 0) \<and> wire s' = wire s \<and> udp_pcb_select addr (hton16 SERVER_PORT) (pcbs s') = None"
proof -
  obtain t where t: "sock_open AF_INET SOCK_DGRAM IPPROTO_UDP s = (0, t)" "\<forall>pcb \<in> set (pcbs t). ep_port (pcb_local pcb) = 0"
    using sock_open_fresh [OF assms(1,2)] by (cases "sock_open AF_INET SOCK_DGRAM IPPROTO_UDP s") auto
  have wt: "wire t = wire s" using sock_open_wire [of AF_INET SOCK_DGRAM IPPROTO_UDP s] t(1) by simp
  obtain r u where u: "syscall t = (r, u)" by (cases "syscall t")
  have pu: "pcbs u = pcbs t" "wire u = wire t" using os_calls_frame(1,2) [of t] u by simp_all
  have "(\<forall>c \<in> set calls. os_fd c = 0) \<and> pcbs s' = pcbs t \<and> wire s' = wire t"
    using assms(3)
  proof
    assume m: "server_main peer n s = (e, calls, s')"
    obtain e' calls' v where v: "server_loop peer n 0 u = (e', calls', v)" by (cases "server_loop peer n 0 u") auto
    from server_loop_calls [OF v] m t(1) u v pu show ?thesis
      by (auto simp: server_main_def os_calls_frame Let_def split: if_splits)
  next
    assume m: "client_main s = Some (e, calls, s')"
    obtain ret buf v where v: "os_recvfrom 1024 u = (ret, buf, v)" by (cases "os_recvfrom 1024 u") auto
    have "pcbs v = pcbs u" "wire v = wire u" using os_calls_frame(5) [of 1024 u] os_calls_frame(6) [of 1024 u] v by simp_all
    moreover have "ip_string_to_address SERVER_IP 0 = (0, 0x0100007f)" by code_simp
    ultimately show ?thesis
      using m t(1) u v pu by (auto simp: client_main_def os_calls_frame Let_def split: if_splits)
  qed
  moreover have "hton16 SERVER_PORT \<noteq> 0" by code_simp
  then have "udp_pcb_select addr (hton16 SERVER_PORT) (pcbs t) = None"
    using t(2) by (auto simp: udp_pcb_select_def find_slot_None)
  ultimately show ?thesis using wt by simp
qed

theorem samples_bypass_stack_witness:
  "\<exists>calls s'. server_main (\<lambda>_. \<lparr>sin_family = 2, sin_port = 9, sin_addr = 1\<rparr>) 1
      (boot (\<lambda>_. True) (\<lambda>_. Timeval 0 0) (\<lambda>_. 3) (\<lambda>_. 0) (\<lambda>_. [1, 2, 3]) (\<lambda>_. 0)) = (Running, calls, s') \<and>
    calls = [Os_bind 0 \<lparr>sin_family = 2, sin_port = hton16 4000, sin_addr = 0\<rparr>, Os_recvfrom 0 1024,
      Os_sendto 0 [1, 2, 3] \<lparr>sin_family = 2, sin_port = 9, sin_addr = 1\<rparr>] \<and>
    udp_pcb_select 0x020200c0 (hton16 SERVER_PORT) (pcbs s') = None"
proof -
  define s where "s = boot (\<lambda>_. True) (\<lambda>_. Timeval 0 0) (\<lambda>_. 3) (\<lambda>_. 0) (\<lambda>_. [1, 2, 3]) (\<lambda>_. 0)"
  let ?p = "\<lambda>_ :: nat. \<lparr>sin_family = 2, sin_port = 9, sin_addr = 1\<rparr>"
  obtain e calls s' where m: "server_main ?p 1 s = (e, calls, s')" by (cases "server_main ?p 1 s") auto
  have s: "socks s = replicate 128 zero_sock" "pcbs s = replicate 16 zero_pcb" "sys_ret s = (\<lambda>_. 3)" "sys_data s = (\<lambda>_. [1, 2, 3])"
    by (simp_all add: s_def boot_def)
  obtain t where t: "sock_open AF_INET SOCK_DGRAM IPPROTO_UDP s = (0, t)"
    using sock_open_fresh [OF s(1,2)] by (cases "sock_open AF_INET SOCK_DGRAM IPPROTO_UDP s") auto
  have env: "sys_ret t = sys_ret s" "sys_data t = sys_data s"
    using arg_cong [OF t, of "\<lambda>p. sys_ret (snd p)"] arg_cong [OF t, of "\<lambda>p. sys_data (snd p)"]
    by (auto simp: sock_open_def sock_alloc_def udp_open_def udp_pcb_alloc_def Let_def split_beta split: option.splits if_splits)
  have "(of_int AF_INET :: u16) = 2" by (simp add: AF_INET_def)
  with m env s have "e = Running \<and> calls =
      [Os_bind 0 \<lparr>sin_family = 2, sin_port = hton16 4000, sin_addr = 0\<rparr>, Os_recvfrom 0 1024, Os_sendto 0 [1, 2, 3] (?p 0)]"
    by (auto simp: server_main_def t os_recvfrom_def syscall_def SERVER_PORT_def Let_def)
  moreover have "server_main ?p 1 s = (e, calls, s') \<or> client_main s = Some (e, calls, s')" using m by simp
  note samples_bypass_stack [OF s(1,2) this, of "0x020200c0"]
  ultimately show ?thesis using m by (auto simp: s_def)
qed

end
