(* ===== verification/Spec2Isabelle.thy ===== *)
theory Spec2Isabelle
  imports Wire Dump Samples
begin

text \<open>
  \<^bold>\<open>A user-space TCP/IP stack\<close>

  The program is a network stack in C that runs as an ordinary process: frames come from a tap device or a packet
  socket, pass through Ethernet, ARP, IP, ICMP and UDP, and reach applications through a socket interface. This development
  models all of it and proves the layers correct, one by one and together. File names are relative to the directory
  \<^verbatim>\<open>src/\<close> of the repository, whose libraries are in \<^verbatim>\<open>src/src/\<close>.

  \<^bold>\<open>Conventions.\<close> Structures are records, enumerations are datatypes, integers whose width matters are words and bytes in
  memory are lists of 8-bit words. Every operation is a function on an explicit state. Status codes and null pointers of the C code are
  values of the model; a result \<open>None\<close> of type \<open>option\<close> where the C code has a plain result is undefined behaviour (a
  read or write out of bounds, a null pointer followed, a loop that never ends), so that a theorem that says \<open>f s = Some t\<close> shows that nothing
  undefined happens. Function pointers are datatypes of the functions that the code registers. The state is one record that each layer
  extends with its static variables, from \<open>net_state\<close> (\<^verbatim>\<open>net.c\<close>, \<^verbatim>\<open>interrupt.c\<close>) through \<open>arp_state\<close>,
  \<open>ip_state\<close>, \<open>udp_state\<close> and \<open>sock_state\<close> to \<open>app_state\<close>. What the environment decides is part of the
  state too: \<open>mem_ok n\<close> says whether the \<open>n\<close>-th allocation succeeds, \<open>clock n\<close> what the \<open>n\<close>-th call of \<^verbatim>\<open>gettimeofday\<close> returns,
  \<open>sys_ret n\<close>, \<open>sys_errno n\<close> and \<open>sys_data n\<close> what the \<open>n\<close>-th system call returns, \<open>rx fd\<close> which frames wait at a
  descriptor; \<open>wire\<close> is what was written. The theorems hold for all environments unless they say otherwise. The host is little-endian,
  except in \<open>Util_Checksum\<close>, which treats both byte orders.

  \<^bold>\<open>Theories.\<close>

  \<^item> \<open>Stack_Prelude\<close>: bytes and words in memory, reads and writes with bounds, allocation, tables searched for
    the first slot (\<open>find_slot\<close>), the collections of simplification rules.
  \<^item> \<open>Util_Checksum\<close>, \<open>Util_Queue\<close> (\<^verbatim>\<open>lib/util.c\<close>): byte order and \<^verbatim>\<open>cksum16\<close>, with its equality to the one's complement sum of
    RFC 1071 for every length; the linked queue on a heap of entries, which refines a list (\<open>lqueue\<close>), the form in which the
    other theories use it. The locale \<open>checksummed\<close> says what holds of any header with a checksum field and is interpreted for IP, ICMP and UDP.
  \<^item> \<open>Addr_Text\<close> (\<^verbatim>\<open>lib/ip.c\<close>, \<^verbatim>\<open>lib/ether.c\<close>): texts of addresses and endpoints with \<^verbatim>\<open>strtol\<close> as the C library has it, round trips through the locale
    \<open>text_format\<close>, the buffer overflow of \<^verbatim>\<open>ip_string_to_endpoint\<close>.
  \<^item> \<open>Timeval\<close> (\<^verbatim>\<open>include/util.h\<close>): time stamps as a linear order.
  \<^item> \<open>Net_State\<close>, \<open>Device\<close> (\<^verbatim>\<open>lib/net.c\<close>, \<^verbatim>\<open>handler/interrupt.c\<close>): devices, interfaces, protocols and their input queues, timers,
    events, interrupt requests; the invariant \<open>wf_net\<close> and the relations \<open>net_ext\<close>, \<open>net_out\<close> and \<open>queue_adds\<close> that
    say what an operation may change.
  \<^item> \<open>Ether\<close>, \<open>Loopback\<close>, \<open>Ether_Dev\<close> (\<^verbatim>\<open>lib/ether.c\<close>, \<^verbatim>\<open>device/loopback.c\<close>, \<^verbatim>\<open>handler/tap.c\<close>, \<^verbatim>\<open>handler/pcap.c\<close>): frames and drivers. The locale
    \<open>link\<close> is the contract of a driver, interpreted for all three.
  \<^item> \<open>Arp\<close> (\<^verbatim>\<open>lib/arp.c\<close>): the cache, refined to a map from addresses to entries; \<open>arp_input\<close> in its two critical sections, with the race between them.
  \<^item> \<open>Ip\<close>, \<open>Icmp\<close> (\<^verbatim>\<open>lib/ip.c\<close>, \<^verbatim>\<open>lib/icmp.c\<close>): routing as longest-prefix match, input and output of packets,
    the echo reply, and what the missing check of the total length leads to.
  \<^item> \<open>Sched\<close> (\<^verbatim>\<open>handler/synchronize.c\<close>): contexts on which threads sleep. A call that sleeps is two functions, up to
    \<^verbatim>\<open>pthread_cond_wait\<close> and from there.
  \<^item> \<open>Udp\<close>, \<open>Sock\<close> (\<^verbatim>\<open>lib/udp.c\<close>, \<^verbatim>\<open>lib/sock.c\<close>): control blocks, datagrams, sleeping receivers; socket descriptors.
  \<^item> \<open>Stack\<close> (\<^verbatim>\<open>lib/net.c\<close>, \<^verbatim>\<open>handler/interrupt.c\<close>): the registered functions resolved, the handlers of the interrupt thread and the start of the stack;
    the invariant \<open>wf_stack\<close> of all layers together. The locale \<open>transport\<close> is what IP relies on in the protocols above it; it is interpreted on the dispatch \<open>ip_call\<close>.
  \<^item> \<open>App\<close> (\<^verbatim>\<open>apps/udp_app.c\<close>, \<^verbatim>\<open>include/params.h\<close>): the echo server, from its arguments to its exit.
  \<^item> \<open>Samples\<close> (\<^verbatim>\<open>apps/client.c\<close>, \<^verbatim>\<open>apps/server.c\<close>): the sample programs and the system calls they make.
  \<^item> \<open>Dump\<close> (\<^verbatim>\<open>lib/util.c\<close> and the layers): what is printed, as text.
  \<^item> \<open>Wire\<close>: one datagram on its way from the descriptor to the control block.
  \<^item> This theory: the properties of the stack as a whole.

  \<^bold>\<open>What is shown.\<close> Of each layer: an invariant that every operation keeps, for every sequence of operations (\<open>arp_cache_invariant\<close>,
  \<open>udp_endpoints_unique\<close>, \<open>sock_descriptors\<close>), what each operation does on all its branches, errors included
  (\<open>ip_send_packet_outcomes\<close>, \<open>udp_recvfrom_outcomes\<close>, \<open>sock_open_outcomes\<close>), and that what is sent is what is received
  (\<open>ether_transmit_poll_roundtrip\<close>, \<open>ip_packet_roundtrip\<close>, \<open>udp_roundtrip\<close>). Of the stack: it has no undefined behaviour and keeps all
  invariants, whatever the applications, the network and the signals do (\<open>stack_run_safe\<close>); its input queues are drained
  (\<open>softirq_drains\<close>); a datagram reaches its socket (\<open>udp_wire_to_socket\<close>). Of the server: it comes up, echoes and terminates.
  The assumption of \<open>stack_run_safe\<close> on the network is \<open>frame_ok\<close>: no IP packet whose total length is less than its header length, the case that
  \<^verbatim>\<open>ip_input\<close> forgets (\<open>ip_total_length_unchecked\<close>). Its assumption on the system is that calls do not fail for ever, without which
  the interrupt routine can loop on \<^verbatim>\<open>EINTR\<close>.

  \<^bold>\<open>Loops and bounds.\<close> Loops over lists and arrays are structural recursion. The other loops: the carry loop of \<^verbatim>\<open>cksum16\<close> and the
  loops of \<^verbatim>\<open>hexdump\<close> and of the port search are total functions with a measure; the walk of the linked queue, the loop of the interrupt routines and the drain of an input
  queue are \<open>partial_function\<close>, where not ending is \<open>None\<close>, and are proved to end: the walk on well-formed
  queues, the routines by the number of waiting frames and of failures to come, the drain because a packet that is answered over the loopback device
  is answered with one that is not. Fuel occurs only where a program never ends: the server of \<open>Samples\<close> runs for a given number of
  rounds and the interrupt thread for a given list of signals; the theorems hold for all of them.

  \<^bold>\<open>Interleaving.\<close> A step of the model is a critical section: a socket call up to the point where its thread sleeps, what it does once it is awake again, one round of
  the interrupt thread. The theorems on runs quantify over all sequences of such steps. The two critical sections of \<^verbatim>\<open>arp_input\<close> are separate functions. The input queues of
  the protocols, which the code does not protect by a mutex, are changed atomically here.

  \<^bold>\<open>Not modelled.\<close> The mutex wrappers of \<^verbatim>\<open>include/handler.h\<close>, which only rename calls of the thread library: critical
  sections are atomic. The output of log messages at the places where the code calls \<^verbatim>\<open>lprintf\<close> and the dump functions: they are modelled in \<open>Dump\<close>, where
  it is shown that they are safe under the checks made before the calls, but the other theories leave the calls out. The names and
  descriptions that only these messages use. Failing mutexes and the contents of freed memory. What is not code of the stack: \<^verbatim>\<open>app.py\<close>, a test script that sends a packet, the Makefile,
  the readme and the binaries. The kernel, the C library and the network are the environment described above. Nothing else of the sources is left out; unused constants
  (IPv6, TCP, ICMP codes) have no definition of their own.
\<close>

section \<open>The stack as a whole\<close>


subsection \<open>The stack is safe\<close>



text \<open>
  C2. No packet is left behind: the software interrupt handler ends, although packets for the loopback device
  are answered into the queues it drains, and when it ends all input queues are empty. While a packet waits in a queue
  the interrupt is pending, after any run of the stack, so the handler does get to it.
\<close>

theorem softirq_drains:
  assumes "wf_stack s" "SIGUSR1 \<in> set (sigmask s)" "queue_of t s \<noteq> []"
  shows "SIGUSR1 \<in> set (pending s) \<and>
    (\<exists>s'. intr_step SIGUSR1 s = Some s' \<and> wf_stack s' \<and> (\<forall>t. queue_of t s' = []))"
proof -
  have "softirq_ok s" using assms(1) by (simp add: wf_stack_def)
  with assms(3) have p: "SIGUSR1 \<in> set (pending s)"
    by (cases "find_slot (\<lambda>proto. np_type proto = t) (protocols s)")
      (auto simp: queue_of_def softirq_ok_def dest!: find_slot_SomeD)
  with intr_step_stack [OF assms(1), of SIGUSR1] assms(2) show ?thesis by auto
qed

theorem softirq_drains_witness:
  "SIGUSR1 \<in> set (pending waiting) \<and> (\<exists>s'. intr_step SIGUSR1 waiting = Some s' \<and> queue_of 0x806 s' = [])"
  using softirq_drains [OF waiting_ok(1,3,2)] by auto

subsection \<open>From the wire to the application\<close>

text \<open>
  C3. A datagram travels the whole way up: a frame for this station, with a datagram for a bound
  control block in it, arrives at the tap device of an idle stack. After the two rounds of the interrupt thread
  that the signals call for, exactly its payload and the endpoint of the sender are at the end of the queue of that control
  block, sleeping receivers are woken and all other control blocks are as before. Ethernet padding is gone.
\<close>

theorem udp_wire_to_socket:
  assumes "wf_stack s" "\<forall>n. mem_ok s n" "irq_vec s = [ie]" "ie_handler ie = ether_tap_isr_handler"
    "dev_heap s (ie_dev ie) = Some d" "dev_priv d = Some pv" "rx s (pv_fd pv) = []" "\<forall>t. queue_of t s = []"
    "ie_irq ie \<notin> {SIGUSR1, SIGUSR2, SIGALRM}" "{ie_irq ie, SIGUSR1} \<subseteq> set (sigmask s)"
    "map_option snd (protocol_of NETWORK_PROTOCOL_TYPE_IP s) = Some ip_input_handler"
    "map_option snd (ip_protocol_of UDP_PROTOCOL s) = Some udp_input_handler"
    "network_device_get_interface (ie_dev ie) NETWORK_INTERFACE_FAMILY_IP s = Some (Some ifp)" "if_heap s ifp = Some i"
    "ep_address dst = if_unicast i" "udp_pcb_select (ep_address dst) (ep_port dst) (pcbs s) = Some k"
    "length sa = 6" "length payload \<le> 1472" "\<forall>n. sys_ret s n \<noteq> -1"
  shows "\<exists>s'. stack_run [Arrive (pv_fd pv) (udp_frame (take 6 (dev_address d)) sa ident src dst payload) (ie_irq ie),
      Interrupt (ie_irq ie), Interrupt SIGUSR1] s = Some s' \<and> wf_stack s' \<and>
    pcbs s' = udp_deliver k \<lparr>uq_foreign = src, uq_len = of_nat (length payload), uq_data = payload\<rparr> (pcbs s)"
proof -
  let ?da = "take 6 (dev_address d)"
  let ?f = "udp_frame ?da sa ident src dst payload"
  let ?p = "ip_packet UDP_PROTOCOL (udp_datagram src dst payload) (ep_address src) (ep_address dst) ident 0"
  let ?pad = "replicate (46 - (28 + length payload)) 0 :: bytes"
  let ?e = "\<lparr>nq_dev = ie_dev ie, nq_len = max 46 (28 + length payload), nq_data = ?p @ ?pad\<rparr>"
  have wn: "wf_net s" and dv: "ie_dev ie \<in> set (devices s)"
    using assms(1,3) by (simp_all add: wf_stack_def wf_sock_def wf_udp_def wf_ip_def wf_arp_def irqs_ok_def)
  have da: "length ?da = 6" using wf_device_heap [OF wn dv] assms(5) by (auto simp: wf_device_def NETWORK_DEVICE_ADDR_LEN_def)
  note fok = udp_frame_ok [OF da assms(17,18), of ident src dst]
  note acc = udp_frame_accept [OF da assms(17,18), of "ie_dev ie" ident src dst]
  define a where "a = raise_signal (ie_irq ie) (s\<lparr>rx := (rx s)(pv_fd pv := rx s (pv_fd pv) @ [?f])\<rparr>)"
  have sa: "stack_do (Arrive (pv_fd pv) ?f (ie_irq ie)) s = Some a" by (simp add: a_def)
  with stack_do_wf [OF assms(1), of "Arrive (pv_fd pv) ?f (ie_irq ie)"] fok have wa: "wf_stack a" by simp
  have a: "mem_ok a = mem_ok s" "irq_vec a = irq_vec s" "dev_heap a = dev_heap s" "if_heap a = if_heap s" "rx a (pv_fd pv) = [?f]"
    "protocols a = protocols s" "sigmask a = sigmask s" "ie_irq ie \<in> set (pending a)" "pcbs a = pcbs s" "ip_protocols a = ip_protocols s"
    "\<forall>n. sys_ret a n \<noteq> -1"
    using assms(7,19) by (simp_all add: a_def raise_signal_def)
  have qa: "\<forall>t. queue_of t a = []" using assms(8) queue_of_cong [OF a(6)] by simp
  have pa: "protocol_of NETWORK_PROTOCOL_TYPE_IP a \<noteq> None" using assms(11) a(6) by (auto simp: protocol_of_def)
  define b where "b = a\<lparr>pending := remove1 (ie_irq ie) (pending a), rx := (rx a)(pv_fd pv := [])\<rparr>"
  have pre: "\<forall>n. mem_ok a n" "irq_vec a = [ie]" "dev_heap a (ie_dev ie) = Some d" "ie_irq ie \<in> set (sigmask a)"
    using assms(2,3,5,10) a by simp_all
  obtain t where t: "intr_step (ie_irq ie) a = Some t" "net_out b t"
    "\<forall>ty. queue_of ty t = (if ty = NETWORK_PROTOCOL_TYPE_IP then [?e] else [])"
    using udp_frame_interrupt [OF wa pre(1,2) assms(4) pre(3) assms(6) a(5) qa assms(9) a(8) pre(4) acc pa a(11)] b_def by blast
  have wt: "wf_stack t" using stack_do_wf [OF wa, of "Interrupt (ie_irq ie)"] t(1) by simp
  have bt: "b = a\<lparr>pending := remove1 (ie_irq ie) (pending a), rx := (rx a)(pv_fd pv := [])\<rparr>" by (rule b_def)
  have tt: "mem_ok t = mem_ok s" "dev_heap t = dev_heap s" "if_heap t = if_heap s" "sigmask t = sigmask s" "pcbs t = pcbs s"
    "ip_protocols t = ip_protocols s"
    using net_ext_same [OF net_outD [OF t(2)]] net_out_udp [OF t(2)] ip_out_pcbs [OF arp_out_ip [OF net_out_arp [OF t(2)]]] a
    by (simp_all add: bt udp_out_def)
  obtain name where name: "ip_protocol_of UDP_PROTOCOL t = Some (name, udp_input_handler)"
    using assms(12) tt(6) by (auto simp: ip_protocol_of_def)
  have mt: "\<forall>n. mem_ok t n" "SIGUSR1 \<in> set (sigmask t)" "if_heap t ifp = Some i"
    "network_device_get_interface (ie_dev ie) NETWORK_INTERFACE_FAMILY_IP t = Some (Some ifp)"
    "udp_pcb_select (ep_address dst) (ep_port dst) (pcbs t) = Some k"
    using assms(2,10,13,14,16) tt by (simp_all add: network_device_get_interface_def)
  from udp_frame_softirq [OF wt mt(1,2) t(3) name mt(4,3) assms(15) mt(5) assms(18)] obtain s' where
    s': "intr_step SIGUSR1 t = Some s'"
      "pcbs s' = udp_deliver k \<lparr>uq_foreign = src, uq_len = of_nat (length payload), uq_data = payload\<rparr> (pcbs s)" unfolding tt(5) by blast
  moreover have "wf_stack s'" using stack_do_wf [OF wt, of "Interrupt SIGUSR1"] s'(1) by simp
  moreover have "stack_run [Arrive (pv_fd pv) ?f (ie_irq ie), Interrupt (ie_irq ie), Interrupt SIGUSR1] s = Some s'"
    using fok sa t(1) s'(1) by simp
  ultimately show ?thesis by blast
qed

theorem udp_wire_to_socket_witness:
  "\<exists>s'. stack_run [Arrive 0 (udp_frame [0, 0, 0x5e, 0, 0x53, 1] [2, 0, 0, 0, 0, 1] 77 \<lparr>ep_address = 0x010200c0, ep_port = 9\<rparr>
        \<lparr>ep_address = 0x020200c0, ep_port = hton16 7\<rparr> [1, 2, 3]) 36, Interrupt 36, Interrupt SIGUSR1] (serving [] [0]) = Some s' \<and>
    q_items (pcb_queue (pcbs s' ! 0)) = [\<lparr>uq_foreign = \<lparr>ep_address = 0x010200c0, ep_port = 9\<rparr>, uq_len = 3, uq_data = [1, 2, 3]\<rparr>] \<and>
    sc_ready (pcb_ctx (pcbs s' ! 0)) = [0]"
proof -
  let ?s = "serving [] [0]"
  let ?dst = "\<lparr>ep_address = 0x020200c0, ep_port = hton16 7\<rparr>"
  have ws: "wf_stack ?s" by (rule serving_ok) simp_all
  have mem: "\<forall>n. mem_ok ?s n" by (simp add: serving_net)
  have empty: "\<forall>t. queue_of t ?s = []" by (simp add: queue_of_def serving_net lqueue_init_def)
  have dev: "dev_heap ?s 6 = Some ((tap_device 0 0 [9])\<lparr>dev_flags := 0x121\<rparr>)" by (simp add: serving_net)
  have sel: "udp_pcb_select (ep_address ?dst) (ep_port ?dst) (pcbs ?s) = Some 0"
    unfolding udp_pcb_select_def by (rule find_slotI) (simp_all add: serving_tables serving_pcb_def IP_ADDR_ANY_def)
  have get: "network_device_get_interface 6 NETWORK_INTERFACE_FAMILY_IP ?s = Some (Some 9)"
    by (simp add: network_device_get_interface_def serving_net tap_device_def tap_iface_def NETWORK_INTERFACE_FAMILY_IP_def)
  note main = udp_wire_to_socket [OF ws mem serving_net(8), of _ "\<lparr>pv_name = ''tap0'', pv_fd = 0, pv_irq = 36\<rparr>" 9 "tap_iface 6" ?dst 0
      "[2, 0, 0, 0, 0, 1]" "[1, 2, 3]" 77 "\<lparr>ep_address = 0x010200c0, ep_port = 9\<rparr>"]
  have "take 6 (dev_address ((tap_device 0 0 [9])\<lparr>dev_flags := 0x121\<rparr>)) = [0, 0, 0x5e, 0, 0x53, 1]" by (simp add: tap_device_def)
  then obtain s' where s': "stack_run [Arrive 0 (udp_frame [0, 0, 0x5e, 0, 0x53, 1] [2, 0, 0, 0, 0, 1] 77 \<lparr>ep_address = 0x010200c0, ep_port = 9\<rparr>
        ?dst [1, 2, 3]) 36, Interrupt 36, Interrupt SIGUSR1] ?s = Some s'"
      "pcbs s' = udp_deliver 0 \<lparr>uq_foreign = \<lparr>ep_address = 0x010200c0, ep_port = 9\<rparr>, uq_len = of_nat (length [1, 2, 3 :: u8]), uq_data = [1, 2, 3]\<rparr> (pcbs ?s)"
    using main [of "(tap_device 0 0 [9])\<lparr>dev_flags := 0x121\<rparr>"] dev sel get empty serving_calls
    by (auto simp: serving_net(6) serving_net(7) serving_net(1) serving_net(5) serving_tables(4) protocol_of_def ip_protocol_of_def
        SIGUSR1_def SIGUSR2_def SIGALRM_def NETWORK_PROTOCOL_TYPE_IP_def UDP_PROTOCOL_def tap_iface_def tap_device_def
        simp del: stack_run.simps)
  then show ?thesis
    by (intro exI [of _ s']) (simp add: udp_deliver_def serving_tables serving_pcb_def sched_wakeup_def pthread_cond_broadcast_def
        del: stack_run.simps)
qed

end
